(* ===== verification/Prelude.thy ===== *)
theory Prelude
  imports Main "HOL-Library.Word" "HOL-Library.Char_ord"
begin

text \<open>
  Shared vocabulary of the development: the C++ types every component uses, the
  reading of a \<open>char\<close> as a signed C value, splitting a path into its segments, and the
  generic list lemmas the component proofs rest on.

  A byte string (\<open>std::string\<close>, \<open>StringRef\<close>, a \<open>uint8_t\<close> range) is a \<^typ>\<open>string\<close>, that
  is, a list of the 256 values of \<^typ>\<open>char\<close>.
\<close>

unbundle bit_operations_syntax

type_synonym u8 = "8 word"
type_synonym u16 = "16 word"
type_synonym u32 = "32 word"

section \<open>C's signed char\<close>

text \<open>On the platforms the library targets \<open>char\<close> is signed: a byte above 127 is negative.\<close>

definition schar :: "char \<Rightarrow> int" where
  "schar c = (let n = (of_char c :: int) in if n < 128 then n else n - 256)"

lemma of_char_nat_less: "(of_char c :: nat) < 256"
  by simp

lemma of_char_int_range: "0 \<le> (of_char c :: int)" "(of_char c :: int) < 256"
  using of_char_nat_less [of c] by (simp_all add: of_char_def)


lemma int_and_15: "x AND (15::int) = x mod 16"
proof -
  have "(15::int) = mask 4" by (simp add: mask_eq_exp_minus_1)
  then show ?thesis by (simp only: take_bit_eq_mask [symmetric] take_bit_eq_mod) simp
qed

lemma int_of_char: "int (of_char c) = of_char c"
  by (rule of_nat_of_char)

lemma schar_mod: "schar c mod 16 = of_char c mod 16" "schar c div 16 mod 16 = of_char c div 16"
proof -
  define n where "n = (of_char c :: int)"
  have n: "0 \<le> n" "n < 256" using of_char_int_range [of c] by (simp_all add: n_def)
  have "(n - 256) mod 16 = n mod 16" "(n - 256) div 16 = n div 16 - 16"
    using mod_mult_self1 [of n "-16" 16] div_mult_self1 [of 16 n "-16"] by simp_all
  then show "schar c mod 16 = of_char c mod 16" "schar c div 16 mod 16 = of_char c div 16"
    using n by (simp_all add: schar_def Let_def flip: n_def)
qed

lemma nat_of_char_int [simp]: "nat (of_char c) = of_char c"
  by (simp add: of_char_def)

lemma schar_low_nibble: "nat (schar c AND 15) = of_char c mod 16"
  by (simp add: int_and_15 schar_mod nat_mod_distrib of_char_int_range)

lemma schar_high_nibble: "nat (drop_bit 4 (schar c) AND 15) = of_char c div 16"
  by (simp add: int_and_15 drop_bit_eq_div schar_mod nat_div_distrib of_char_int_range)

lemma char_of_nat_inject: "m < 256 \<Longrightarrow> n < 256 \<Longrightarrow> (char_of m :: char) = char_of n \<longleftrightarrow> m = (n :: nat)"
  using inj_on_char_of_nat by (auto dest: inj_onD)

section \<open>Path segments\<close>

text \<open>
  The segments of a path, that is, the strings between its slashes. This is the reference
  notion against which the string searches of the code are judged.
\<close>

fun segments :: "string \<Rightarrow> string list" where
  "segments [] = [[]]"
| "segments (c # s) = (if c = CHR ''/'' then [] # segments s
     else (case segments s of [] \<Rightarrow> [[c]] | x # xs \<Rightarrow> (c # x) # xs))"

lemma segments_nonempty [simp]: "segments s \<noteq> []"
  by (induction s) (auto split: list.splits)

lemma segments_append_slash [simp]:
  "CHR ''/'' \<notin> set a \<Longrightarrow> segments (a @ CHR ''/'' # s) = a # segments s"
  by (induction a) auto

lemma segments_no_slash [simp]: "CHR ''/'' \<notin> set a \<Longrightarrow> segments a = [a]"
  by (induction a) auto

lemma segments_cases:
  obtains (last) "CHR ''/'' \<notin> set s" | (slash) a r where "s = a @ CHR ''/'' # r" "CHR ''/'' \<notin> set a"
  by (metis split_list_first)

lemma segments_induct [case_names last slash]:
  assumes "\<And>a. CHR ''/'' \<notin> set a \<Longrightarrow> P a"
    and "\<And>a r. CHR ''/'' \<notin> set a \<Longrightarrow> P r \<Longrightarrow> P (a @ CHR ''/'' # r)"
  shows "P s"
proof (induction s rule: length_induct)
  case (1 s)
  show ?case
    by (cases s rule: segments_cases) (use 1 assms in auto)
qed

lemma no_slash_suffix:
  assumes "CHR ''/'' \<notin> set x"
  shows "(\<exists>q. u @ CHR ''/'' # r = q @ CHR ''/'' # x) \<longleftrightarrow> (\<exists>q. CHR ''/'' # r = q @ CHR ''/'' # x)"
proof
  assume "\<exists>q. u @ CHR ''/'' # r = q @ CHR ''/'' # x"
  then obtain q where "u @ CHR ''/'' # r = q @ CHR ''/'' # x" ..
  then obtain us where "u = q @ us \<and> us @ CHR ''/'' # r = CHR ''/'' # x \<or>
      u @ us = q \<and> CHR ''/'' # r = us @ CHR ''/'' # x"
    by (auto simp: append_eq_append_conv2)
  with assms show "\<exists>q. CHR ''/'' # r = q @ CHR ''/'' # x"
    by (cases us) auto
next
  assume "\<exists>q. CHR ''/'' # r = q @ CHR ''/'' # x"
  then show "\<exists>q. u @ CHR ''/'' # r = q @ CHR ''/'' # x" by (metis append.assoc)
qed

lemma no_slash_infix:
  assumes "CHR ''/'' \<notin> set a"
  shows "(\<exists>p q. a @ CHR ''/'' # r = p @ CHR ''/'' # y @ q) \<longleftrightarrow> (\<exists>p q. CHR ''/'' # r = p @ CHR ''/'' # y @ q)"
proof
  assume "\<exists>p q. a @ CHR ''/'' # r = p @ CHR ''/'' # y @ q"
  then obtain p q where "a @ CHR ''/'' # r = p @ CHR ''/'' # y @ q" by blast
  then obtain us where or: "a = p @ us \<and> us @ CHR ''/'' # r = CHR ''/'' # y @ q \<or>
      a @ us = p \<and> CHR ''/'' # r = us @ CHR ''/'' # y @ q"
    by (auto simp: append_eq_append_conv2)
  show "\<exists>p q. CHR ''/'' # r = p @ CHR ''/'' # y @ q"
  proof (cases us)
    case Nil
    with or have "CHR ''/'' # r = [] @ CHR ''/'' # y @ q" by auto
    then show ?thesis by blast
  next
    case (Cons u us')
    have "u = CHR ''/''" "us' @ CHR ''/'' # r = y @ q \<and> a = p @ us \<or> r = us' @ CHR ''/'' # y @ q"
      using or Cons by auto
    with Cons assms show ?thesis by (metis append_Cons in_set_conv_decomp)
  qed
next
  assume "\<exists>p q. CHR ''/'' # r = p @ CHR ''/'' # y @ q"
  then show "\<exists>p q. a @ CHR ''/'' # r = p @ CHR ''/'' # y @ q" by (metis append.assoc)
qed

lemma first_slash_unique:
  assumes "CHR ''/'' \<notin> set a" "CHR ''/'' \<notin> set b"
  shows "a @ CHR ''/'' # r = b @ CHR ''/'' # q \<longleftrightarrow> a = b \<and> r = q"
  using assms by (induction a b rule: list_induct2') auto

end
