(* ===== verification/Util.thy ===== *)
theory Util
  imports Prelude
begin

text \<open>
  \<open>lib/util.h\<close> and \<open>lib/util.cc\<close>: character classes, percent encoding and decoding,
  decimal conversion, prefix and suffix tests, the directory traversal check, and the
  tests for numeric host names.
\<close>

section \<open>Character classes\<close>

text \<open>
  Every range test below has both bounds inside ASCII, so it does not depend on the
  signedness of \<open>char\<close>; only \<open>hex_to_uint\<close> compares on one side and reads \<^const>\<open>schar\<close>.
\<close>

definition is_alpha :: "char \<Rightarrow> bool" where
  "is_alpha c \<longleftrightarrow> (CHR ''A'' \<le> c \<and> c \<le> CHR ''Z'') \<or> (CHR ''a'' \<le> c \<and> c \<le> CHR ''z'')"

definition is_digit :: "char \<Rightarrow> bool" where
  "is_digit c \<longleftrightarrow> CHR ''0'' \<le> c \<and> c \<le> CHR ''9''"

definition is_hex_digit :: "char \<Rightarrow> bool" where
  "is_hex_digit c \<longleftrightarrow> is_digit c \<or> (CHR ''A'' \<le> c \<and> c \<le> CHR ''F'') \<or>
     (CHR ''a'' \<le> c \<and> c \<le> CHR ''f'')"

definition in_rfc3986_unreserved_chars :: "char \<Rightarrow> bool" where
  "in_rfc3986_unreserved_chars c \<longleftrightarrow> is_alpha c \<or> is_digit c \<or> c \<in> set ''-._~''"

definition in_rfc3986_sub_delims :: "char \<Rightarrow> bool" where
  "in_rfc3986_sub_delims c \<longleftrightarrow> c \<in> set ([CHR ''!'', CHR ''$'', CHR ''&'', CHR 0x27] @ ''()*+,;='')"

section \<open>Percent encoding\<close>

definition UPPER_XDIGITS :: string where
  "UPPER_XDIGITS = ''0123456789ABCDEF''"

text \<open>One iteration of the loop of \<open>percent_encode_path\<close>: what is appended to \<open>dest\<close>.\<close>

definition percent_encode_char :: "char \<Rightarrow> string" where
  "percent_encode_char c =
     (if in_rfc3986_unreserved_chars c \<or> in_rfc3986_sub_delims c \<or> c = CHR ''/'' then [c]
      else [CHR 0x25, UPPER_XDIGITS ! nat (drop_bit 4 (schar c) AND 15),
            UPPER_XDIGITS ! nat (schar c AND 15)])"

fun percent_encode_path :: "string \<Rightarrow> string" where
  "percent_encode_path [] = []"
| "percent_encode_path (c # s) = percent_encode_char c @ percent_encode_path s"

definition hex_to_uint :: "char \<Rightarrow> u32" where
  "hex_to_uint c =
     (if schar c \<le> 57 then word_of_int (schar c - 48)
      else if schar c \<le> 90 then word_of_int (schar c - 65 + 10)
      else if schar c \<le> 122 then word_of_int (schar c - 97 + 10)
      else 256)"

text \<open>
  The assignment of the \<open>uint32_t\<close> sum to a \<open>char\<close> keeps its low eight bits, as
  \<^const>\<open>char_of\<close> does.
\<close>

fun percent_decode :: "string \<Rightarrow> string" where
  "percent_decode [] = []"
| "percent_decode (c # s) =
     (if c \<noteq> CHR 0x25 then c # percent_decode s
      else (case s of
              h # l # r \<Rightarrow>
                if is_hex_digit h \<and> is_hex_digit l
                then char_of (unat (push_bit 4 (hex_to_uint h) + hex_to_uint l)) # percent_decode r
                else c # percent_decode s
            | _ \<Rightarrow> c # percent_decode s))"

section \<open>Comparison of byte ranges\<close>

definition starts_with :: "string \<Rightarrow> string \<Rightarrow> bool" where
  "starts_with a b \<longleftrightarrow> \<not> length a < length b \<and> take (length b) a = b"

definition ends_with :: "string \<Rightarrow> string \<Rightarrow> bool" where
  "ends_with a b \<longleftrightarrow> \<not> length a < length b \<and> drop (length a - length b) a = b"

definition streq :: "string \<Rightarrow> string \<Rightarrow> bool" where
  "streq a b \<longleftrightarrow> length a = length b \<and> take (length a) b = a"

section \<open>Decimal conversion\<close>

text \<open>
  The first loop of \<open>utos\<close> counts the digits of \<open>n\<close>; the second writes them from the
  right into the string resized to that length, \<open>res[--nlen] = (n % 10) + '0'\<close>.
\<close>

fun utos_len :: "nat \<Rightarrow> nat" where
  "utos_len t = (if t = 0 then 0 else Suc (utos_len (t div 10)))"

fun utos_fill :: "nat \<Rightarrow> nat \<Rightarrow> string \<Rightarrow> string" where
  "utos_fill n nlen res =
     (if n = 0 then res
      else utos_fill (n div 10) (nlen - 1) (res[nlen - 1 := char_of (n mod 10 + 48)]))"

declare utos_len.simps [simp del] utos_fill.simps [simp del]

definition utos :: "nat \<Rightarrow> string" where
  "utos n = (if n = 0 then ''0''
             else utos_fill n (utos_len n) (replicate (utos_len n) (CHR 0x00)))"

text \<open>
  Numeric host names: \<open>inet_pton family host\<close> is the return value of the function of the C library, 1 for an address of
  the family.
\<close>

datatype address_family = AF_INET | AF_INET6

type_synonym inet_pton = "address_family \<Rightarrow> string \<Rightarrow> int"

definition numeric_host_family :: "inet_pton \<Rightarrow> string \<Rightarrow> address_family \<Rightarrow> bool" where
  "numeric_host_family inet_pton hostname family \<longleftrightarrow> inet_pton family hostname = 1"

definition numeric_host :: "inet_pton \<Rightarrow> string \<Rightarrow> bool" where
  "numeric_host inet_pton hostname \<longleftrightarrow>
     numeric_host_family inet_pton hostname AF_INET \<or> numeric_host_family inet_pton hostname AF_INET6"

definition ipv6_numeric_addr :: "inet_pton \<Rightarrow> string \<Rightarrow> bool" where
  "ipv6_numeric_addr inet_pton host \<longleftrightarrow> inet_pton AF_INET6 host = 1"

text \<open>\<open>int64_t\<close> maximum, and the digit loop with its two overflow guards.\<close>

definition INT64_MAX :: int where
  "INT64_MAX = 9223372036854775807"

text \<open>
  \<open>parse_uint_digits\<close>: the loop state is the value \<open>n\<close> and the index \<open>i\<close>; the result
  is the pair \<open>{n, i}\<close>, or \<open>{-1, 0}\<close>.
\<close>

fun parse_uint_loop :: "string \<Rightarrow> int \<Rightarrow> nat \<Rightarrow> int \<times> nat" where
  "parse_uint_loop [] n i = (if i = 0 then (-1, 0) else (n, i))"
| "parse_uint_loop (c # s) n i =
     (if is_digit c then
        (if n > INT64_MAX div 10 then (-1, 0)
         else if n * 10 > INT64_MAX - (of_char c - 48) then (-1, 0)
         else parse_uint_loop s (n * 10 + (of_char c - 48)) (Suc i))
      else if i = 0 then (-1, 0) else (n, i))"

definition parse_uint_digits :: "string \<Rightarrow> int \<times> nat" where
  "parse_uint_digits s = (if length s = 0 then (-1, 0) else parse_uint_loop s 0 0)"

definition parse_uint :: "string \<Rightarrow> int" where
  "parse_uint s = (let (n, i) = parse_uint_digits s in if n = -1 \<or> i \<noteq> length s then -1 else n)"

section \<open>Directory traversal\<close>

text \<open>\<open>std::string::find\<close>: the first position of \<open>pat\<close>, \<open>None\<close> for \<open>npos\<close>.\<close>

fun find_sub :: "string \<Rightarrow> string \<Rightarrow> nat option" where
  "find_sub pat [] = (if pat = [] then Some 0 else None)"
| "find_sub pat (c # s) =
     (if take (length pat) (c # s) = pat then Some 0 else map_option Suc (find_sub pat s))"

definition check_path :: "string \<Rightarrow> bool" where
  "check_path path \<longleftrightarrow>
     path \<noteq> [] \<and> path ! 0 = CHR ''/'' \<and>
     CHR 0x5C \<notin> set path \<and>
     find_sub ''/../'' path = None \<and>
     find_sub ''/./'' path = None \<and>
     \<not> ends_with path ''/..'' \<and> \<not> ends_with path ''/.''"

section \<open>Reference notions\<close>

text \<open>The value a string of decimal digits denotes, and the digits of a positive number.\<close>

definition dec_value :: "string \<Rightarrow> nat" where
  "dec_value s = foldl (\<lambda>n c. n * 10 + (of_char c - 48)) 0 s"

fun digits :: "nat \<Rightarrow> string" where
  "digits n = (if n = 0 then [] else digits (n div 10) @ [char_of (n mod 10 + 48)])"

declare digits.simps [simp del]

section \<open>Comparison lemmas\<close>

lemma starts_with_iff: "starts_with a b \<longleftrightarrow> (\<exists>r. a = b @ r)"
  by (auto simp: starts_with_def) (metis append_take_drop_id)

lemma ends_with_iff: "ends_with a b \<longleftrightarrow> (\<exists>r. a = r @ b)"
  by (auto simp: ends_with_def) (metis append_take_drop_id)

lemma streq_iff [simp]: "streq a b \<longleftrightarrow> a = b"
  by (auto simp: streq_def)

section \<open>Decoding inverts encoding\<close>

lemma upper_xdigit:
  assumes "k < 16"
  shows "is_hex_digit (UPPER_XDIGITS ! k) \<and> hex_to_uint (UPPER_XDIGITS ! k) = word_of_nat k"
proof -
  have "\<forall>k \<in> set [0..<16].
      is_hex_digit (UPPER_XDIGITS ! k) \<and> hex_to_uint (UPPER_XDIGITS ! k) = word_of_nat k"
    by code_simp
  with assms show ?thesis by simp
qed

lemma hex_pair:
  "h < 16 \<Longrightarrow> l < 16 \<Longrightarrow> unat (push_bit 4 (word_of_nat h :: u32) + word_of_nat l) = 16 * h + l"
  by (simp add: push_bit_eq_mult unat_word_ariths unat_of_nat)

lemma percent_decode_encode_char:
  "percent_decode (percent_encode_char c @ s) = c # percent_decode s"
proof (cases "in_rfc3986_unreserved_chars c \<or> in_rfc3986_sub_delims c \<or> c = CHR ''/''")
  case True
  then have "c \<noteq> CHR 0x25"
    by (auto simp: in_rfc3986_unreserved_chars_def in_rfc3986_sub_delims_def is_alpha_def is_digit_def)
  with True show ?thesis by (simp add: percent_encode_char_def)
next
  case False
  define n where "n = (of_char c :: nat)"
  have n: "n div 16 < 16" "n mod 16 < 16" by (simp_all add: n_def less_mult_imp_div_less)
  have "char_of (16 * (n div 16) + n mod 16) = c" by (simp add: n_def)
  with False n show ?thesis
    by (simp add: percent_encode_char_def schar_high_nibble schar_low_nibble upper_xdigit hex_pair
        flip: n_def)
qed

lemma percent_decode_encode: "percent_decode (percent_encode_path s) = s"
  by (induction s) (simp_all add: percent_decode_encode_char)

lemma percent_decode_no_percent: "CHR 0x25 \<notin> set s \<Longrightarrow> percent_decode s = s"
  by (induction s) auto

lemma length_percent_decode: "length (percent_decode s) \<le> length s"
proof (induction s rule: percent_decode.induct)
  case (2 c s)
  then show ?case
  proof (cases "\<exists>h l r. s = h # l # r \<and> c = CHR 0x25 \<and> is_hex_digit h \<and> is_hex_digit l")
    case True
    with 2 have "length (percent_decode (drop 2 s)) \<le> length (drop 2 s)" by auto
    with True show ?thesis by auto
  qed (use 2 in \<open>auto split: list.splits\<close>)
qed simp

lemma percent_encode_safe:
  "c \<in> set (percent_encode_path s) \<Longrightarrow>
     in_rfc3986_unreserved_chars c \<or> in_rfc3986_sub_delims c \<or> c \<in> set ''/%''"
proof (induction s)
  case (Cons d s)
  have "(of_char d :: nat) div 16 < 16" by (simp add: less_mult_imp_div_less)
  then have "is_hex_digit (UPPER_XDIGITS ! (of_char d div 16))" "is_hex_digit (UPPER_XDIGITS ! (of_char d mod 16))"
    by (simp_all add: upper_xdigit)
  moreover have "is_hex_digit x \<Longrightarrow> in_rfc3986_unreserved_chars x" for x
    by (auto simp: is_hex_digit_def in_rfc3986_unreserved_chars_def is_alpha_def less_eq_char_def)
  ultimately show ?case using Cons
    by (auto simp: percent_encode_char_def schar_high_nibble schar_low_nibble split: if_splits)
qed simp

section \<open>Printing decimal numbers\<close>

lemma digits_0 [simp]: "digits 0 = []" by (simp add: digits.simps)
lemma digits_rec: "n \<noteq> 0 \<Longrightarrow> digits n = digits (n div 10) @ [char_of (n mod 10 + 48)]"
  by (simp add: digits.simps [of n])

lemma utos_len_digits: "utos_len n = length (digits n)"
  by (induction n rule: utos_len.induct) (subst utos_len.simps, simp add: digits_rec)

lemma utos_fill_digits:
  "length res = length (digits n) + k \<Longrightarrow>
     utos_fill n (length (digits n)) res = digits n @ drop (length (digits n)) res"
proof (induction n arbitrary: res k rule: digits.induct)
  case (1 n)
  show ?case
  proof (cases "n = 0")
    case True then show ?thesis by (simp add: utos_fill.simps)
  next
    case False
    let ?m = "length (digits (n div 10))"
    let ?res = "res[?m := char_of (n mod 10 + 48)]"
    have len: "length (digits n) = Suc ?m" using False by (simp add: digits_rec)
    have "utos_fill n (length (digits n)) res = utos_fill (n div 10) ?m ?res"
      using False by (simp add: utos_fill.simps [of n] len)
    also have "\<dots> = digits (n div 10) @ drop ?m ?res"
      using "1.IH" [OF False, of ?res "Suc k"] "1.prems" len by simp
    also have "drop ?m ?res = char_of (n mod 10 + 48) # drop (Suc ?m) res"
      using "1.prems" len by (simp add: Cons_nth_drop_Suc [symmetric] drop_update_swap)
    finally show ?thesis using False len by (simp add: digits_rec)
  qed
qed

lemma utos_digits: "utos n = (if n = 0 then ''0'' else digits n)"
  using utos_fill_digits [of _ n 0] by (simp add: utos_def utos_len_digits)

lemma is_digit_char: "d < 10 \<Longrightarrow> is_digit (char_of (d + 48 :: nat)) \<and> of_char (char_of (d + 48 :: nat)) = d + 48"
  by (simp add: is_digit_def less_eq_char_def)

lemma digits_all: "\<forall>c \<in> set (digits n). is_digit c"
  by (induction n rule: digits.induct) (subst digits.simps, auto simp: is_digit_char)

lemma dec_value_snoc: "dec_value (s @ [c]) = dec_value s * 10 + (of_char c - 48)"
  by (simp add: dec_value_def)

lemma dec_value_digits: "dec_value (digits n) = n"
proof (induction n rule: digits.induct)
  case (1 n)
  then show ?case
    by (cases "n = 0") (simp_all add: dec_value_def digits_rec is_digit_char)
qed

lemma utos_digit: "c \<in> set (utos n) \<Longrightarrow> is_digit c"
  using digits_all [of n] by (auto simp: utos_digits is_digit_def split: if_splits)

lemma dec_value_utos: "dec_value (utos n) = n"
  using dec_value_digits [of n] by (simp add: utos_digits dec_value_def)

lemma utos_nonempty [simp]: "utos n \<noteq> []"
  by (simp add: utos_digits digits_rec)

lemma utos_inject: "utos m = utos n \<longleftrightarrow> m = n"
  by (metis dec_value_utos)

section \<open>Parsing decimal numbers\<close>

lemma dec_value_foldl_mono: "(n :: nat) \<le> foldl (\<lambda>n c. n * 10 + (of_char c - 48)) n (s :: string)"
proof (induction s arbitrary: n)
  case (Cons c s)
  have "n \<le> n * 10 + (of_char c - 48)" by simp
  with Cons [of "n * 10 + (of_char c - 48)"] show ?case by simp
qed simp

lemma parse_uint_loop_spec:
  assumes "0 \<le> n" "n \<le> INT64_MAX"
  shows "parse_uint_loop s n i =
    (let ds = takeWhile is_digit s; v = foldl (\<lambda>n c. n * 10 + (of_char c - 48)) (nat n) ds in
     if i + length ds = 0 \<or> int v > INT64_MAX then (-1, 0) else (int v, i + length ds))"
  using assms
proof (induction s n i rule: parse_uint_loop.induct)
  case (1 n i)
  then show ?case by simp
next
  case (2 c s n i)
  show ?case
  proof (cases "is_digit c")
    case False
    then show ?thesis using "2.prems" by simp
  next
    case True
    then have d: "48 \<le> (of_char c :: nat)" "(of_char c :: nat) \<le> 57"
      by (auto simp: is_digit_def less_eq_char_def)
    then have di: "48 \<le> (of_char c :: int)" "(of_char c :: int) \<le> 57"
      using int_of_char [of c] by simp_all
    define m where "m = n * 10 + ((of_char c :: int) - 48)"
    have nm: "nat m = nat n * 10 + (of_char c - 48)"
      using "2.prems" d di by (simp add: m_def nat_add_distrib nat_mult_distrib nat_diff_distrib)
    let ?v = "foldl (\<lambda>n c. n * 10 + (of_char c - 48)) (nat m) (takeWhile is_digit s)"
    have big: "int ?v > INT64_MAX" if "m > INT64_MAX"
      using that dec_value_foldl_mono [of "nat m" "takeWhile is_digit s"] by (simp add: INT64_MAX_def)
    have guards: "(n > INT64_MAX div 10 \<or> n * 10 > INT64_MAX - (of_char c - 48)) \<longleftrightarrow> m > INT64_MAX"
      using "2.prems" di by (auto simp: m_def INT64_MAX_def)
    show ?thesis
    proof (cases "m > INT64_MAX")
      case True
      with guards big \<open>is_digit c\<close> show ?thesis by (auto simp: nm)
    next
      case False
      with guards have g: "\<not> n > INT64_MAX div 10" "\<not> n * 10 > INT64_MAX - (of_char c - 48)" by auto
      from "2.IH" [OF True g] False "2.prems" di
      show ?thesis using True g by (simp add: nm [symmetric] m_def Let_def)
    qed
  qed
qed

lemma parse_uint_spec:
  "parse_uint s =
     (if s \<noteq> [] \<and> (\<forall>c \<in> set s. is_digit c) \<and> int (dec_value s) \<le> INT64_MAX
      then int (dec_value s) else -1)"
proof -
  have *: "length (takeWhile is_digit s) = length s \<longleftrightarrow> (\<forall>c \<in> set s. is_digit c)"
    by (metis length_takeWhile_le takeWhile_eq_all_conv takeWhile_eq_take take_all_iff order_refl)
  show ?thesis
  proof (cases "\<forall>c \<in> set s. is_digit c")
    case True
    then have all: "takeWhile is_digit s = s" by (simp add: takeWhile_eq_all_conv)
    from True show ?thesis
      by (simp add: all parse_uint_def parse_uint_digits_def parse_uint_loop_spec dec_value_def
          INT64_MAX_def Let_def)
  next
    case False
    with * have "length (takeWhile is_digit s) \<noteq> length s" by blast
    with False show ?thesis
      by (auto simp: parse_uint_def parse_uint_digits_def parse_uint_loop_spec INT64_MAX_def Let_def)
  qed
qed

lemma parse_uint_utos: "int n \<le> INT64_MAX \<Longrightarrow> parse_uint (utos n) = int n"
  by (auto simp: parse_uint_spec dec_value_utos dest: utos_digit)

lemma parse_uint_range: "-1 \<le> parse_uint s \<and> parse_uint s \<le> INT64_MAX"
  by (simp add: parse_uint_spec INT64_MAX_def)

section \<open>The path check in terms of segments\<close>

lemma find_sub_None: "find_sub pat s = None \<longleftrightarrow> (\<forall>a r. s \<noteq> a @ pat @ r)"
proof (induction pat s rule: find_sub.induct)
  case (1 pat) then show ?case by auto
next
  case (2 pat c s)
  have "take (length pat) (c # s) = pat \<longleftrightarrow> (\<exists>r. c # s = pat @ r)"
    by (metis append_eq_conv_conj append_take_drop_id)
  moreover have "(\<forall>a r. c # s \<noteq> a @ pat @ r) \<longleftrightarrow> (\<forall>r. c # s \<noteq> pat @ r) \<and> (\<forall>a r. s \<noteq> a @ pat @ r)"
    by (metis append_Cons append_Nil list.exhaust list.inject)
  ultimately show ?case using 2 by auto
qed

lemma last_segment_ends_with:
  assumes "CHR ''/'' \<notin> set x"
  shows "ends_with (CHR ''/'' # s) (CHR ''/'' # x) \<longleftrightarrow> last (segments s) = x"
proof (induction s rule: segments_induct)
  case (last a)
  then show ?case by (auto simp: ends_with_iff Cons_eq_append_conv)
next
  case (slash a r)
  with no_slash_suffix [OF assms, of "CHR ''/'' # a" r] show ?case by (simp add: ends_with_iff)
qed

lemma inner_segment_find:
  assumes "CHR ''/'' \<notin> set x"
  shows "find_sub (CHR ''/'' # x @ ''/'') (CHR ''/'' # s) = None \<longleftrightarrow> x \<notin> set (butlast (segments s))"
proof (induction s rule: segments_induct)
  case (last a)
  then show ?case unfolding find_sub_None by (auto simp: Cons_eq_append_conv)
next
  case (slash a r)
  have "(\<exists>p q. CHR ''/'' # a @ CHR ''/'' # r = p @ CHR ''/'' # (x @ ''/'') @ q) \<longleftrightarrow>
      a = x \<or> (\<exists>p q. a @ CHR ''/'' # r = p @ CHR ''/'' # (x @ ''/'') @ q)"
    using first_slash_unique [OF slash(1) assms]
    by (auto simp: Cons_eq_append_conv)
  with slash show ?case
    unfolding find_sub_None no_slash_infix [OF slash(1)] by auto
qed

lemma check_path_segments:
  "check_path path \<longleftrightarrow>
     (\<exists>s. path = CHR ''/'' # s \<and> CHR 0x5C \<notin> set s \<and> ''.'' \<notin> set (segments s) \<and> ''..'' \<notin> set (segments s))"
proof (cases path)
  case (Cons c s)
  have split: "x \<in> set (segments s) \<longleftrightarrow> x \<in> set (butlast (segments s)) \<or> last (segments s) = x" for x
    by (metis append_butlast_last_id in_set_butlastD last_in_set segments_nonempty
        rotate1.simps(2) set_ConsD set_rotate1)
  show ?thesis
    using inner_segment_find [of "''.''" s] inner_segment_find [of "''..''" s]
      last_segment_ends_with [of "''.''" s] last_segment_ends_with [of "''..''" s]
    by (auto simp: check_path_def Cons split)
qed (simp add: check_path_def)

section \<open>Properties\<close>

text \<open>
  C30: percent-encoding a path and decoding it gives the path back, for every string of
  bytes, and the encoded form has only unreserved characters, sub-delimiters, slashes and percent signs.
\<close>

theorem percent_encoding_roundtrip:
  "percent_decode (percent_encode_path s) = s \<and>
   set (percent_encode_path s) \<subseteq> {c. in_rfc3986_unreserved_chars c} \<union> {c. in_rfc3986_sub_delims c} \<union> set ''/%''"
  using percent_decode_encode [of s] percent_encode_safe [of _ s] by blast


text \<open>
  \<open>check_path\<close> accepts a path iff it starts with a slash, has no backslash and none of
  its segments is a dot or a double dot: no accepted path can leave the directory it is appended to.
\<close>

theorem check_path_no_traversal:
  "check_path path \<longleftrightarrow>
     (\<exists>s. path = CHR ''/'' # s \<and> CHR 0x5C \<notin> set s \<and> ''.'' \<notin> set (segments s) \<and> ''..'' \<notin> set (segments s))"
  by (rule check_path_segments)

end
