(* ===== verification/Url_Parser.thy ===== *)
theory Url_Parser
  imports Util
begin

text \<open>
  \<open>third-party/url-parser/url_parser.c\<close>, built with its default \<open>HTTP_PARSER_STRICT\<close>, and
  \<open>copy_url_component\<close> of \<open>lib/http2.cc\<close>: the byte-by-byte URL state machine, the host and
  port state machine, and the result structure with its 16-bit offsets and lengths.
\<close>

section \<open>Result structure\<close>

datatype http_parser_url_fields =
  UF_SCHEMA | UF_HOST | UF_PORT | UF_PATH | UF_QUERY | UF_FRAGMENT | UF_USERINFO

fun uf_num :: "http_parser_url_fields \<Rightarrow> nat" where
  "uf_num UF_SCHEMA = 0" | "uf_num UF_HOST = 1" | "uf_num UF_PORT = 2" | "uf_num UF_PATH = 3"
| "uf_num UF_QUERY = 4" | "uf_num UF_FRAGMENT = 5" | "uf_num UF_USERINFO = 6"

record field_data =
  fd_off :: u16
  fd_len :: u16

record http_parser_url =
  field_set :: u16
  port :: u16
  field_data :: "http_parser_url_fields \<Rightarrow> field_data"

definition http_parser_url_init :: http_parser_url where
  "http_parser_url_init = \<lparr>field_set = 0, port = 0, field_data = (\<lambda>_. \<lparr>fd_off = 0, fd_len = 0\<rparr>)\<rparr>"

definition has_field :: "http_parser_url \<Rightarrow> http_parser_url_fields \<Rightarrow> bool" where
  "has_field u f \<longleftrightarrow> field_set u AND push_bit (uf_num f) 1 \<noteq> 0"

definition set_field :: "http_parser_url_fields \<Rightarrow> http_parser_url \<Rightarrow> http_parser_url" where
  "set_field f u = u\<lparr>field_set := field_set u OR push_bit (uf_num f) 1\<rparr>"

definition set_off :: "http_parser_url_fields \<Rightarrow> nat \<Rightarrow> http_parser_url \<Rightarrow> http_parser_url" where
  "set_off f i u = u\<lparr>field_data := (field_data u)(f := (field_data u f)\<lparr>fd_off := word_of_nat i\<rparr>)\<rparr>"

definition set_len :: "http_parser_url_fields \<Rightarrow> u16 \<Rightarrow> http_parser_url \<Rightarrow> http_parser_url" where
  "set_len f n u = u\<lparr>field_data := (field_data u)(f := (field_data u f)\<lparr>fd_len := n\<rparr>)\<rparr>"

definition inc_len :: "http_parser_url_fields \<Rightarrow> http_parser_url \<Rightarrow> http_parser_url" where
  "inc_len f u = set_len f (fd_len (field_data u f) + 1) u"

text \<open>The bytes of \<open>buf\<close> a field denotes.\<close>

definition field_slice :: "http_parser_url \<Rightarrow> http_parser_url_fields \<Rightarrow> string \<Rightarrow> string" where
  "field_slice u f buf = take (unat (fd_len (field_data u f))) (drop (unat (fd_off (field_data u f))) buf)"

definition copy_url_component ::
    "string \<Rightarrow> http_parser_url \<Rightarrow> http_parser_url_fields \<Rightarrow> string \<Rightarrow> string" where
  "copy_url_component dest u f url = (if has_field u f then field_slice u f url else dest)"

section \<open>Character classes\<close>

definition normal_url_char :: "u8 list" where
  "normal_url_char =
     [0, 0, 0, 0,
      0 OR 2 OR 4 OR 0 OR 16 OR 32 OR 64 OR 128,
      1 OR 2 OR 4 OR 8 OR 16 OR 32 OR 64 OR 128,
      1 OR 2 OR 4 OR 8 OR 16 OR 32 OR 64 OR 128,
      1 OR 2 OR 4 OR 8 OR 16 OR 32 OR 64 OR 0,
      1 OR 2 OR 4 OR 8 OR 16 OR 32 OR 64 OR 128,
      1 OR 2 OR 4 OR 8 OR 16 OR 32 OR 64 OR 128,
      1 OR 2 OR 4 OR 8 OR 16 OR 32 OR 64 OR 128,
      1 OR 2 OR 4 OR 8 OR 16 OR 32 OR 64 OR 128,
      1 OR 2 OR 4 OR 8 OR 16 OR 32 OR 64 OR 128,
      1 OR 2 OR 4 OR 8 OR 16 OR 32 OR 64 OR 128,
      1 OR 2 OR 4 OR 8 OR 16 OR 32 OR 64 OR 128,
      1 OR 2 OR 4 OR 8 OR 16 OR 32 OR 64 OR 0,
      0, 0, 0, 0, 0, 0, 0, 0, 0, 0, 0, 0, 0, 0, 0, 0]"

definition BIT_AT :: "u8 list \<Rightarrow> nat \<Rightarrow> bool" where
  "BIT_AT a i \<longleftrightarrow> (a ! drop_bit 3 i) AND push_bit (i AND 7) 1 \<noteq> 0"

definition LOWER :: "char \<Rightarrow> nat" where
  "LOWER c = of_char c OR 32"

definition IS_ALPHA :: "char \<Rightarrow> bool" where
  "IS_ALPHA c \<longleftrightarrow> of_char CHR ''a'' \<le> LOWER c \<and> LOWER c \<le> of_char CHR ''z''"

definition IS_NUM :: "char \<Rightarrow> bool" where
  "IS_NUM c \<longleftrightarrow> CHR ''0'' \<le> c \<and> c \<le> CHR ''9''"

definition IS_ALPHANUM :: "char \<Rightarrow> bool" where
  "IS_ALPHANUM c \<longleftrightarrow> IS_ALPHA c \<or> IS_NUM c"

definition IS_HEX :: "char \<Rightarrow> bool" where
  "IS_HEX c \<longleftrightarrow> IS_NUM c \<or> (of_char CHR ''a'' \<le> LOWER c \<and> LOWER c \<le> of_char CHR ''f'')"

definition IS_MARK :: "char \<Rightarrow> bool" where
  "IS_MARK c \<longleftrightarrow> c = CHR ''-'' \<or> c = CHR ''_'' \<or> c = CHR ''.'' \<or> c = CHR ''!'' \<or> c = CHR ''~'' \<or>
     c = CHR ''*'' \<or> c = CHR 0x27 \<or> c = CHR ''('' \<or> c = CHR '')''"

definition IS_USERINFO_CHAR :: "char \<Rightarrow> bool" where
  "IS_USERINFO_CHAR c \<longleftrightarrow> IS_ALPHANUM c \<or> IS_MARK c \<or> c = CHR 0x25 \<or> c = CHR '';'' \<or> c = CHR '':'' \<or>
     c = CHR ''&'' \<or> c = CHR ''='' \<or> c = CHR ''+'' \<or> c = CHR ''$'' \<or> c = CHR '',''"

definition IS_URL_CHAR :: "char \<Rightarrow> bool" where
  "IS_URL_CHAR c \<longleftrightarrow> BIT_AT normal_url_char (of_char c)"

definition IS_HOST_CHAR :: "char \<Rightarrow> bool" where
  "IS_HOST_CHAR c \<longleftrightarrow> IS_ALPHANUM c \<or> c = CHR ''.'' \<or> c = CHR ''-''"

section \<open>The URL state machine\<close>

text \<open>
  The states of \<open>enum state\<close> that the URL machine uses; the other enumerators belong to
  the HTTP message parser this file was cut from and no code assigns them.
\<close>

datatype state =
  s_dead | s_req_spaces_before_url | s_req_schema | s_req_schema_slash
| s_req_schema_slash_slash | s_req_server_start | s_req_server | s_req_server_with_at
| s_req_path | s_req_query_string_start | s_req_query_string | s_req_fragment_start
| s_req_fragment

text \<open>The common part of the three server states, reached by fall through.\<close>

definition parse_server_char :: "char \<Rightarrow> state" where
  "parse_server_char ch =
     (if ch = CHR ''/'' then s_req_path
      else if ch = CHR ''?'' then s_req_query_string_start
      else if ch = CHR ''@'' then s_req_server_with_at
      else if IS_USERINFO_CHAR ch \<or> ch = CHR ''['' \<or> ch = CHR '']'' then s_req_server
      else s_dead)"

definition parse_query_char :: "char \<Rightarrow> state" where
  "parse_query_char ch =
     (if IS_URL_CHAR ch then s_req_query_string
      else if ch = CHR ''?'' then s_req_query_string
      else if ch = CHR ''#'' then s_req_fragment_start
      else s_dead)"

definition parse_url_char :: "state \<Rightarrow> char \<Rightarrow> state" where
  "parse_url_char s ch =
     (if ch = CHR '' '' \<or> ch = CHR 0x0D \<or> ch = CHR 0x0A then s_dead
      else if ch = CHR 0x09 \<or> ch = CHR 0x0C then s_dead
      else case s of
        s_req_spaces_before_url \<Rightarrow>
          (if ch = CHR ''/'' \<or> ch = CHR ''*'' then s_req_path
           else if IS_ALPHA ch then s_req_schema else s_dead)
      | s_req_schema \<Rightarrow>
          (if IS_ALPHA ch then s else if ch = CHR '':'' then s_req_schema_slash else s_dead)
      | s_req_schema_slash \<Rightarrow> (if ch = CHR ''/'' then s_req_schema_slash_slash else s_dead)
      | s_req_schema_slash_slash \<Rightarrow> (if ch = CHR ''/'' then s_req_server_start else s_dead)
      | s_req_server_with_at \<Rightarrow> (if ch = CHR ''@'' then s_dead else parse_server_char ch)
      | s_req_server_start \<Rightarrow> parse_server_char ch
      | s_req_server \<Rightarrow> parse_server_char ch
      | s_req_path \<Rightarrow>
          (if IS_URL_CHAR ch then s
           else if ch = CHR ''?'' then s_req_query_string_start
           else if ch = CHR ''#'' then s_req_fragment_start else s_dead)
      | s_req_query_string_start \<Rightarrow> parse_query_char ch
      | s_req_query_string \<Rightarrow> parse_query_char ch
      | s_req_fragment_start \<Rightarrow>
          (if IS_URL_CHAR ch then s_req_fragment
           else if ch = CHR ''?'' then s_req_fragment
           else if ch = CHR ''#'' then s else s_dead)
      | s_req_fragment \<Rightarrow>
          (if IS_URL_CHAR ch then s else if ch = CHR ''?'' \<or> ch = CHR ''#'' then s else s_dead)
      | s_dead \<Rightarrow> s_dead)"

section \<open>The host state machine\<close>

datatype http_host_state =
  s_http_host_dead | s_http_userinfo_start | s_http_userinfo | s_http_host_start
| s_http_host_v6_start | s_http_host | s_http_host_v6 | s_http_host_v6_end
| s_http_host_v6_zone_start | s_http_host_v6_zone | s_http_host_port_start | s_http_host_port

definition parse_v6_char :: "http_host_state \<Rightarrow> char \<Rightarrow> http_host_state" where
  "parse_v6_char s ch =
     (if IS_HEX ch \<or> ch = CHR '':'' \<or> ch = CHR ''.'' then s_http_host_v6
      else if s = s_http_host_v6 \<and> ch = CHR 0x25 then s_http_host_v6_zone_start
      else s_http_host_dead)"

definition parse_zone_char :: "char \<Rightarrow> http_host_state" where
  "parse_zone_char ch =
     (if IS_ALPHANUM ch \<or> ch = CHR 0x25 \<or> ch = CHR ''.'' \<or> ch = CHR ''-'' \<or> ch = CHR ''_'' \<or>
         ch = CHR ''~''
      then s_http_host_v6_zone else s_http_host_dead)"

definition http_parse_host_char :: "http_host_state \<Rightarrow> char \<Rightarrow> http_host_state" where
  "http_parse_host_char s ch =
     (let userinfo = (if ch = CHR ''@'' then s_http_host_start
                      else if IS_USERINFO_CHAR ch then s_http_userinfo else s_http_host_dead);
          colon = (if ch = CHR '':'' then s_http_host_port_start else s_http_host_dead);
          num = (if IS_NUM ch then s_http_host_port else s_http_host_dead)
      in case s of
        s_http_userinfo \<Rightarrow> userinfo
      | s_http_userinfo_start \<Rightarrow> userinfo
      | s_http_host_start \<Rightarrow>
          (if ch = CHR ''['' then s_http_host_v6_start
           else if IS_HOST_CHAR ch then s_http_host else s_http_host_dead)
      | s_http_host \<Rightarrow> (if IS_HOST_CHAR ch then s_http_host else colon)
      | s_http_host_v6_end \<Rightarrow> colon
      | s_http_host_v6 \<Rightarrow> (if ch = CHR '']'' then s_http_host_v6_end else parse_v6_char s ch)
      | s_http_host_v6_start \<Rightarrow> parse_v6_char s ch
      | s_http_host_v6_zone \<Rightarrow> (if ch = CHR '']'' then s_http_host_v6_end else parse_zone_char ch)
      | s_http_host_v6_zone_start \<Rightarrow> parse_zone_char ch
      | s_http_host_port \<Rightarrow> num
      | s_http_host_port_start \<Rightarrow> num
      | s_http_host_dead \<Rightarrow> s_http_host_dead)"

text \<open>The second \<open>switch\<close> of the loop of \<open>http_parse_host\<close>: what one byte does to the result.\<close>

definition open_field :: "http_parser_url_fields \<Rightarrow> nat \<Rightarrow> http_parser_url \<Rightarrow> http_parser_url" where
  "open_field f i u = set_field f (set_len f 0 (set_off f i u))"

definition host_update ::
    "http_host_state \<Rightarrow> http_host_state \<Rightarrow> nat \<Rightarrow> http_parser_url \<Rightarrow> http_parser_url" where
  "host_update s new_s i u =
     (case new_s of
        s_http_host \<Rightarrow> inc_len UF_HOST (if s \<noteq> s_http_host then set_off UF_HOST i u else u)
      | s_http_host_v6 \<Rightarrow> inc_len UF_HOST (if s \<noteq> s_http_host_v6 then set_off UF_HOST i u else u)
      | s_http_host_v6_zone_start \<Rightarrow> inc_len UF_HOST u
      | s_http_host_v6_zone \<Rightarrow> inc_len UF_HOST u
      | s_http_host_port \<Rightarrow> inc_len UF_PORT (if s \<noteq> s_http_host_port then open_field UF_PORT i u else u)
      | s_http_userinfo \<Rightarrow>
          inc_len UF_USERINFO (if s \<noteq> s_http_userinfo then open_field UF_USERINFO i u else u)
      | _ \<Rightarrow> u)"

fun host_loop ::
    "string \<Rightarrow> nat \<Rightarrow> http_host_state \<Rightarrow> http_parser_url \<Rightarrow> (http_host_state \<times> http_parser_url) option" where
  "host_loop [] i s u = Some (s, u)"
| "host_loop (c # cs) i s u =
     (let new_s = http_parse_host_char s c in
      if new_s = s_http_host_dead then None
      else host_loop cs (Suc i) new_s (host_update s new_s i u))"

definition host_end_ok :: "http_host_state \<Rightarrow> bool" where
  "host_end_ok s \<longleftrightarrow> s \<notin> {s_http_host_start, s_http_host_v6_start, s_http_host_v6,
     s_http_host_v6_zone_start, s_http_host_v6_zone, s_http_host_port_start, s_http_userinfo,
     s_http_userinfo_start}"

definition http_parse_host :: "string \<Rightarrow> http_parser_url \<Rightarrow> bool \<Rightarrow> http_parser_url option" where
  "http_parse_host buf u found_at =
     (case host_loop (field_slice u UF_HOST buf) (unat (fd_off (field_data u UF_HOST)))
             (if found_at then s_http_userinfo_start else s_http_host_start) (set_len UF_HOST 0 u) of
        None \<Rightarrow> None
      | Some (s, u') \<Rightarrow> if host_end_ok s then Some u' else None)"

section \<open>The parser\<close>

text \<open>The first \<open>switch\<close> of the loop: leave, skip a delimiter, or extend a field.\<close>

datatype url_act = Fail | Skip | Extend http_parser_url_fields

fun url_action :: "state \<Rightarrow> url_act" where
  "url_action s_dead = Fail"
| "url_action s_req_schema_slash = Skip"
| "url_action s_req_schema_slash_slash = Skip"
| "url_action s_req_server_start = Skip"
| "url_action s_req_query_string_start = Skip"
| "url_action s_req_fragment_start = Skip"
| "url_action s_req_schema = Extend UF_SCHEMA"
| "url_action s_req_server_with_at = Extend UF_HOST"
| "url_action s_req_server = Extend UF_HOST"
| "url_action s_req_path = Extend UF_PATH"
| "url_action s_req_query_string = Extend UF_QUERY"
| "url_action s_req_fragment = Extend UF_FRAGMENT"
| "url_action s_req_spaces_before_url = Fail"

fun url_loop ::
    "string \<Rightarrow> nat \<Rightarrow> state \<Rightarrow> http_parser_url_fields option \<Rightarrow> bool \<Rightarrow> http_parser_url
     \<Rightarrow> (bool \<times> http_parser_url) option" where
  "url_loop [] i s old_uf found_at u = Some (found_at, u)"
| "url_loop (c # cs) i s old_uf found_at u =
     (let s' = parse_url_char s c in
      case url_action s' of
        Fail \<Rightarrow> None
      | Skip \<Rightarrow> url_loop cs (Suc i) s' old_uf found_at u
      | Extend uf \<Rightarrow>
          url_loop cs (Suc i) s' (Some uf) (found_at \<or> s' = s_req_server_with_at)
            (if old_uf = Some uf then inc_len uf u
             else set_field uf (set_len uf 1 (set_off uf i u))))"

text \<open>The port loop; \<open>unsigned long\<close> cannot overflow because it stops above 0xffff.\<close>

fun port_loop :: "string \<Rightarrow> nat \<Rightarrow> nat option" where
  "port_loop [] v = Some v"
| "port_loop (c # cs) v =
     (let v' = v * 10 + (of_char c - 48) in if v' > 0xffff then None else port_loop cs v')"

definition parse_port :: "string \<Rightarrow> http_parser_url \<Rightarrow> http_parser_url option" where
  "parse_port buf u =
     (if has_field u UF_PORT then
        (case port_loop (field_slice u UF_PORT buf) 0 of
           None \<Rightarrow> None
         | Some v \<Rightarrow> Some (u\<lparr>port := word_of_nat v\<rparr>))
      else Some u)"

definition http_parser_parse_url ::
    "string \<Rightarrow> bool \<Rightarrow> http_parser_url \<Rightarrow> http_parser_url option" where
  "http_parser_parse_url buf is_connect u =
     (if length buf = 0 then None
      else case url_loop buf 0 (if is_connect then s_req_server_start else s_req_spaces_before_url)
             None False (u\<lparr>port := 0, field_set := 0\<rparr>) of
        None \<Rightarrow> None
      | Some (found_at, u1) \<Rightarrow>
          if has_field u1 UF_SCHEMA \<and> \<not> has_field u1 UF_HOST then None
          else (case (if has_field u1 UF_HOST then http_parse_host buf u1 found_at else Some u1) of
                  None \<Rightarrow> None
                | Some u2 \<Rightarrow>
                    if is_connect \<and> field_set u2 \<noteq> (push_bit (uf_num UF_HOST) 1 OR push_bit (uf_num UF_PORT) 1)
                    then None
                    else parse_port buf u2))"

section \<open>Reading the result structure\<close>

definition off_of :: "http_parser_url \<Rightarrow> http_parser_url_fields \<Rightarrow> nat" where
  "off_of u f = unat (fd_off (field_data u f))"

definition len_of :: "http_parser_url \<Rightarrow> http_parser_url_fields \<Rightarrow> nat" where
  "len_of u f = unat (fd_len (field_data u f))"

lemma field_slice_alt: "field_slice u f buf = take (len_of u f) (drop (off_of u f) buf)"
  by (simp add: field_slice_def off_of_def len_of_def)

lemma uf_num_inject [simp]: "uf_num f = uf_num g \<longleftrightarrow> f = g"
  by (cases f; cases g) simp_all

lemma uf_num_less [simp]: "uf_num f < 16"
  by (cases f) simp_all

lemma has_field_bit: "has_field u f \<longleftrightarrow> bit (field_set u) (uf_num f)"
  by (simp add: has_field_def bit_iff_and_push_bit_not_eq_0)

lemma has_field_set_field [simp]: "has_field (set_field f u) g \<longleftrightarrow> f = g \<or> has_field u g"
  by (auto simp: has_field_bit set_field_def bit_simps)

lemma has_field_frame [simp]:
  "has_field (set_off f i u) g = has_field u g"
  "has_field (set_len f n u) g = has_field u g"
  "has_field (inc_len f u) g = has_field u g"
  "has_field (u\<lparr>port := p\<rparr>) g = has_field u g"
  by (simp_all add: has_field_def set_off_def set_len_def inc_len_def)

lemma off_of_simps [simp]:
  "off_of (set_field f u) g = off_of u g"
  "off_of (set_len f n u) g = off_of u g"
  "off_of (inc_len f u) g = off_of u g"
  "off_of (u\<lparr>port := p\<rparr>) g = off_of u g"
  "i < 65536 \<Longrightarrow> off_of (set_off f i u) g = (if f = g then i else off_of u g)"
  by (simp_all add: off_of_def set_field_def set_len_def inc_len_def set_off_def unat_of_nat)

lemma len_of_simps [simp]:
  "len_of (set_field f u) g = len_of u g"
  "len_of (set_off f i u) g = len_of u g"
  "len_of (set_len f n u) g = (if f = g then unat n else len_of u g)"
  "len_of (u\<lparr>port := p\<rparr>) g = len_of u g"
  by (simp_all add: len_of_def set_field_def set_len_def set_off_def)

lemma len_of_inc_len [simp]:
  "len_of u f < 65535 \<Longrightarrow> len_of (inc_len f u) g = (if f = g then Suc (len_of u f) else len_of u g)"
  by (auto simp: len_of_def inc_len_def set_len_def unat_word_ariths)

lemma len_of_inc_other [simp]: "f \<noteq> g \<Longrightarrow> len_of (inc_len f u) g = len_of u g"
  by (simp add: len_of_def inc_len_def set_len_def)

section \<open>Fields stay inside the buffer\<close>

definition fields_within :: "nat \<Rightarrow> http_parser_url \<Rightarrow> bool" where
  "fields_within n u \<longleftrightarrow> (\<forall>f. has_field u f \<longrightarrow> off_of u f + len_of u f \<le> n)"

lemma url_loop_within:
  assumes "url_loop cs i s old fa u = Some (fa', u')"
    and "fields_within i u" "\<forall>f. old = Some f \<longrightarrow> has_field u f" "i + length cs < 65536"
  shows "fields_within (i + length cs) u'"
  using assms
proof (induction cs i s old fa u rule: url_loop.induct)
  case (2 c cs i s old fa u)
  have le: "off_of u f + len_of u f \<le> i" if "has_field u f" for f
    using 2 that by (simp add: fields_within_def)
  show ?case
  proof (cases "url_action (parse_url_char s c)")
    case Skip
    have "fields_within (Suc i) u" using le by (fastforce simp: fields_within_def)
    with 2 Skip show ?thesis by simp
  next
    case (Extend uf)
    let ?u = "if old = Some uf then inc_len uf u else set_field uf (set_len uf 1 (set_off uf i u))"
    have "fields_within (Suc i) ?u"
    proof (cases "old = Some uf")
      case True
      with 2 have "has_field u uf" by simp
      from le [OF this] 2(6) have "len_of u uf < 65535" by simp
      with True show ?thesis
        using le by (auto simp: fields_within_def dest!: le intro: le_SucI)
    next
      case False
      with 2(6) show ?thesis by (auto simp: fields_within_def dest!: le)
    qed
    moreover have "\<forall>f. Some uf = Some f \<longrightarrow> has_field ?u f" using 2 by auto
    ultimately have "fields_within (Suc i + length cs) u'"
      using 2 Extend by (intro "2.IH"(2) [OF refl Extend]) (auto simp: Let_def)
    then show ?thesis by simp
  qed (use 2 in simp)
qed simp

text \<open>Before the host proper is reached its length is still zero.\<close>

definition host_inv :: "nat \<Rightarrow> nat \<Rightarrow> http_host_state \<Rightarrow> http_parser_url \<Rightarrow> bool" where
  "host_inv n i s u \<longleftrightarrow>
     i \<le> n \<and> off_of u UF_HOST + len_of u UF_HOST \<le> i \<and> fields_within n u \<and>
     (s \<in> {s_http_userinfo_start, s_http_userinfo, s_http_host_start, s_http_host_v6_start} \<longleftrightarrow>
        len_of u UF_HOST = 0) \<and>
     (s = s_http_host_port \<longrightarrow> has_field u UF_PORT \<and> off_of u UF_PORT + len_of u UF_PORT = i) \<and>
     (s = s_http_userinfo \<longrightarrow> has_field u UF_USERINFO \<and> off_of u UF_USERINFO + len_of u UF_USERINFO = i)"

lemma host_state_from:
  assumes "http_parse_host_char s c = s'"
  shows "s' = s_http_host \<Longrightarrow> s \<in> {s_http_host, s_http_host_start}"
    and "s' = s_http_host_v6 \<Longrightarrow> s \<in> {s_http_host_v6, s_http_host_v6_start}"
    and "s' \<in> {s_http_userinfo, s_http_host_start} \<Longrightarrow> s \<in> {s_http_userinfo, s_http_userinfo_start}"
    and "s' = s_http_host_v6_start \<Longrightarrow> s = s_http_host_start"
    and "s' \<noteq> s_http_userinfo_start"
    and "s' \<in> {s_http_host_v6_end, s_http_host_v6_zone_start, s_http_host_v6_zone, s_http_host_port_start, s_http_host_port} \<Longrightarrow>
      s \<notin> {s_http_userinfo_start, s_http_userinfo, s_http_host_start, s_http_host_v6_start}"
    and "s' = s_http_host_port \<Longrightarrow> IS_NUM c"
  using assms
  by (cases s; auto simp: http_parse_host_char_def parse_v6_char_def parse_zone_char_def Let_def split: if_splits)+

lemma host_update_inv:
  assumes "host_inv n i s u" "i < n" "n < 65536" "http_parse_host_char s c = s'" "s' \<noteq> s_http_host_dead"
  shows "host_inv n (Suc i) s' (host_update s s' i u)"
proof -
  have bounds: "off_of u UF_HOST + len_of u UF_HOST \<le> i"
    "has_field u f \<Longrightarrow> off_of u f + len_of u f \<le> n" for f
    using assms(1) by (simp_all add: host_inv_def fields_within_def)
  have len: "len_of u UF_HOST < 65535" using bounds(1) assms(2,3) by linarith
  have port: "s = s_http_host_port \<Longrightarrow> len_of u UF_PORT < 65535 \<and> has_field u UF_PORT \<and> off_of u UF_PORT + len_of u UF_PORT = i"
    and user: "s = s_http_userinfo \<Longrightarrow> len_of u UF_USERINFO < 65535 \<and> has_field u UF_USERINFO \<and> off_of u UF_USERINFO + len_of u UF_USERINFO = i"
    and zero: "s \<in> {s_http_userinfo_start, s_http_userinfo, s_http_host_start, s_http_host_v6_start} \<longleftrightarrow> len_of u UF_HOST = 0"
    using assms(1-3) by (auto simp: host_inv_def)
  have host: "host_inv n (Suc i) s' (inc_len UF_HOST u')"
    if "s' \<in> {s_http_host, s_http_host_v6, s_http_host_v6_zone_start, s_http_host_v6_zone}"
      "u' = u \<or> u' = set_off UF_HOST i u \<and> len_of u UF_HOST = 0" for u'
    using that bounds len assms(2,3)
    by (auto simp: host_inv_def fields_within_def le_SucI)
  show ?thesis
    using assms(2-5) host_state_from [OF assms(4)] bounds len port user zero host [of u] host [of "set_off UF_HOST i u"]
    by (cases s') (auto simp: host_update_def host_inv_def open_field_def fields_within_def)
qed

lemma host_loop_inv:
  assumes "host_loop cs i s u = Some (s', u')" "host_inv n i s u" "i + length cs \<le> n" "n < 65536" "s \<noteq> s_http_host_dead"
  shows "host_inv n (i + length cs) s' u' \<and> s' \<noteq> s_http_host_dead"
  using assms
proof (induction cs i s u rule: host_loop.induct)
  case (2 c cs i s u)
  then have "host_inv n (Suc i) (http_parse_host_char s c) (host_update s (http_parse_host_char s c) i u)"
    by (intro host_update_inv) (auto simp: Let_def split: if_splits)
  with 2 show ?case by (auto simp: Let_def split: if_splits)
qed simp

definition port_digits :: "string \<Rightarrow> http_parser_url \<Rightarrow> bool" where
  "port_digits buf u \<longleftrightarrow>
     (has_field u UF_PORT \<longrightarrow> (\<forall>j. off_of u UF_PORT \<le> j \<and> j < off_of u UF_PORT + len_of u UF_PORT \<longrightarrow> IS_NUM (buf ! j)))"

lemma host_update_port_digits:
  assumes "port_digits buf u" "host_inv n i s u" "i < n" "n < 65536"
    and "http_parse_host_char s (buf ! i) = s'"
  shows "port_digits buf (host_update s s' i u)"
proof (cases "s' = s_http_host_port")
  case True
  then have num: "IS_NUM (buf ! i)" using host_state_from(7) [OF assms(5)] by simp
  show ?thesis
  proof (cases "s = s_http_host_port")
    case old: True
    then have *: "has_field u UF_PORT" "off_of u UF_PORT + len_of u UF_PORT = i"
      using assms(2) by (simp_all add: host_inv_def)
    then have "len_of u UF_PORT < 65535" using assms(3,4) by linarith
    with * old True num assms(1) show ?thesis
      by (auto simp: host_update_def port_digits_def less_Suc_eq)
  next
    case False
    with True num assms(3,4) show ?thesis
      by (auto simp: host_update_def port_digits_def open_field_def le_less_Suc_eq)
  qed
next
  case False
  then show ?thesis using assms(1,3,4)
    by (cases s') (auto simp: host_update_def port_digits_def open_field_def)
qed

lemma host_loop_port_digits:
  assumes "host_loop cs i s u = Some (s', u')" "host_inv n i s u" "port_digits buf u"
    and "i + length cs \<le> n" "n < 65536" "cs = take (length cs) (drop i buf)"
  shows "port_digits buf u'"
  using assms
proof (induction cs i s u rule: host_loop.induct)
  case (2 c cs i s u)
  then have i: "i < length buf" by (cases "i < length buf") auto
  have split: "take (length (c # cs)) (drop i buf) = buf ! i # take (length cs) (drop (Suc i) buf)"
    using i by (simp add: Cons_nth_drop_Suc [symmetric])
  from trans [OF 2(7) split] have c: "c = buf ! i" "cs = take (length cs) (drop (Suc i) buf)" by simp_all
  let ?s = "http_parse_host_char s c"
  have ok: "?s \<noteq> s_http_host_dead" "host_loop cs (Suc i) ?s (host_update s ?s i u) = Some (s', u')"
    using 2(2) by (auto simp: Let_def split: if_splits)
  show ?case
  proof (rule "2.IH" [OF refl ok])
    show "host_inv n (Suc i) ?s (host_update s ?s i u)"
      using 2 ok by (intro host_update_inv) auto
    show "port_digits buf (host_update s ?s i u)"
      using 2 c by (intro host_update_port_digits) auto
  qed (use 2 c in auto)
qed simp

lemma http_parse_host_within:
  assumes "http_parse_host buf u fa = Some u'" "fields_within (length buf) u" "has_field u UF_HOST"
    "\<not> has_field u UF_PORT" "length buf < 65536"
  shows "fields_within (length buf) u' \<and> port_digits buf u' \<and> 0 < len_of u' UF_HOST"
proof -
  let ?s = "if fa then s_http_userinfo_start else s_http_host_start"
  let ?n = "length buf" and ?i = "off_of u UF_HOST"
  have le: "?i + len_of u UF_HOST \<le> ?n" using assms(2,3) by (simp add: fields_within_def)
  then have len: "length (field_slice u UF_HOST buf) = len_of u UF_HOST" by (simp add: field_slice_alt)
  obtain s where s: "host_loop (field_slice u UF_HOST buf) ?i ?s (set_len UF_HOST 0 u) = Some (s, u')" "host_end_ok s"
    using assms(1) by (auto simp: http_parse_host_def off_of_def split: option.splits if_splits)
  have inv0: "host_inv ?n ?i ?s (set_len UF_HOST 0 u)"
    using assms(2) le by (auto simp: host_inv_def fields_within_def)
  have "host_inv ?n (?i + length (field_slice u UF_HOST buf)) s u' \<and> s \<noteq> s_http_host_dead"
    using le len assms(5) by (intro host_loop_inv [OF s(1) inv0]) auto
  moreover have "port_digits buf u'"
    using le len assms(4,5) by (intro host_loop_port_digits [OF s(1) inv0]) (auto simp: port_digits_def field_slice_alt)
  ultimately show ?thesis using s(2) by (auto simp: host_inv_def host_end_ok_def)
qed

lemma port_loop_value:
  "port_loop cs v = Some w \<longleftrightarrow>
     foldl (\<lambda>n c. n * 10 + (of_char c - 48)) v cs = w \<and> (cs \<noteq> [] \<longrightarrow> w \<le> 0xffff)"
proof (induction cs v rule: port_loop.induct)
  case (2 c cs v)
  let ?v = "v * 10 + (of_char c - 48)"
  show ?case
  proof (cases "?v > 0xffff")
    case True
    with dec_value_foldl_mono [of ?v cs] show ?thesis by auto
  next
    case False
    with 2 show ?thesis by (auto simp: Let_def)
  qed
qed auto

lemma url_loop_port: "url_loop cs i s old fa u = Some (fa', u') \<Longrightarrow> has_field u' UF_PORT = has_field u UF_PORT"
proof (induction cs i s old fa u rule: url_loop.induct)
  case (2 c cs i s old fa u)
  have "url_action (parse_url_char s c) \<noteq> Extend UF_PORT" by (cases "parse_url_char s c") simp_all
  with 2 show ?case by (auto simp: Let_def split: url_act.splits if_splits)
qed simp

lemma parse_url_fields:
  assumes "http_parser_parse_url buf is_connect u0 = Some u" "length buf < 65536"
  shows "fields_within (length buf) u"
    and "has_field u UF_HOST \<longrightarrow> 0 < len_of u UF_HOST"
    and "has_field u UF_PORT \<longrightarrow> (\<forall>c \<in> set (field_slice u UF_PORT buf). IS_NUM c) \<and>
           unat (port u) = dec_value (field_slice u UF_PORT buf)"
proof -
  let ?u0 = "u0\<lparr>port := 0, field_set := 0\<rparr>"
  obtain fa u1 u2 where l: "url_loop buf 0 (if is_connect then s_req_server_start else s_req_spaces_before_url)
        None False ?u0 = Some (fa, u1)"
    and h: "(if has_field u1 UF_HOST then http_parse_host buf u1 fa else Some u1) = Some u2"
    and p: "parse_port buf u2 = Some u"
    using assms(1) by (auto simp: http_parser_parse_url_def split: if_splits option.splits)
  have none: "\<not> has_field ?u0 f" for f by (simp add: has_field_def)
  have "fields_within (length buf) u1"
    using url_loop_within [OF l] assms(2) none by (simp add: fields_within_def)
  moreover have noport: "\<not> has_field u1 UF_PORT" using url_loop_port [OF l] none by simp
  ultimately have u2: "fields_within (length buf) u2 \<and> port_digits buf u2 \<and>
      (has_field u2 UF_HOST \<longrightarrow> 0 < len_of u2 UF_HOST)"
    using h http_parse_host_within [of buf u1 fa u2] assms(2)
    by (cases "has_field u1 UF_HOST") (auto simp: port_digits_def)
  have same: "has_field u f = has_field u2 f" "off_of u f = off_of u2 f" "len_of u f = len_of u2 f"
    "field_slice u f buf = field_slice u2 f buf" for f
    using p by (auto simp: parse_port_def field_slice_alt split: if_splits option.splits)
  show "fields_within (length buf) u" "has_field u UF_HOST \<longrightarrow> 0 < len_of u UF_HOST"
    using u2 by (simp_all add: fields_within_def same)
  show "has_field u UF_PORT \<longrightarrow> (\<forall>c \<in> set (field_slice u UF_PORT buf). IS_NUM c) \<and>
           unat (port u) = dec_value (field_slice u UF_PORT buf)"
  proof
    assume "has_field u UF_PORT"
    then have f: "has_field u2 UF_PORT" by (simp add: same)
    with p obtain v where v: "port_loop (field_slice u2 UF_PORT buf) 0 = Some v" "u = u2\<lparr>port := word_of_nat v\<rparr>"
      by (auto simp: parse_port_def split: option.splits)
    then have "v \<le> 0xffff" "v = dec_value (field_slice u2 UF_PORT buf)"
      by (auto simp: port_loop_value dec_value_def)
    then have "unat (port u) = dec_value (field_slice u UF_PORT buf)" using v(2) by (simp add: field_slice_alt unat_of_nat)
    moreover have "\<forall>c \<in> set (field_slice u UF_PORT buf). IS_NUM c"
      using u2 f unfolding same
      by (auto simp: field_slice_alt port_digits_def fields_within_def in_set_conv_nth)
    ultimately show "(\<forall>c \<in> set (field_slice u UF_PORT buf). IS_NUM c) \<and>
           unat (port u) = dec_value (field_slice u UF_PORT buf)" by simp
  qed
qed

section \<open>Composing a URL and parsing it back\<close>

text \<open>
  \<open>url_of\<close> writes an absolute URL from its parts. The lemmas run the two state machines over
  it block by block: \<open>field_at\<close> is the result structure after a whole block was read.
\<close>

definition url_of :: "string \<Rightarrow> string \<Rightarrow> string option \<Rightarrow> string \<Rightarrow> string option \<Rightarrow> string" where
  "url_of scheme host prt path query =
     scheme @ ''://'' @ host @ (case prt of None \<Rightarrow> [] | Some ds \<Rightarrow> CHR '':'' # ds) @ path @
     (case query of None \<Rightarrow> [] | Some q \<Rightarrow> CHR ''?'' # q)"

definition field_at :: "http_parser_url_fields \<Rightarrow> nat \<Rightarrow> nat \<Rightarrow> http_parser_url \<Rightarrow> http_parser_url" where
  "field_at f i n u = set_field f (set_len f (word_of_nat n) (set_off f i u))"

lemma field_at_obs [simp]:
  "has_field (field_at f i n u) g \<longleftrightarrow> f = g \<or> has_field u g"
  "i < 65536 \<Longrightarrow> off_of (field_at f i n u) g = (if f = g then i else off_of u g)"
  "n < 65536 \<Longrightarrow> len_of (field_at f i n u) g = (if f = g then n else len_of u g)"
  by (simp_all add: field_at_def unat_of_nat)

lemma field_at_other [simp]:
  "f \<noteq> g \<Longrightarrow> off_of (field_at f i n u) g = off_of u g"
  "f \<noteq> g \<Longrightarrow> len_of (field_at f i n u) g = len_of u g"
  by (simp_all add: field_at_def off_of_def len_of_def set_field_def set_len_def set_off_def)

lemma inc_len_field_at: "inc_len f (field_at f i n u) = field_at f i (Suc n) u"
  by (simp add: inc_len_def field_at_def set_len_def set_off_def set_field_def add.commute)

lemma url_run:
  assumes "\<forall>c \<in> set w. parse_url_char s c = s" "url_action s = Extend f" "s \<noteq> s_req_server_with_at"
  shows "url_loop (w @ r) i s (Some f) fa (field_at f j n u) =
    url_loop r (i + length w) s (Some f) fa (field_at f j (n + length w) u)"
  using assms by (induction w arbitrary: i n) (simp_all add: inc_len_field_at)

lemma url_block:
  assumes "w \<noteq> []" "parse_url_char s0 (hd w) = s" "\<forall>c \<in> set (tl w). parse_url_char s c = s"
    "url_action s = Extend f" "s \<noteq> s_req_server_with_at" "old \<noteq> Some f"
  shows "url_loop (w @ r) i s0 old fa u = url_loop r (i + length w) s (Some f) fa (field_at f i (length w) u)"
  using assms url_run [of "tl w" s f r "Suc i" fa i 1 u]
  by (cases w) (simp_all add: field_at_def)

lemma not_alpha: "\<not> IS_ALPHA CHR '' ''" "\<not> IS_ALPHA CHR 0x0D" "\<not> IS_ALPHA CHR 0x0A" "\<not> IS_ALPHA CHR 0x09" "\<not> IS_ALPHA CHR 0x0C"
  "\<not> IS_ALPHA CHR ''/''" "\<not> IS_ALPHA CHR ''*''" "\<not> IS_ALPHA CHR ''?''" "\<not> IS_ALPHA CHR ''@''" "\<not> IS_ALPHA CHR '':''" "\<not> IS_ALPHA CHR ''[''"
  "\<not> IS_ALPHA CHR ''#''"
  by code_simp+

lemma not_num: "\<not> IS_NUM CHR '' ''" "\<not> IS_NUM CHR 0x0D" "\<not> IS_NUM CHR 0x0A" "\<not> IS_NUM CHR 0x09" "\<not> IS_NUM CHR 0x0C"
  "\<not> IS_NUM CHR ''/''" "\<not> IS_NUM CHR ''*''" "\<not> IS_NUM CHR ''?''" "\<not> IS_NUM CHR ''@''" "\<not> IS_NUM CHR '':''" "\<not> IS_NUM CHR ''[''"
  by code_simp+

lemma not_url: "\<not> IS_URL_CHAR CHR '' ''" "\<not> IS_URL_CHAR CHR 0x0D" "\<not> IS_URL_CHAR CHR 0x0A" "\<not> IS_URL_CHAR CHR 0x09" "\<not> IS_URL_CHAR CHR 0x0C"
  "\<not> IS_URL_CHAR CHR ''?''" "\<not> IS_URL_CHAR CHR ''#''"
  by code_simp+

definition url_space :: "char \<Rightarrow> bool" where
  "url_space c \<longleftrightarrow> c \<in> {CHR '' '', CHR 0x0D, CHR 0x0A, CHR 0x09, CHR 0x0C}"

lemma url_char_class:
  "IS_ALPHA c \<Longrightarrow> \<not> url_space c \<and> c \<noteq> CHR ''/'' \<and> c \<noteq> CHR ''*'' \<and> c \<noteq> CHR ''?'' \<and> c \<noteq> CHR ''@'' \<and> c \<noteq> CHR '':'' \<and> c \<noteq> CHR ''[''"
  "IS_NUM c \<Longrightarrow> \<not> url_space c \<and> c \<noteq> CHR ''/'' \<and> c \<noteq> CHR ''*'' \<and> c \<noteq> CHR ''?'' \<and> c \<noteq> CHR ''@'' \<and> c \<noteq> CHR '':'' \<and> c \<noteq> CHR ''[''"
  "IS_URL_CHAR c \<Longrightarrow> \<not> url_space c \<and> c \<noteq> CHR ''?'' \<and> c \<noteq> CHR ''#''"
  "IS_HOST_CHAR c \<Longrightarrow> \<not> url_space c \<and> c \<noteq> CHR ''/'' \<and> c \<noteq> CHR ''?'' \<and> c \<noteq> CHR ''@'' \<and> c \<noteq> CHR '':'' \<and> c \<noteq> CHR ''[''"
proof -
  show a: "IS_ALPHA c \<Longrightarrow> \<not> url_space c \<and> c \<noteq> CHR ''/'' \<and> c \<noteq> CHR ''*'' \<and> c \<noteq> CHR ''?'' \<and> c \<noteq> CHR ''@'' \<and> c \<noteq> CHR '':'' \<and> c \<noteq> CHR ''[''"
    by (intro conjI notI) (auto simp: url_space_def not_alpha)
  show n: "IS_NUM c \<Longrightarrow> \<not> url_space c \<and> c \<noteq> CHR ''/'' \<and> c \<noteq> CHR ''*'' \<and> c \<noteq> CHR ''?'' \<and> c \<noteq> CHR ''@'' \<and> c \<noteq> CHR '':'' \<and> c \<noteq> CHR ''[''"
    by (intro conjI notI) (auto simp: url_space_def not_num)
  show "IS_URL_CHAR c \<Longrightarrow> \<not> url_space c \<and> c \<noteq> CHR ''?'' \<and> c \<noteq> CHR ''#''"
    by (intro conjI notI) (auto simp: url_space_def not_url)
  show "IS_HOST_CHAR c \<Longrightarrow> \<not> url_space c \<and> c \<noteq> CHR ''/'' \<and> c \<noteq> CHR ''?'' \<and> c \<noteq> CHR ''@'' \<and> c \<noteq> CHR '':'' \<and> c \<noteq> CHR ''[''"
    using a n unfolding IS_HOST_CHAR_def IS_ALPHANUM_def by (elim disjE) (simp_all add: url_space_def)
qed

lemma scheme_char: "IS_ALPHA c \<Longrightarrow> parse_url_char s_req_spaces_before_url c = s_req_schema"
    "IS_ALPHA c \<Longrightarrow> parse_url_char s_req_schema c = s_req_schema"
  using url_char_class(1) [of c] by (simp_all add: parse_url_char_def url_space_def)

lemma host_char:
  assumes "IS_HOST_CHAR c \<or> c = CHR '':''" "s \<in> {s_req_server_start, s_req_server}"
  shows "parse_url_char s c = s_req_server"
proof -
  have "IS_USERINFO_CHAR c"
    using assms(1) unfolding IS_HOST_CHAR_def by (elim disjE) (simp_all add: IS_USERINFO_CHAR_def IS_MARK_def)
  moreover have "\<not> url_space c \<and> c \<noteq> CHR ''/'' \<and> c \<noteq> CHR ''?'' \<and> c \<noteq> CHR ''@''"
    using assms(1) url_char_class(4) [of c] by (elim disjE) (simp_all add: url_space_def)
  ultimately show ?thesis
    using assms(2) by (elim insertE) (simp_all add: parse_url_char_def parse_server_char_def url_space_def)
qed

lemma path_char: "IS_URL_CHAR c \<Longrightarrow> parse_url_char s_req_path c = s_req_path"
  using url_char_class(3) [of c] by (simp add: parse_url_char_def url_space_def)

lemma query_char:
  assumes "IS_URL_CHAR c \<or> c = CHR ''?''" "s \<in> {s_req_query_string_start, s_req_query_string}"
  shows "parse_url_char s c = s_req_query_string"
proof -
  have "\<not> url_space c" using assms(1) url_char_class(3) [of c] by (elim disjE) (simp_all add: url_space_def)
  with assms show ?thesis
    by (elim disjE insertE) (simp_all add: parse_url_char_def parse_query_char_def url_space_def)
qed

lemma delimiters:
  "parse_url_char s_req_schema CHR '':'' = s_req_schema_slash"
  "parse_url_char s_req_schema_slash CHR ''/'' = s_req_schema_slash_slash"
  "parse_url_char s_req_schema_slash_slash CHR ''/'' = s_req_server_start"
  "parse_url_char s_req_server CHR ''/'' = s_req_path"
  "parse_url_char s_req_server CHR ''?'' = s_req_query_string_start"
  "parse_url_char s_req_path CHR ''?'' = s_req_query_string_start"
  by code_simp+

lemma url_loop_query:
  assumes "case query of None \<Rightarrow> True | Some q \<Rightarrow> \<forall>c \<in> set q. IS_URL_CHAR c \<or> c = CHR ''?''"
    "s \<in> {s_req_server, s_req_path}" "old \<noteq> Some UF_QUERY"
  shows "url_loop (case query of None \<Rightarrow> [] | Some q \<Rightarrow> CHR ''?'' # q) i s old fa u =
    Some (fa, case query of Some (c # q) \<Rightarrow> field_at UF_QUERY (Suc i) (Suc (length q)) u | _ \<Rightarrow> u)"
proof (cases query)
  case (Some q)
  have *: "url_loop (CHR ''?'' # q) i s old fa u = url_loop q (Suc i) s_req_query_string_start old fa u"
    using assms(2) by (auto simp: delimiters)
  show ?thesis
  proof (cases q)
    case (Cons c w)
    have "url_loop (q @ []) (Suc i) s_req_query_string_start old fa u =
        url_loop [] (Suc i + length q) s_req_query_string (Some UF_QUERY) fa (field_at UF_QUERY (Suc i) (length q) u)"
      using assms Some Cons by (intro url_block) (auto simp: query_char)
    with * Some Cons show ?thesis by simp
  qed (use * Some in simp)
qed simp

definition url_result :: "string \<Rightarrow> string \<Rightarrow> string option \<Rightarrow> string \<Rightarrow> string option \<Rightarrow> http_parser_url \<Rightarrow> http_parser_url" where
  "url_result scheme host prt path query u =
     (let ih = length scheme + 3;
          nh = length host + (case prt of None \<Rightarrow> 0 | Some ds \<Rightarrow> Suc (length ds));
          ip = ih + nh;
          u1 = field_at UF_HOST ih nh (field_at UF_SCHEMA 0 (length scheme) u);
          u2 = (if path = [] then u1 else field_at UF_PATH ip (length path) u1)
      in case query of Some (c # q) \<Rightarrow> field_at UF_QUERY (Suc (ip + length path)) (Suc (length q)) u2 | _ \<Rightarrow> u2)"

definition url_parts_ok :: "string \<Rightarrow> string \<Rightarrow> string option \<Rightarrow> string \<Rightarrow> string option \<Rightarrow> bool" where
  "url_parts_ok scheme host prt path query \<longleftrightarrow>
     scheme \<noteq> [] \<and> (\<forall>c \<in> set scheme. IS_ALPHA c) \<and>
     host \<noteq> [] \<and> (\<forall>c \<in> set host. IS_HOST_CHAR c) \<and>
     (case prt of None \<Rightarrow> True | Some ds \<Rightarrow> ds \<noteq> [] \<and> (\<forall>c \<in> set ds. IS_NUM c) \<and> dec_value ds \<le> 65535) \<and>
     (path = [] \<or> hd path = CHR ''/'') \<and> (\<forall>c \<in> set path. IS_URL_CHAR c) \<and>
     (case query of None \<Rightarrow> True | Some q \<Rightarrow> \<forall>c \<in> set q. IS_URL_CHAR c \<or> c = CHR ''?'') \<and>
     length (url_of scheme host prt path query) < 65536"

lemma url_loop_url_of:
  assumes "url_parts_ok scheme host prt path query"
  shows "url_loop (url_of scheme host prt path query) 0 s_req_spaces_before_url None False u =
    Some (False, url_result scheme host prt path query u)"
proof -
  let ?hp = "host @ (case prt of None \<Rightarrow> [] | Some ds \<Rightarrow> CHR '':'' # ds)"
  let ?q = "case query of None \<Rightarrow> [] | Some q \<Rightarrow> CHR ''?'' # q"
  let ?u1 = "field_at UF_SCHEMA 0 (length scheme) u"
  let ?ih = "length scheme + 3"
  let ?u2 = "field_at UF_HOST ?ih (length ?hp) ?u1"
  let ?ip = "?ih + length ?hp"
  let ?u3 = "if path = [] then ?u2 else field_at UF_PATH ?ip (length path) ?u2"
  let ?s = "if path = [] then s_req_server else s_req_path"
  let ?old = "if path = [] then Some UF_HOST else Some UF_PATH"
  have len: "length ?hp = length host + (case prt of None \<Rightarrow> 0 | Some ds \<Rightarrow> Suc (length ds))"
    by (simp split: option.split)
  have ok: "scheme \<noteq> []" "\<forall>c \<in> set scheme. IS_ALPHA c" "host \<noteq> []" "\<forall>c \<in> set ?hp. IS_HOST_CHAR c \<or> c = CHR '':''"
    "path = [] \<or> hd path = CHR ''/''" "\<forall>c \<in> set path. IS_URL_CHAR c"
    "case query of None \<Rightarrow> True | Some q \<Rightarrow> \<forall>c \<in> set q. IS_URL_CHAR c \<or> c = CHR ''?''"
    using assms by (auto simp: url_parts_ok_def IS_HOST_CHAR_def IS_ALPHANUM_def split: option.splits)
  have "url_loop (url_of scheme host prt path query) 0 s_req_spaces_before_url None False u =
      url_loop (scheme @ ''://'' @ ?hp @ path @ ?q) 0 s_req_spaces_before_url None False u"
    by (simp add: url_of_def)
  also have "\<dots> = url_loop (''://'' @ ?hp @ path @ ?q) (0 + length scheme) s_req_schema (Some UF_SCHEMA) False ?u1"
    using ok(1,2) by (intro url_block) (auto simp: scheme_char dest: list.set_sel)
  also have "\<dots> = url_loop (?hp @ path @ ?q) ?ih s_req_server_start (Some UF_SCHEMA) False ?u1"
    by (simp add: delimiters numeral_eq_Suc)
  also have "\<dots> = url_loop (path @ ?q) (?ih + length ?hp) s_req_server (Some UF_HOST) False ?u2"
    using ok(3,4) by (intro url_block) (auto simp: host_char dest: list.set_sel)
  also have "\<dots> = url_loop ?q (?ip + length path) ?s ?old False ?u3"
  proof (cases "path = []")
    case False
    then show ?thesis
      using ok(5,6) by (subst url_block [where s = s_req_path]) (auto simp: path_char delimiters dest: list.set_sel)
  qed simp
  also have "\<dots> = Some (False, case query of Some (c # q) \<Rightarrow> field_at UF_QUERY (Suc (?ip + length path)) (Suc (length q)) ?u3 | _ \<Rightarrow> ?u3)"
    by (rule url_loop_query [OF ok(7)]) auto
  also have "\<dots> = Some (False, url_result scheme host prt path query u)"
    by (simp only: url_result_def Let_def len)
  finally show ?thesis .
qed

lemma field_at_commute: "f \<noteq> g \<Longrightarrow> field_at f i n (field_at g j m u) = field_at g j m (field_at f i n u)"
  by (simp add: field_at_def set_len_def set_off_def set_field_def fun_upd_twist or.left_commute or.commute or.assoc)

lemma field_at_update [simp]:
  "set_len f (word_of_nat m) (field_at f i n u) = field_at f i m u"
  "set_off f j (field_at f i n u) = field_at f j n u"
  by (auto simp: field_at_def set_len_def set_off_def set_field_def intro!: http_parser_url.equality ext field_data.equality)

lemma host_run:
  assumes "\<forall>c \<in> set w. IS_HOST_CHAR c"
  shows "host_loop (w @ r) i s_http_host (field_at UF_HOST j n u) =
    host_loop r (i + length w) s_http_host (field_at UF_HOST j (n + length w) u)"
  using assms by (induction w arbitrary: i n) (simp_all add: http_parse_host_char_def host_update_def inc_len_field_at)

lemma host_block:
  assumes "\<forall>c \<in> set w. IS_HOST_CHAR c" "w \<noteq> []"
  shows "host_loop (w @ r) i s_http_host_start (field_at UF_HOST i 0 u) =
    host_loop r (i + length w) s_http_host (field_at UF_HOST i (length w) u)"
proof -
  obtain c v where w: "w = c # v" using assms(2) by (cases w) auto
  then have "IS_HOST_CHAR c" "c \<noteq> CHR ''[''" using assms(1) url_char_class(4) by auto
  then show ?thesis using host_run [of v r "Suc i" i 1 u] assms(1)
    by (simp add: w http_parse_host_char_def host_update_def inc_len_field_at)
qed

lemma port_run:
  assumes "\<forall>c \<in> set w. IS_NUM c"
  shows "host_loop w i s_http_host_port (field_at UF_PORT j n u) =
    Some (s_http_host_port, field_at UF_PORT j (n + length w) u)"
  using assms by (induction w arbitrary: i n) (simp_all add: http_parse_host_char_def host_update_def inc_len_field_at)

lemma port_block:
  assumes "\<forall>c \<in> set w. IS_NUM c" "w \<noteq> []"
  shows "host_loop (CHR '':'' # w) i s_http_host u = Some (s_http_host_port, field_at UF_PORT (Suc i) (length w) u)"
proof -
  obtain c v where w: "w = c # v" using assms(2) by (cases w) auto
  have "\<not> IS_HOST_CHAR CHR '':''" by code_simp
  moreover have "open_field UF_PORT (Suc i) u = field_at UF_PORT (Suc i) 0 u" by (simp add: open_field_def field_at_def)
  ultimately show ?thesis using port_run [of v "Suc (Suc i)" "Suc i" 1 u] assms(1)
    by (simp add: w http_parse_host_char_def host_update_def inc_len_field_at)
qed


definition url_rest :: "string \<Rightarrow> string \<Rightarrow> string option \<Rightarrow> string \<Rightarrow> string option \<Rightarrow> http_parser_url \<Rightarrow> http_parser_url" where
  "url_rest scheme host prt path query u =
     (let ip = length scheme + 3 + (length host + (case prt of None \<Rightarrow> 0 | Some ds \<Rightarrow> Suc (length ds)));
          u1 = field_at UF_SCHEMA 0 (length scheme) u;
          u2 = (if path = [] then u1 else field_at UF_PATH ip (length path) u1)
      in case query of Some (c # q) \<Rightarrow> field_at UF_QUERY (Suc (ip + length path)) (Suc (length q)) u2 | _ \<Rightarrow> u2)"

lemma url_result_host:
  "url_result scheme host prt path query u =
     field_at UF_HOST (length scheme + 3) (length host + (case prt of None \<Rightarrow> 0 | Some ds \<Rightarrow> Suc (length ds)))
       (url_rest scheme host prt path query u)"
  by (simp add: url_result_def url_rest_def Let_def field_at_commute [of UF_HOST] split: option.split list.split)

definition url_final :: "string \<Rightarrow> string \<Rightarrow> string option \<Rightarrow> string \<Rightarrow> string option \<Rightarrow> http_parser_url \<Rightarrow> http_parser_url" where
  "url_final scheme host prt path query u =
     (let ih = length scheme + 3;
          u1 = field_at UF_HOST ih (length host) (url_rest scheme host prt path query u)
      in case prt of None \<Rightarrow> u1 | Some ds \<Rightarrow> field_at UF_PORT (Suc (ih + length host)) (length ds) u1)"

lemma http_parse_host_url_of:
  assumes "url_parts_ok scheme host prt path query"
  shows "http_parse_host (url_of scheme host prt path query) (url_result scheme host prt path query u) False =
    Some (url_final scheme host prt path query u)"
proof -
  let ?hp = "host @ (case prt of None \<Rightarrow> [] | Some ds \<Rightarrow> CHR '':'' # ds)"
  let ?u = "url_result scheme host prt path query u" and ?r = "url_rest scheme host prt path query u"
  let ?ih = "length scheme + 3"
  have len: "length ?hp = length host + (case prt of None \<Rightarrow> 0 | Some ds \<Rightarrow> Suc (length ds))"
    by (simp split: option.split)
  have ok: "host \<noteq> []" "\<forall>c \<in> set host. IS_HOST_CHAR c" "?ih < 65536" "length ?hp < 65536"
    "\<And>ds. prt = Some ds \<Longrightarrow> ds \<noteq> [] \<and> (\<forall>c \<in> set ds. IS_NUM c)"
    using assms by (auto simp: url_parts_ok_def url_of_def split: option.splits)
  have u: "?u = field_at UF_HOST ?ih (length ?hp) ?r" by (simp only: url_result_host len)
  have off: "unat (fd_off (field_data ?u UF_HOST)) = ?ih"
    using ok(3) by (simp add: u flip: off_of_def)
  have "field_slice ?u UF_HOST (url_of scheme host prt path query) = ?hp"
    using ok(3,4) by (simp add: field_slice_alt u url_of_def)
  moreover have "set_len UF_HOST 0 ?u = field_at UF_HOST ?ih 0 ?r"
    using field_at_update(1) [of UF_HOST 0 ?ih "length ?hp" ?r] by (simp add: u)
  moreover have "host_loop ?hp ?ih s_http_host_start (field_at UF_HOST ?ih 0 ?r) =
      Some (if prt = None then s_http_host else s_http_host_port, url_final scheme host prt path query u)"
    using ok(1,2,5)
    by (cases prt) (simp_all add: host_block host_block [where r = "[]", simplified] port_block url_final_def del: host_loop.simps(2))
  ultimately show ?thesis by (simp add: http_parse_host_def off host_end_ok_def)
qed

lemma copy_url_component_mid:
  assumes "url = a @ b @ c" "has_field u f \<Longrightarrow> off_of u f = length a \<and> len_of u f = length b" "\<not> has_field u f \<Longrightarrow> b = []"
  shows "copy_url_component [] u f url = b"
  using assms by (simp add: copy_url_component_def field_slice_alt)

lemma url_final_fields:
  assumes "url_parts_ok scheme host prt path query" "field_set u0 = 0"
  defines "url \<equiv> url_of scheme host prt path query"
    and "u \<equiv> url_final scheme host prt path query u0"
  shows "copy_url_component [] u UF_SCHEMA url = scheme"
    and "copy_url_component [] u UF_HOST url = host"
    and "copy_url_component [] u UF_PORT url = (case prt of None \<Rightarrow> [] | Some ds \<Rightarrow> ds)"
    and "copy_url_component [] u UF_PATH url = path"
    and "copy_url_component [] u UF_QUERY url = (case query of None \<Rightarrow> [] | Some q \<Rightarrow> q)"
    and "has_field u UF_PORT \<longleftrightarrow> prt \<noteq> None"
    and "\<not> has_field u UF_FRAGMENT" "\<not> has_field u UF_USERINFO" "has_field u UF_HOST"
proof -
  have none: "\<not> has_field u0 f" for f using assms(2) by (simp add: has_field_def)
  have len: "length url < 65536" using assms by (simp add: url_parts_ok_def)
  note defs = u_def url_final_def url_rest_def Let_def none
  note len = len [unfolded url_def url_of_def]
  let ?pp = "case prt of None \<Rightarrow> [] | Some ds \<Rightarrow> CHR '':'' # ds"
  let ?qp = "case query of None \<Rightarrow> [] | Some q \<Rightarrow> CHR ''?'' # q"
  show "has_field u UF_PORT \<longleftrightarrow> prt \<noteq> None" "\<not> has_field u UF_FRAGMENT" "\<not> has_field u UF_USERINFO" "has_field u UF_HOST"
    by (simp_all add: defs split: option.split list.split)
  show "copy_url_component [] u UF_SCHEMA url = scheme"
  proof (rule copy_url_component_mid)
    show "url = [] @ scheme @ (''://'' @ host @ ?pp @ path @ ?qp)" by (simp add: url_def url_of_def)
  qed (use len in \<open>cases prt; cases query; auto simp: defs split: list.splits if_splits\<close>)+
  show "copy_url_component [] u UF_HOST url = host"
  proof (rule copy_url_component_mid)
    show "url = (scheme @ ''://'') @ host @ (?pp @ path @ ?qp)" by (simp add: url_def url_of_def)
  qed (use len in \<open>cases prt; cases query; auto simp: defs split: list.splits if_splits\<close>)+
  show "copy_url_component [] u UF_PORT url = (case prt of None \<Rightarrow> [] | Some ds \<Rightarrow> ds)"
  proof (rule copy_url_component_mid)
    show "url = (scheme @ ''://'' @ host @ take 1 ?pp) @ (case prt of None \<Rightarrow> [] | Some ds \<Rightarrow> ds) @ (path @ ?qp)"
      by (simp add: url_def url_of_def split: option.split)
  qed (use len in \<open>cases prt; cases query; auto simp: defs split: list.splits if_splits\<close>)+
  show "copy_url_component [] u UF_PATH url = path"
  proof (rule copy_url_component_mid)
    show "url = (scheme @ ''://'' @ host @ ?pp) @ path @ ?qp" by (simp add: url_def url_of_def)
  qed (use len in \<open>cases prt; cases query; auto simp: defs split: list.splits if_splits\<close>)+
  show "copy_url_component [] u UF_QUERY url = (case query of None \<Rightarrow> [] | Some q \<Rightarrow> q)"
  proof (rule copy_url_component_mid)
    show "url = (scheme @ ''://'' @ host @ ?pp @ path @ take 1 ?qp) @ (case query of None \<Rightarrow> [] | Some q \<Rightarrow> q) @ []"
      by (simp add: url_def url_of_def split: option.split)
  qed (use len in \<open>cases prt; cases query; auto simp: defs split: list.splits if_splits\<close>)+
qed

lemma parse_url_of:
  fixes u0 :: http_parser_url
  assumes "url_parts_ok scheme host prt path query"
  defines "u1 \<equiv> url_final scheme host prt path query (u0\<lparr>port := 0, field_set := 0\<rparr>)"
  shows "http_parser_parse_url (url_of scheme host prt path query) False u0 =
    Some (case prt of None \<Rightarrow> u1 | Some ds \<Rightarrow> u1\<lparr>port := word_of_nat (dec_value ds)\<rparr>)"
proof -
  let ?url = "url_of scheme host prt path query"
  let ?u0 = "u0\<lparr>port := 0, field_set := 0\<rparr>"
  have ne: "?url \<noteq> []" by (simp add: url_of_def)
  have h: "has_field (url_result scheme host prt path query ?u0) UF_HOST" by (simp add: url_result_host)
  have p: "parse_port ?url u1 = Some (case prt of None \<Rightarrow> u1 | Some ds \<Rightarrow> u1\<lparr>port := word_of_nat (dec_value ds)\<rparr>)"
  proof (cases prt)
    case None
    with url_final_fields(6) [OF assms(1), of ?u0] show ?thesis by (simp add: parse_port_def u1_def)
  next
    case (Some ds)
    have f: "has_field u1 UF_PORT" using url_final_fields(6) [OF assms(1), of ?u0] Some by (simp add: u1_def)
    then have "field_slice u1 UF_PORT ?url = ds"
      using url_final_fields(3) [OF assms(1), of ?u0] Some by (simp add: u1_def copy_url_component_def)
    moreover have "port_loop ds 0 = Some (dec_value ds)"
      using assms(1) Some by (simp add: port_loop_value dec_value_def url_parts_ok_def)
    ultimately show ?thesis using f Some by (simp add: parse_port_def)
  qed
  show ?thesis
    using ne h p url_loop_url_of [OF assms(1), of ?u0] http_parse_host_url_of [OF assms(1), of ?u0]
    by (simp add: http_parser_parse_url_def u1_def)
qed

section \<open>Properties\<close>

text \<open>
  C17: on every URL shorter than 64 KiB that \<open>http_parser_parse_url\<close> accepts, every field it
  reports lies inside the buffer, a reported host is not empty, and a reported port is a string of
  digits whose value is the \<open>port\<close> member.
\<close>

theorem url_fields_in_bounds:
  assumes "http_parser_parse_url buf is_connect u0 = Some u" "length buf < 65536"
  shows "(has_field u f \<longrightarrow> off_of u f + len_of u f \<le> length buf) \<and>
    (has_field u UF_HOST \<longrightarrow> copy_url_component [] u UF_HOST buf \<noteq> []) \<and>
    (has_field u UF_PORT \<longrightarrow> (\<forall>c \<in> set (field_slice u UF_PORT buf). IS_NUM c) \<and>
       unat (port u) = dec_value (field_slice u UF_PORT buf))"
  using parse_url_fields [OF assms]
  by (auto simp: fields_within_def copy_url_component_def field_slice_alt)

theorem url_fields_in_bounds_witness:
  "http_parser_parse_url ''http://h/a?b'' False http_parser_url_init \<noteq> None \<and>
   off_of (the (http_parser_parse_url ''http://h/a?b'' False http_parser_url_init)) UF_QUERY +
   len_of (the (http_parser_parse_url ''http://h/a?b'' False http_parser_url_init)) UF_QUERY \<le> 12"
proof -
  let ?u = "the (http_parser_parse_url ''http://h/a?b'' False http_parser_url_init)"
  have ne: "http_parser_parse_url ''http://h/a?b'' False http_parser_url_init \<noteq> None" by code_simp
  then have s: "http_parser_parse_url ''http://h/a?b'' False http_parser_url_init = Some ?u" by simp
  have q: "has_field ?u UF_QUERY" by code_simp
  from url_fields_in_bounds [OF s, of UF_QUERY] q ne show ?thesis by simp
qed

text \<open>
  C16: an absolute URL composed of a scheme of letters, a host of host characters, an optional
  decimal port not above 65535, a path and a query (all within 64 KiB) is accepted, and copying the
  components out of the result gives back exactly the parts it was composed of.
\<close>

theorem url_roundtrip:
  assumes "url_parts_ok scheme host prt path query"
  shows "\<exists>u. http_parser_parse_url (url_of scheme host prt path query) False u0 = Some u \<and>
    copy_url_component [] u UF_SCHEMA (url_of scheme host prt path query) = scheme \<and>
    copy_url_component [] u UF_HOST (url_of scheme host prt path query) = host \<and>
    copy_url_component [] u UF_PATH (url_of scheme host prt path query) = path \<and>
    copy_url_component [] u UF_QUERY (url_of scheme host prt path query) = (case query of None \<Rightarrow> [] | Some q \<Rightarrow> q) \<and>
    (has_field u UF_PORT \<longleftrightarrow> prt \<noteq> None) \<and> (\<forall>ds. prt = Some ds \<longrightarrow> unat (port u) = dec_value ds) \<and>
    \<not> has_field u UF_FRAGMENT \<and> \<not> has_field u UF_USERINFO"
proof -
  let ?u1 = "url_final scheme host prt path query (u0\<lparr>port := 0, field_set := 0\<rparr>)"
  let ?u = "case prt of None \<Rightarrow> ?u1 | Some ds \<Rightarrow> ?u1\<lparr>port := word_of_nat (dec_value ds)\<rparr>"
  have same: "has_field ?u f = has_field ?u1 f" "copy_url_component d ?u f b = copy_url_component d ?u1 f b" for f d b
    by (simp_all add: copy_url_component_def field_slice_alt split: option.split)
  have port: "unat (port ?u) = dec_value ds" if "prt = Some ds" for ds
    using assms that by (simp add: url_parts_ok_def unat_of_nat)
  show ?thesis
    using url_final_fields [OF assms, of "u0\<lparr>port := 0, field_set := 0\<rparr>"] port
    by (intro exI [of _ ?u]) (simp add: parse_url_of [OF assms] same)
qed

theorem url_roundtrip_witness:
  "url_parts_ok ''http'' ''h.com'' (Some ''80'') ''/a'' (Some ''q'') \<and>
   http_parser_parse_url (url_of ''http'' ''h.com'' (Some ''80'') ''/a'' (Some ''q'')) False http_parser_url_init \<noteq> None"
proof -
  have "list_all IS_ALPHA ''http'' \<and> list_all IS_HOST_CHAR ''h.com'' \<and> list_all IS_NUM ''80'' \<and>
      list_all IS_URL_CHAR ''/a'' \<and> list_all IS_URL_CHAR ''q''" by code_simp
  then have ok: "url_parts_ok ''http'' ''h.com'' (Some ''80'') ''/a'' (Some ''q'')"
    by (simp add: url_parts_ok_def url_of_def dec_value_def of_char_def)
  from url_roundtrip [OF ok, of http_parser_url_init] ok show ?thesis by auto
qed

end
