(* ===== verification/Alpn.thy ===== *)
theory Alpn
  imports Util
begin

text \<open>
  Protocol negotiation of \<open>lib/util.h\<close> and \<open>lib/util.cc\<close>: the HTTP/2 identifiers, the scan of
  the peer's length-prefixed protocol list, and the list this library advertises.
\<close>

definition NGHTTP2_H2_ALPN :: string where "NGHTTP2_H2_ALPN = CHR 0x02 # ''h2''"
definition NGHTTP2_H2 :: string where "NGHTTP2_H2 = ''h2''"
definition NGHTTP2_H2_16_ALPN :: string where "NGHTTP2_H2_16_ALPN = CHR 0x05 # ''h2-16''"
definition NGHTTP2_H2_16 :: string where "NGHTTP2_H2_16 = ''h2-16''"
definition NGHTTP2_H2_14_ALPN :: string where "NGHTTP2_H2_14_ALPN = CHR 0x05 # ''h2-14''"
definition NGHTTP2_H2_14 :: string where "NGHTTP2_H2_14 = ''h2-14''"

definition check_h2_is_selected :: "string \<Rightarrow> bool" where
  "check_h2_is_selected proto \<longleftrightarrow>
     streq NGHTTP2_H2 proto \<or> streq NGHTTP2_H2_16 proto \<or> streq NGHTTP2_H2_14 proto"

function select_proto :: "string \<Rightarrow> string \<Rightarrow> nat \<Rightarrow> (nat \<times> nat) option" where
  "select_proto key buf p =
     (if p + length key \<le> length buf then
        (if take (length key) (drop p buf) = key then Some (p + 1, of_char (buf ! p))
         else select_proto key buf (p + of_char (buf ! p) + 1))
      else None)"
  by pat_completeness auto
termination
proof (relation "measure (\<lambda>(key, buf, p). length buf - p)")
  fix key buf :: string and p :: nat
  assume a: "p + length key \<le> length buf" "take (length key) (drop p buf) \<noteq> key"
  then have "key \<noteq> []" by auto
  with a(1) have "p < length buf" by (cases key) auto
  then show "((key, buf, p + of_char (buf ! p) + 1), key, buf, p) \<in> measure (\<lambda>(key, buf, p). length buf - p)"
    by simp
qed simp

declare select_proto.simps [simp del]

definition select_h2 :: "string \<Rightarrow> (nat \<times> nat) option" where
  "select_h2 buf =
     (case select_proto NGHTTP2_H2_ALPN buf 0 of Some r \<Rightarrow> Some r
      | None \<Rightarrow> (case select_proto NGHTTP2_H2_16_ALPN buf 0 of Some r \<Rightarrow> Some r
      | None \<Rightarrow> select_proto NGHTTP2_H2_14_ALPN buf 0))"

definition get_default_alpn :: string where
  "get_default_alpn = NGHTTP2_H2_ALPN @ NGHTTP2_H2_16_ALPN @ NGHTTP2_H2_14_ALPN"

definition alpn_entry :: "string \<Rightarrow> string" where
  "alpn_entry p = char_of (length p) # p"

definition alpn_wire :: "string list \<Rightarrow> string" where
  "alpn_wire ps = concat (map alpn_entry ps)"

lemma alpn_keys: "NGHTTP2_H2_ALPN = alpn_entry NGHTTP2_H2"
  "NGHTTP2_H2_16_ALPN = alpn_entry NGHTTP2_H2_16" "NGHTTP2_H2_14_ALPN = alpn_entry NGHTTP2_H2_14"
  by code_simp+

lemma length_alpn_entry [simp]: "length (alpn_entry p) = Suc (length p)"
  by (simp add: alpn_entry_def)

lemma length_alpn_wire: "k \<in> set ps \<Longrightarrow> length (alpn_entry k) \<le> length (alpn_wire ps)"
  unfolding alpn_wire_def by (induction ps) auto

lemma select_proto_entry:
  assumes "length k < 256" "\<forall>p \<in> set ps. length p < 256"
  shows "select_proto (alpn_entry k) (pre @ alpn_wire ps) (length pre) =
    (if k \<in> set ps then Some (length pre + length (alpn_wire (takeWhile ((\<noteq>) k) ps)) + 1, length k) else None)"
  using assms(2)
proof (induction ps arbitrary: pre)
  case Nil
  then show ?case by (simp add: alpn_wire_def alpn_entry_def select_proto.simps)
next
  case (Cons q qs)
  have lq: "length q < 256" using Cons.prems by simp
  have hd: "(pre @ alpn_wire (q # qs)) ! length pre = char_of (length q)"
    by (simp add: alpn_wire_def alpn_entry_def)
  have same: "take (length (alpn_entry k)) (alpn_wire (q # qs)) = alpn_entry k \<longleftrightarrow> k = q"
  proof -
    have "take (length (alpn_entry k)) (alpn_wire (q # qs)) = alpn_entry k \<longleftrightarrow>
        (char_of (length q) :: char) = char_of (length k) \<and> take (length k) (q @ alpn_wire qs) = k"
      by (simp only: alpn_wire_def alpn_entry_def list.map concat.simps length_Cons append_Cons
          take_Suc_Cons list.inject)
    also have "\<dots> \<longleftrightarrow> k = q"
      using char_of_nat_inject [OF lq assms(1)] by auto
    finally show ?thesis .
  qed
  have short: "k \<noteq> q" if "\<not> length (alpn_entry k) \<le> length (alpn_wire (q # qs))"
    using that by (auto simp: alpn_wire_def alpn_entry_def)
  have rest: "select_proto (alpn_entry k) (pre @ alpn_wire (q # qs)) (length pre + length q + 1) =
    (if k \<in> set qs then Some (length pre + length q + 1 + length (alpn_wire (takeWhile ((\<noteq>) k) qs)) + 1, length k) else None)"
    using Cons.IH [of "pre @ alpn_entry q"] Cons.prems
    by (simp add: alpn_wire_def alpn_entry_def)
  have later: "k \<notin> set (q # qs)" if "\<not> length (alpn_entry k) \<le> length (alpn_wire (q # qs))"
    using that short length_alpn_wire [of k "q # qs"] by auto
  show ?case
  proof (cases "length (alpn_entry k) \<le> length (alpn_wire (q # qs))")
    case True
    then show ?thesis
      using same rest hd lq
      by (subst select_proto.simps) (auto simp: alpn_wire_def)
  next
    case False
    then show ?thesis using later by (subst select_proto.simps) simp
  qed
qed

lemma alpn_wire_slice:
  "k \<in> set ps \<Longrightarrow> take (length k) (drop (length (alpn_wire (takeWhile ((\<noteq>) k) ps)) + 1) (alpn_wire ps)) = k"
proof (induction ps)
  case (Cons q qs)
  show ?case
  proof (cases "k = q")
    case True
    then show ?thesis by (simp add: alpn_wire_def alpn_entry_def)
  next
    case False
    with Cons show ?thesis by (simp add: alpn_wire_def)
  qed
qed simp

lemma select_proto_wire:
  assumes "length k < 256" "\<forall>p \<in> set ps. length p < 256"
  shows "k \<notin> set ps \<Longrightarrow> select_proto (alpn_entry k) (alpn_wire ps) 0 = None"
    and "k \<in> set ps \<Longrightarrow> \<exists>out. select_proto (alpn_entry k) (alpn_wire ps) 0 = Some (out, length k) \<and>
           take (length k) (drop out (alpn_wire ps)) = k"
  using select_proto_entry [OF assms, of "[]"] alpn_wire_slice [of k ps] by auto

lemma select_h2_spec:
  assumes "\<forall>p \<in> set ps. length p < 256"
  shows "(case select_h2 (alpn_wire ps) of
            None \<Rightarrow> (\<forall>p \<in> set ps. \<not> check_h2_is_selected p)
          | Some (out, outlen) \<Rightarrow>
              take outlen (drop out (alpn_wire ps)) =
                (if NGHTTP2_H2 \<in> set ps then NGHTTP2_H2
                 else if NGHTTP2_H2_16 \<in> set ps then NGHTTP2_H2_16 else NGHTTP2_H2_14) \<and>
              (\<exists>p \<in> set ps. check_h2_is_selected p))"
proof -
  have len: "length NGHTTP2_H2 < 256" "length NGHTTP2_H2_16 < 256" "length NGHTTP2_H2_14 < 256"
    by (simp_all add: NGHTTP2_H2_def NGHTTP2_H2_16_def NGHTTP2_H2_14_def)
  note wire = select_proto_wire [OF len(1) assms] select_proto_wire [OF len(2) assms]
    select_proto_wire [OF len(3) assms]
  show ?thesis
    using wire
    by (cases "NGHTTP2_H2 \<in> set ps"; cases "NGHTTP2_H2_16 \<in> set ps"; cases "NGHTTP2_H2_14 \<in> set ps")
       (auto simp: select_h2_def alpn_keys check_h2_is_selected_def)
qed

lemma select_h2_default: "select_h2 get_default_alpn = Some (1, 2)"
  by code_simp

section \<open>Properties\<close>

text \<open>
  On every well-formed ALPN list, \<open>select_h2\<close> finds an HTTP/2 protocol iff the peer offers one, and
  what it selects is an identifier inside the peer's list: the final \<open>h2\<close> if offered, else the later draft, else
  the earlier one.
\<close>

theorem select_h2_prefers_final:
  assumes "\<forall>p \<in> set ps. length p < 256"
  shows "case select_h2 (alpn_wire ps) of
           None \<Rightarrow> (\<forall>p \<in> set ps. \<not> check_h2_is_selected p)
         | Some (out, outlen) \<Rightarrow>
             take outlen (drop out (alpn_wire ps)) =
               (if NGHTTP2_H2 \<in> set ps then NGHTTP2_H2
                else if NGHTTP2_H2_16 \<in> set ps then NGHTTP2_H2_16 else NGHTTP2_H2_14) \<and>
             (\<exists>p \<in> set ps. check_h2_is_selected p)"
  using assms by (rule select_h2_spec)

theorem select_h2_prefers_final_witness:
  "case select_h2 (alpn_wire [''http/1.1'', ''h2-14'', ''h2'']) of
     None \<Rightarrow> False | Some (out, outlen) \<Rightarrow> take outlen (drop out (alpn_wire [''http/1.1'', ''h2-14'', ''h2''])) = ''h2''"
proof -
  have "\<forall>p \<in> set [''http/1.1'', ''h2-14'', ''h2'']. length p < 256" by simp
  moreover have "check_h2_is_selected ''h2''" by code_simp
  ultimately show ?thesis
    using select_h2_prefers_final [of "[''http/1.1'', ''h2-14'', ''h2'']"]
    by (auto simp: NGHTTP2_H2_def split: option.splits)
qed

end
