(* ===== verification/Common.thy ===== *)
theory Common
  imports Url_Parser Alpn "HOL-Library.List_Lexorder" "HOL-Library.Char_ord"
begin

text \<open>
  \<open>lib/asio_common.cc\<close>, \<open>lib/asio_common.h\<close> and the shared types of
  \<open>lib/includes/nghttp2/asio_http2.h\<close>: header maps, URI references, error codes, body
  generators and URI splitting.
\<close>

section \<open>Header maps\<close>

record header_value =
  hvalue :: string
  sensitive :: bool

text \<open>
  \<open>std::multimap<std::string, header_value>\<close>: the entries in iteration order, which is sorted by
  name, with equal names in the order of their insertion. \<open>hm_emplace\<close> inserts at the upper bound of
  the name, as \<open>emplace\<close> does.
\<close>

type_synonym header_map = "(string \<times> header_value) list"

fun hm_emplace :: "string \<Rightarrow> header_value \<Rightarrow> header_map \<Rightarrow> header_map" where
  "hm_emplace k v [] = [(k, v)]"
| "hm_emplace k v ((k', v') # m) = (if k' \<le> k then (k', v') # hm_emplace k v m else (k, v) # (k', v') # m)"

text \<open>The range of one name (\<open>equal_range\<close>) and the entry \<open>find\<close> stops at.\<close>

definition hm_range :: "string \<Rightarrow> header_map \<Rightarrow> header_value list" where
  "hm_range k m = map snd (filter (\<lambda>(k', v). k' = k) m)"

definition hm_ok :: "header_map \<Rightarrow> bool" where
  "hm_ok m \<longleftrightarrow> sorted (map fst m)"

section \<open>URI references\<close>

record uri_ref =
  uri_scheme :: string
  uri_host :: string
  uri_path :: string
  raw_path :: string
  raw_query :: string
  uri_fragment :: string

definition uri_ref_init :: uri_ref where
  "uri_ref_init = \<lparr>uri_scheme = [], uri_host = [], uri_path = [], raw_path = [], raw_query = [], uri_fragment = []\<rparr>"

definition split_path :: "uri_ref \<Rightarrow> string \<Rightarrow> uri_ref" where
  "split_path dst s =
     (let first = takeWhile (\<lambda>c. c \<noteq> CHR ''?'') s;
          rest = dropWhile (\<lambda>c. c \<noteq> CHR ''?'') s;
          query = (case rest of [] \<Rightarrow> [] | _ # q \<Rightarrow> q)
      in dst\<lparr>uri_path := percent_decode first, raw_path := first, raw_query := query\<rparr>)"

section \<open>Error codes\<close>

datatype error_category = system_category | nghttp2_category | nghttp2_asio_category

record error_code =
  ec_value :: int
  ec_category :: error_category

definition ec_clear :: error_code where
  "ec_clear = \<lparr>ec_value = 0, ec_category = system_category\<rparr>"

text \<open>An error code in a condition: its value is not zero.\<close>

definition ec_failed :: "error_code \<Rightarrow> bool" where
  "ec_failed ec \<longleftrightarrow> ec_value ec \<noteq> 0"

definition make_error_code :: "int \<Rightarrow> error_code" where
  "make_error_code ev = \<lparr>ec_value = ev, ec_category = nghttp2_category\<rparr>"

datatype nghttp2_asio_error = NGHTTP2_ASIO_ERR_NO_ERROR | NGHTTP2_ASIO_ERR_TLS_NO_APP_PROTO_NEGOTIATED

fun asio_error_num :: "nghttp2_asio_error \<Rightarrow> int" where
  "asio_error_num NGHTTP2_ASIO_ERR_NO_ERROR = 0"
| "asio_error_num NGHTTP2_ASIO_ERR_TLS_NO_APP_PROTO_NEGOTIATED = 1"

definition make_asio_error_code :: "nghttp2_asio_error \<Rightarrow> error_code" where
  "make_asio_error_code ev = \<lparr>ec_value = asio_error_num ev, ec_category = nghttp2_asio_category\<rparr>"

definition asio_message :: "int \<Rightarrow> string" where
  "asio_message ev =
     (if ev = asio_error_num NGHTTP2_ASIO_ERR_NO_ERROR then ''no error''
      else if ev = asio_error_num NGHTTP2_ASIO_ERR_TLS_NO_APP_PROTO_NEGOTIATED
           then ''tls: no application protocol negotiated''
      else ''unknown'')"

text \<open>\<open>nghttp2_strerror\<close> belongs to the nghttp2 library and is a parameter.\<close>

definition nghttp2_message :: "(int \<Rightarrow> string) \<Rightarrow> int \<Rightarrow> string" where
  "nghttp2_message nghttp2_strerror ev = nghttp2_strerror ev"

text \<open>\<open>boost::system::errc::invalid_argument\<close> is \<open>EINVAL\<close>.\<close>

definition invalid_argument :: error_code where
  "invalid_argument = \<lparr>ec_value = 22, ec_category = system_category\<rparr>"

section \<open>Body generators\<close>

text \<open>
  A \<open>generator_cb\<close> is a closure with private state: called with the room in the buffer and
  the data flags it returns a result, the bytes it wrote, the new flags and the closure to call next.
\<close>

codatatype generator_cb =
  Generator (gen_call: "nat \<Rightarrow> u32 \<Rightarrow> (int \<times> string \<times> u32) \<times> generator_cb")

definition NGHTTP2_DATA_FLAG_EOF :: u32 where
  "NGHTTP2_DATA_FLAG_EOF = 1"

definition NGHTTP2_ERR_DEFERRED :: int where
  "NGHTTP2_ERR_DEFERRED = -508"

definition NGHTTP2_ERR_TEMPORAL_CALLBACK_FAILURE :: int where
  "NGHTTP2_ERR_TEMPORAL_CALLBACK_FAILURE = -521"

text \<open>The closure of \<open>string_generator\<close>: the string and the number of bytes still to send.\<close>

definition strio_call :: "string \<Rightarrow> nat \<Rightarrow> nat \<Rightarrow> u32 \<Rightarrow> (int \<times> string \<times> u32) \<times> nat" where
  "strio_call data left len flags =
     (let n = min len left;
          bytes = take n (drop (length data - left) data);
          left' = left - n
      in ((int n, bytes, if left' = 0 then flags OR NGHTTP2_DATA_FLAG_EOF else flags), left'))"

primcorec string_generator_at :: "string \<Rightarrow> nat \<Rightarrow> generator_cb" where
  "gen_call (string_generator_at data left) =
     (\<lambda>len flags. map_prod id (string_generator_at data) (strio_call data left len flags))"

definition string_generator :: "string \<Rightarrow> generator_cb" where
  "string_generator data = string_generator_at data (length data)"

primcorec deferred_generator :: generator_cb where
  "gen_call deferred_generator = (\<lambda>len flags. ((NGHTTP2_ERR_DEFERRED, [], flags), deferred_generator))"

text \<open>
  What the successive \<open>read\<close> calls on a descriptor answer: some bytes, an interruption by a signal,
  or another error. The retry loop of \<open>file_generator_from_fd\<close> consumes the answers; with none left
  the call has not returned yet (\<open>None\<close>).
\<close>

datatype read_answer = Got string | Eintr | Errno

fun read_retry :: "nat \<Rightarrow> read_answer list \<Rightarrow> (string option \<times> read_answer list) option" where
  "read_retry len [] = None"
| "read_retry len (Eintr # as) = read_retry len as"
| "read_retry len (Errno # as) = Some (None, as)"
| "read_retry len (Got bs # as) = Some (Some (take len bs), as)"

definition file_generator_from_fd ::
    "read_answer list \<Rightarrow> nat \<Rightarrow> u32 \<Rightarrow> ((int \<times> string \<times> u32) \<times> read_answer list) option" where
  "file_generator_from_fd fd len flags =
     (case read_retry len fd of
        None \<Rightarrow> None
      | Some (None, fd') \<Rightarrow> Some ((NGHTTP2_ERR_TEMPORAL_CALLBACK_FAILURE, [], flags), fd')
      | Some (Some bs, fd') \<Rightarrow>
          Some ((int (length bs), bs, if length bs = 0 then flags OR NGHTTP2_DATA_FLAG_EOF else flags), fd'))"

text \<open>\<open>open\<close> is a parameter; without a descriptor the generator is empty.\<close>

definition file_generator :: "(string \<Rightarrow> 'fd option) \<Rightarrow> string \<Rightarrow> 'fd option" where
  "file_generator open_rdonly p = open_rdonly p"

text \<open>
  The caller's loop over a generator with a buffer of \<open>len\<close> bytes: it collects the bytes until the
  end-of-file flag; \<open>None\<close> when the fuel is spent or the generator reports an error.
\<close>

fun gen_drain :: "nat \<Rightarrow> nat \<Rightarrow> generator_cb \<Rightarrow> string option" where
  "gen_drain 0 len g = None"
| "gen_drain (Suc fuel) len g =
     (case gen_call g len 0 of ((n, bytes, flags), g') \<Rightarrow>
        if n < 0 then None
        else if flags AND NGHTTP2_DATA_FLAG_EOF \<noteq> 0 then Some bytes
        else map_option (\<lambda>rest. bytes @ rest) (gen_drain fuel len g'))"

section \<open>Host and service of a URI\<close>

definition host_service_from_uri ::
    "string \<Rightarrow> string \<Rightarrow> string \<Rightarrow> string \<Rightarrow> error_code \<times> string \<times> string \<times> string" where
  "host_service_from_uri scheme0 host0 service0 uri =
     (case http_parser_parse_url uri False http_parser_url_init of
        None \<Rightarrow> (invalid_argument, scheme0, host0, service0)
      | Some u \<Rightarrow>
          if \<not> has_field u UF_SCHEMA \<or> \<not> has_field u UF_HOST
          then (invalid_argument, scheme0, host0, service0)
          else
            (let scheme1 = copy_url_component scheme0 u UF_SCHEMA uri;
                 host1 = copy_url_component host0 u UF_HOST uri;
                 service1 = (if has_field u UF_PORT then copy_url_component service0 u UF_PORT uri else scheme1)
             in (ec_clear, scheme1, host1, service1)))"

text \<open>What the TLS library reports (NPN, then ALPN) decides; its answers are parameters.\<close>

definition tls_h2_negotiated :: "string option \<Rightarrow> string option \<Rightarrow> bool" where
  "tls_h2_negotiated next_proto_negotiated alpn_selected =
     (case (case next_proto_negotiated of Some p \<Rightarrow> Some p | None \<Rightarrow> alpn_selected) of
        None \<Rightarrow> False
      | Some p \<Rightarrow> check_h2_is_selected p)"

section \<open>Header maps keep every value in order\<close>

text \<open>
  What the library relies on of its header container: values of one name are kept in the order
  of insertion, other names are left alone, and the representation invariant is kept.
\<close>

locale multimap =
  fixes empty_map :: "'m" and emplace :: "'k \<Rightarrow> 'v \<Rightarrow> 'm \<Rightarrow> 'm" and range :: "'k \<Rightarrow> 'm \<Rightarrow> 'v list" and inv :: "'m \<Rightarrow> bool"
  assumes range_empty: "range k empty_map = []"
    and range_emplace: "inv m \<Longrightarrow> range k (emplace k' v m) = (if k = k' then range k m @ [v] else range k m)"
    and inv_empty: "inv empty_map"
    and inv_emplace: "inv m \<Longrightarrow> inv (emplace k v m)"
begin

lemma inv_fold: "inv m \<Longrightarrow> inv (fold (\<lambda>(k, v). emplace k v) kvs m)"
  by (induction kvs arbitrary: m) (auto intro: inv_emplace)

lemma range_fold:
  "inv m \<Longrightarrow> range k (fold (\<lambda>(k, v). emplace k v) kvs m) = range k m @ map snd (filter (\<lambda>(k', v). k' = k) kvs)"
  by (induction kvs arbitrary: m) (auto simp: range_emplace inv_emplace)

end

lemma hm_emplace_set: "set (hm_emplace k v m) = insert (k, v) (set m)"
  by (induction m) (auto split: if_splits)

lemma hm_emplace_ok: "hm_ok m \<Longrightarrow> hm_ok (hm_emplace k v m)"
  by (induction m) (auto simp: hm_ok_def hm_emplace_set not_le intro!: less_imp_le, auto intro: less_le_trans)

lemma hm_range_emplace:
  "hm_ok m \<Longrightarrow> hm_range k (hm_emplace k' v m) = (if k = k' then hm_range k m @ [v] else hm_range k m)"
proof (induction m)
  case (Cons p m)
  obtain k1 v1 where p: "p = (k1, v1)" by force
  have ok: "hm_ok m" and le: "\<forall>x \<in> set m. k1 \<le> fst x" using Cons.prems by (auto simp: hm_ok_def p)
  show ?case
  proof (cases "k1 \<le> k'")
    case True
    then show ?thesis using Cons.IH [OF ok] by (auto simp: p hm_range_def)
  next
    case False
    then have "filter (\<lambda>(k2, v). k2 = k') (p # m) = []" using le by (auto simp: p filter_empty_conv)
    with False show ?thesis by (auto simp: p hm_range_def)
  qed
qed (simp add: hm_range_def)

interpretation hm: multimap "[]" hm_emplace hm_range hm_ok
  by unfold_locales (auto simp: hm_range_emplace hm_emplace_ok, simp_all add: hm_range_def hm_ok_def)

lemma hm_emplace_length [simp]: "length (hm_emplace k v m) = Suc (length m)"
  by (induction m) auto

section \<open>Generators\<close>

lemma strio_left: "left \<le> length data \<Longrightarrow> snd (strio_call data left len flags) = left - min len left"
  by (simp add: strio_call_def Let_def)

lemma gen_drain_string:
  assumes "left \<le> length data" "0 < fuel" "left \<le> fuel * len"
  shows "gen_drain fuel len (string_generator_at data left) = Some (drop (length data - left) data)"
  using assms
proof (induction fuel arbitrary: left)
  case (Suc fuel)
  show ?case
  proof (cases "left \<le> len")
    case True
    then show ?thesis by (simp add: strio_call_def Let_def min_absorb2 Suc.prems NGHTTP2_DATA_FLAG_EOF_def)
  next
    case False
    then have min: "min len left = len" by simp
    have "left - len \<le> fuel * len" using Suc.prems(3) by simp
    moreover from this have "0 < fuel" using False by (cases fuel) auto
    ultimately have "gen_drain fuel len (string_generator_at data (left - len)) = Some (drop (length data - (left - len)) data)"
      using Suc.prems by (intro Suc.IH) auto
    moreover have "drop (length data - (left - len)) data = drop len (drop (length data - left) data)"
      using False Suc.prems(1) by (simp add: add.commute)
    ultimately show ?thesis using False
      by (simp add: strio_call_def Let_def min del: drop_drop)
  qed
qed auto

lemma split_path_raw:
  "raw_path (split_path d s) @ (if CHR ''?'' \<in> set s then CHR ''?'' # raw_query (split_path d s) else []) = s"
  by (induction s) (auto simp: split_path_def Let_def)

section \<open>Properties\<close>

text \<open>
  Whatever header fields are added to a header map, in any order, iterating the map
  lists the names in ascending order, and the values of each name are exactly the values added
  under it, in the order they were added.
\<close>

theorem header_map_keeps_values_in_order:
  "hm_ok (fold (\<lambda>(k, v). hm_emplace k v) kvs []) \<and>
   hm_range k (fold (\<lambda>(k, v). hm_emplace k v) kvs []) = map snd (filter (\<lambda>(k', v). k' = k) kvs)"
  using hm.inv_fold [OF hm.inv_empty, of kvs] hm.range_fold [OF hm.inv_empty, of k kvs] hm.range_empty by simp

text \<open>
  \<open>split_path\<close> loses nothing: the raw path and the raw query joined by the
  first question mark are the input, the raw path has no question mark, the path is the decoded raw
  path, and the scheme, the host and the fragment are left as they were.
\<close>

theorem split_path_roundtrip:
  "raw_path (split_path d s) @ (if CHR ''?'' \<in> set s then CHR ''?'' # raw_query (split_path d s) else []) = s \<and>
   CHR ''?'' \<notin> set (raw_path (split_path d s)) \<and>
   uri_path (split_path d s) = percent_decode (raw_path (split_path d s)) \<and>
   uri_scheme (split_path d s) = uri_scheme d \<and> uri_host (split_path d s) = uri_host d \<and> uri_fragment (split_path d s) = uri_fragment d"
  using split_path_raw [of d s] set_takeWhileD by (fastforce simp: split_path_def Let_def)

text \<open>
  Read repeatedly with any non-empty buffer, the generator of a string delivers
  exactly that string and then signals the end of file, within one call per full buffer plus one.
\<close>

theorem string_generator_delivers:
  assumes "0 < len" "length data div len < fuel"
  shows "gen_drain fuel len (string_generator data) = Some data"
proof -
  have "length data < Suc (length data div len) * len"
    using assms(1) by (simp add: dividend_less_div_times)
  also have "\<dots> \<le> fuel * len" using assms(2) by (intro mult_le_mono1) simp
  finally show ?thesis
    using assms by (simp add: string_generator_def gen_drain_string)
qed

theorem string_generator_delivers_witness:
  "gen_drain 3 4 (string_generator ''hello nine'') = Some ''hello nine''"
  using string_generator_delivers [of 4 "''hello nine''" 3] by simp

text \<open>
  The host and service of a composed URL are its host and its port, or its scheme
  where it has no port, with no error.
\<close>

theorem host_service_of_composed_url:
  assumes "url_parts_ok sch h prt p q"
  shows "host_service_from_uri s0 h0 v0 (url_of sch h prt p q) =
    (ec_clear, sch, h, case prt of None \<Rightarrow> sch | Some ds \<Rightarrow> ds)"
proof -
  let ?u1 = "url_final sch h prt p q (http_parser_url_init\<lparr>port := 0, field_set := 0\<rparr>)"
  let ?u = "case prt of None \<Rightarrow> ?u1 | Some ds \<Rightarrow> ?u1\<lparr>port := word_of_nat (dec_value ds)\<rparr>"
  let ?url = "url_of sch h prt p q"
  note f = url_final_fields [OF assms, of "http_parser_url_init\<lparr>port := 0, field_set := 0\<rparr>", simplified]
  have same: "has_field ?u f = has_field ?u1 f" "copy_url_component d ?u f b = copy_url_component d ?u1 f b" for f d b
    by (simp_all add: copy_url_component_def field_slice_alt split: option.split)
  have sch: "has_field ?u1 UF_SCHEMA" using f(1) assms by (auto simp: copy_url_component_def url_parts_ok_def split: if_splits)
  have "copy_url_component s0 ?u1 UF_SCHEMA ?url = sch" "copy_url_component h0 ?u1 UF_HOST ?url = h"
    "prt = Some ds \<Longrightarrow> copy_url_component v0 ?u1 UF_PORT ?url = ds" for ds
    using f sch by (simp_all add: copy_url_component_def)
  then show ?thesis
    using f(6,9) sch by (simp add: host_service_from_uri_def parse_url_of [OF assms] same split: option.split)
qed

theorem host_service_of_composed_url_witness:
  "host_service_from_uri [] [] [] ''https://h.com:8443/'' = (ec_clear, ''https'', ''h.com'', ''8443'')"
proof -
  have "list_all IS_ALPHA ''https'' \<and> list_all IS_HOST_CHAR ''h.com'' \<and> list_all IS_NUM ''8443'' \<and>
      list_all IS_URL_CHAR ''/''" by code_simp
  then have "url_parts_ok ''https'' ''h.com'' (Some ''8443'') ''/'' None"
    by (simp add: url_parts_ok_def url_of_def dec_value_def of_char_def)
  from host_service_of_composed_url [OF this, of "[]" "[]" "[]"] show ?thesis by (simp add: url_of_def)
qed

end
