(* ===== verification/Http2_Tokens.thy ===== *)
theory Http2_Tokens
  imports Util "HOL-Library.Signed_Division"
begin

text \<open>
  \<open>lib/http2.h\<close> and the table-driven part of \<open>lib/http2.cc\<close>: reason phrases, status code
  literals, header name tokens, name/value pairs, and whether a response has a body.
\<close>

section \<open>Status codes\<close>

text \<open>The cases of the \<open>switch\<close> of \<open>get_reason_phrase\<close> and of \<open>stringify_status\<close>.\<close>

definition reason_phrases :: "(nat \<times> string) list" where
  "reason_phrases =
    [
    (100, ''Continue''), (101, ''Switching Protocols''),
    (103, ''Early Hints''), (200, ''OK''),
    (201, ''Created''), (202, ''Accepted''),
    (203, ''Non-Authoritative Information''), (204, ''No Content''),
    (205, ''Reset Content''), (206, ''Partial Content''),
    (300, ''Multiple Choices''), (301, ''Moved Permanently''),
    (302, ''Found''), (303, ''See Other''),
    (304, ''Not Modified''), (305, ''Use Proxy''),
    (307, ''Temporary Redirect''), (308, ''Permanent Redirect''),
    (400, ''Bad Request''), (401, ''Unauthorized''),
    (402, ''Payment Required''), (403, ''Forbidden''),
    (404, ''Not Found''), (405, ''Method Not Allowed''),
    (406, ''Not Acceptable''), (407, ''Proxy Authentication Required''),
    (408, ''Request Timeout''), (409, ''Conflict''),
    (410, ''Gone''), (411, ''Length Required''),
    (412, ''Precondition Failed''), (413, ''Payload Too Large''),
    (414, ''URI Too Long''), (415, ''Unsupported Media Type''),
    (416, ''Requested Range Not Satisfiable''), (417, ''Expectation Failed''),
    (421, ''Misdirected Request''), (425, ''Too Early''),
    (426, ''Upgrade Required''), (428, ''Precondition Required''),
    (429, ''Too Many Requests''), (431, ''Request Header Fields Too Large''),
    (451, ''Unavailable For Legal Reasons''), (500, ''Internal Server Error''),
    (501, ''Not Implemented''), (502, ''Bad Gateway''),
    (503, ''Service Unavailable''), (504, ''Gateway Timeout''),
    (505, ''HTTP Version Not Supported''), (511, ''Network Authentication Required'')]"

definition status_literals :: "(nat \<times> string) list" where
  "status_literals =
    [
    (100, ''100''), (101, ''101''), (103, ''103''), (200, ''200''), (201, ''201''), (202, ''202''),
    (203, ''203''), (204, ''204''), (205, ''205''), (206, ''206''), (300, ''300''), (301, ''301''),
    (302, ''302''), (303, ''303''), (304, ''304''), (305, ''305''), (307, ''307''), (308, ''308''),
    (400, ''400''), (401, ''401''), (402, ''402''), (403, ''403''), (404, ''404''), (405, ''405''),
    (406, ''406''), (407, ''407''), (408, ''408''), (409, ''409''), (410, ''410''), (411, ''411''),
    (412, ''412''), (413, ''413''), (414, ''414''), (415, ''415''), (416, ''416''), (417, ''417''),
    (421, ''421''), (426, ''426''), (428, ''428''), (429, ''429''), (431, ''431''), (451, ''451''),
    (500, ''500''), (501, ''501''), (502, ''502''), (503, ''503''), (504, ''504''), (505, ''505''),
    (511, ''511'')]"

definition get_reason_phrase :: "nat \<Rightarrow> string" where
  "get_reason_phrase status_code =
     (case map_of reason_phrases status_code of Some s \<Rightarrow> s | None \<Rightarrow> [])"

text \<open>
  The default case prints the number into a buffer of the block allocator with the
  iterator version of \<open>utos\<close>.
\<close>

definition stringify_status :: "nat \<Rightarrow> string" where
  "stringify_status status_code =
     (case map_of status_literals status_code of Some s \<Rightarrow> s | None \<Rightarrow> utos status_code)"

text \<open>C's \<open>/\<close> truncates towards zero, as \<open>sdiv\<close> does.\<close>

definition expect_response_body_status :: "int \<Rightarrow> bool" where
  "expect_response_body_status status_code \<longleftrightarrow>
     status_code = 101 \<or> (status_code sdiv 100 \<noteq> 1 \<and> status_code \<noteq> 304 \<and> status_code \<noteq> 204)"

definition expect_response_body :: "string \<Rightarrow> int \<Rightarrow> bool" where
  "expect_response_body method status_code \<longleftrightarrow>
     method \<noteq> ''HEAD'' \<and> expect_response_body_status status_code"

section \<open>Name/value pairs\<close>

datatype nv_flag = NV_FLAG_NO_INDEX | NV_FLAG_NO_COPY_NAME

record nghttp2_nv =
  nv_name :: string
  nv_value :: string
  nv_flags :: "nv_flag set"

definition make_nv_internal :: "string \<Rightarrow> string \<Rightarrow> bool \<Rightarrow> nv_flag set \<Rightarrow> nghttp2_nv" where
  "make_nv_internal name val no_index fl =
     \<lparr>nv_name = name, nv_value = val, nv_flags = fl \<union> (if no_index then {NV_FLAG_NO_INDEX} else {})\<rparr>"

definition make_nv :: "string \<Rightarrow> string \<Rightarrow> bool \<Rightarrow> nghttp2_nv" where
  "make_nv name val no_index = make_nv_internal name val no_index {}"

definition make_nv_ls :: "string \<Rightarrow> string \<Rightarrow> nghttp2_nv" where
  "make_nv_ls name val = \<lparr>nv_name = name, nv_value = val, nv_flags = {NV_FLAG_NO_COPY_NAME}\<rparr>"

section \<open>Header name tokens\<close>

datatype hd_token =
    HD__AUTHORITY | HD__HOST | HD__METHOD | HD__PATH
  | HD__PROTOCOL | HD__SCHEME | HD__STATUS | HD_ACCEPT_ENCODING
  | HD_ACCEPT_LANGUAGE | HD_ALT_SVC | HD_CACHE_CONTROL | HD_CONNECTION
  | HD_CONTENT_LENGTH | HD_CONTENT_TYPE | HD_COOKIE | HD_DATE
  | HD_EARLY_DATA | HD_EXPECT | HD_FORWARDED | HD_HOST
  | HD_HTTP2_SETTINGS | HD_IF_MODIFIED_SINCE | HD_KEEP_ALIVE | HD_LINK
  | HD_LOCATION | HD_PROXY_CONNECTION | HD_SEC_WEBSOCKET_ACCEPT | HD_SEC_WEBSOCKET_KEY
  | HD_SERVER | HD_TE | HD_TRAILER | HD_TRANSFER_ENCODING
  | HD_UPGRADE | HD_USER_AGENT | HD_VIA | HD_X_FORWARDED_FOR
  | HD_X_FORWARDED_PROTO


text \<open>\<open>streq_l(lit, name, len)\<close> compares the literal with the first \<open>len\<close> bytes of the name.\<close>

definition streq_l :: "string \<Rightarrow> string \<Rightarrow> nat \<Rightarrow> bool" where
  "streq_l lit b blen = streq lit (take blen b)"

text \<open>
  The nested \<open>switch\<close> on the length of the name, then on its last byte, then the
  comparison of the rest; \<open>None\<close> is the result \<open>-1\<close>. The cases of ten and more bytes are
  \<open>lookup_token_long\<close>.
\<close>

definition lookup_token_long :: "string \<Rightarrow> hd_token option" where
  "lookup_token_long name =
    (if length name = 10 then
       (if name ! 9 = CHR ''a'' then (if streq_l ''early-dat'' name 9 then Some HD_EARLY_DATA else None) else
       (if name ! 9 = CHR ''e'' then (if streq_l ''keep-aliv'' name 9 then Some HD_KEEP_ALIVE else None) else
       (if name ! 9 = CHR ''n'' then (if streq_l ''connectio'' name 9 then Some HD_CONNECTION else None) else
       (if name ! 9 = CHR ''t'' then (if streq_l ''user-agen'' name 9 then Some HD_USER_AGENT else None) else
       (if name ! 9 = CHR ''y'' then (if streq_l '':authorit'' name 9 then Some HD__AUTHORITY else None) else
        None)))))
     else
     if length name = 12 then
       (if name ! 11 = CHR ''e'' then (if streq_l ''content-typ'' name 11 then Some HD_CONTENT_TYPE else None) else
        None)
     else
     if length name = 13 then
       (if name ! 12 = CHR ''l'' then (if streq_l ''cache-contro'' name 12 then Some HD_CACHE_CONTROL else None) else
        None)
     else
     if length name = 14 then
       (if name ! 13 = CHR ''h'' then (if streq_l ''content-lengt'' name 13 then Some HD_CONTENT_LENGTH else None) else
       (if name ! 13 = CHR ''s'' then (if streq_l ''http2-setting'' name 13 then Some HD_HTTP2_SETTINGS else None) else
        None))
     else
     if length name = 15 then
       (if name ! 14 = CHR ''e'' then (if streq_l ''accept-languag'' name 14 then Some HD_ACCEPT_LANGUAGE else None) else
       (if name ! 14 = CHR ''g'' then (if streq_l ''accept-encodin'' name 14 then Some HD_ACCEPT_ENCODING else None) else
       (if name ! 14 = CHR ''r'' then (if streq_l ''x-forwarded-fo'' name 14 then Some HD_X_FORWARDED_FOR else None) else
        None)))
     else
     if length name = 16 then
       (if name ! 15 = CHR ''n'' then (if streq_l ''proxy-connectio'' name 15 then Some HD_PROXY_CONNECTION else None) else
        None)
     else
     if length name = 17 then
       (if name ! 16 = CHR ''e'' then (if streq_l ''if-modified-sinc'' name 16 then Some HD_IF_MODIFIED_SINCE else None) else
       (if name ! 16 = CHR ''g'' then (if streq_l ''transfer-encodin'' name 16 then Some HD_TRANSFER_ENCODING else None) else
       (if name ! 16 = CHR ''o'' then (if streq_l ''x-forwarded-prot'' name 16 then Some HD_X_FORWARDED_PROTO else None) else
       (if name ! 16 = CHR ''y'' then (if streq_l ''sec-websocket-ke'' name 16 then Some HD_SEC_WEBSOCKET_KEY else None) else
        None))))
     else
     if length name = 20 then
       (if name ! 19 = CHR ''t'' then (if streq_l ''sec-websocket-accep'' name 19 then Some HD_SEC_WEBSOCKET_ACCEPT else None) else
        None)
     else None)"

definition lookup_token :: "string \<Rightarrow> hd_token option" where
  "lookup_token name =
    (if length name = 2 then
       (if name ! 1 = CHR ''e'' then (if streq_l ''t'' name 1 then Some HD_TE else None) else
        None)
     else
     if length name = 3 then
       (if name ! 2 = CHR ''a'' then (if streq_l ''vi'' name 2 then Some HD_VIA else None) else
        None)
     else
     if length name = 4 then
       (if name ! 3 = CHR ''e'' then (if streq_l ''dat'' name 3 then Some HD_DATE else None) else
       (if name ! 3 = CHR ''k'' then (if streq_l ''lin'' name 3 then Some HD_LINK else None) else
       (if name ! 3 = CHR ''t'' then (if streq_l ''hos'' name 3 then Some HD_HOST else None) else
        None)))
     else
     if length name = 5 then
       (if name ! 4 = CHR ''h'' then (if streq_l '':pat'' name 4 then Some HD__PATH else None) else
       (if name ! 4 = CHR ''t'' then (if streq_l '':hos'' name 4 then Some HD__HOST else None) else
        None))
     else
     if length name = 6 then
       (if name ! 5 = CHR ''e'' then (if streq_l ''cooki'' name 5 then Some HD_COOKIE else None) else
       (if name ! 5 = CHR ''r'' then (if streq_l ''serve'' name 5 then Some HD_SERVER else None) else
       (if name ! 5 = CHR ''t'' then (if streq_l ''expec'' name 5 then Some HD_EXPECT else None) else
        None)))
     else
     if length name = 7 then
       (if name ! 6 = CHR ''c'' then (if streq_l ''alt-sv'' name 6 then Some HD_ALT_SVC else None) else
       (if name ! 6 = CHR ''d'' then (if streq_l '':metho'' name 6 then Some HD__METHOD else None) else
       (if name ! 6 = CHR ''e'' then (if streq_l '':schem'' name 6 then Some HD__SCHEME 
           else if streq_l ''upgrad'' name 6 then Some HD_UPGRADE else None) else
       (if name ! 6 = CHR ''r'' then (if streq_l ''traile'' name 6 then Some HD_TRAILER else None) else
       (if name ! 6 = CHR ''s'' then (if streq_l '':statu'' name 6 then Some HD__STATUS else None) else
        None)))))
     else
     if length name = 8 then
       (if name ! 7 = CHR ''n'' then (if streq_l ''locatio'' name 7 then Some HD_LOCATION else None) else
        None)
     else
     if length name = 9 then
       (if name ! 8 = CHR ''d'' then (if streq_l ''forwarde'' name 8 then Some HD_FORWARDED else None) else
       (if name ! 8 = CHR ''l'' then (if streq_l '':protoco'' name 8 then Some HD__PROTOCOL else None) else
        None))
     else
     lookup_token_long name)"

text \<open>Reference: the header name each token stands for.\<close>

fun hd_name :: "hd_token \<Rightarrow> string" where
  "hd_name HD__AUTHORITY = '':authority''"
| "hd_name HD__HOST = '':host''"
| "hd_name HD__METHOD = '':method''"
| "hd_name HD__PATH = '':path''"
| "hd_name HD__PROTOCOL = '':protocol''"
| "hd_name HD__SCHEME = '':scheme''"
| "hd_name HD__STATUS = '':status''"
| "hd_name HD_ACCEPT_ENCODING = ''accept-encoding''"
| "hd_name HD_ACCEPT_LANGUAGE = ''accept-language''"
| "hd_name HD_ALT_SVC = ''alt-svc''"
| "hd_name HD_CACHE_CONTROL = ''cache-control''"
| "hd_name HD_CONNECTION = ''connection''"
| "hd_name HD_CONTENT_LENGTH = ''content-length''"
| "hd_name HD_CONTENT_TYPE = ''content-type''"
| "hd_name HD_COOKIE = ''cookie''"
| "hd_name HD_DATE = ''date''"
| "hd_name HD_EARLY_DATA = ''early-data''"
| "hd_name HD_EXPECT = ''expect''"
| "hd_name HD_FORWARDED = ''forwarded''"
| "hd_name HD_HOST = ''host''"
| "hd_name HD_HTTP2_SETTINGS = ''http2-settings''"
| "hd_name HD_IF_MODIFIED_SINCE = ''if-modified-since''"
| "hd_name HD_KEEP_ALIVE = ''keep-alive''"
| "hd_name HD_LINK = ''link''"
| "hd_name HD_LOCATION = ''location''"
| "hd_name HD_PROXY_CONNECTION = ''proxy-connection''"
| "hd_name HD_SEC_WEBSOCKET_ACCEPT = ''sec-websocket-accept''"
| "hd_name HD_SEC_WEBSOCKET_KEY = ''sec-websocket-key''"
| "hd_name HD_SERVER = ''server''"
| "hd_name HD_TE = ''te''"
| "hd_name HD_TRAILER = ''trailer''"
| "hd_name HD_TRANSFER_ENCODING = ''transfer-encoding''"
| "hd_name HD_UPGRADE = ''upgrade''"
| "hd_name HD_USER_AGENT = ''user-agent''"
| "hd_name HD_VIA = ''via''"
| "hd_name HD_X_FORWARDED_FOR = ''x-forwarded-for''"
| "hd_name HD_X_FORWARDED_PROTO = ''x-forwarded-proto''"

section \<open>The optimised lookups agree with their reference\<close>

lemma name_split:
  "name ! k = c \<Longrightarrow> streq_l p name k \<Longrightarrow> length name = Suc k \<Longrightarrow> name = p @ [c]"
  by (metis streq_l_def streq_iff lessI take_Suc_conv_app_nth take_all_iff order_refl)

lemma lookup_token_sound: "lookup_token name = Some t \<Longrightarrow> name = hd_name t"
  unfolding lookup_token_def lookup_token_long_def
  by (simp split: if_splits) (drule (1) name_split, simp, simp)+

lemma lookup_token_complete: "lookup_token (hd_name t) = Some t"
  by (induction t) code_simp+

lemma lookup_token_iff: "lookup_token name = Some t \<longleftrightarrow> name = hd_name t"
  using lookup_token_sound lookup_token_complete by auto

lemma stringify_status_utos: "stringify_status n = utos n"
proof -
  have "\<forall>(k, v) \<in> set status_literals. v = utos k" by code_simp
  then show ?thesis by (auto simp: stringify_status_def split: option.split dest: map_of_SomeD)
qed

section \<open>Properties\<close>

text \<open>
  C34: the token lookup, a switch on the length and the last byte of a name, is exact: it returns a token
  iff the name is, byte for byte, the header name of that token; different tokens have different names.
\<close>

theorem lookup_token_exact: "lookup_token name = Some t \<longleftrightarrow> name = hd_name t"
  by (rule lookup_token_iff)

text \<open>
  The table of status literals and its fallback agree: the string of a status code is its decimal
  representation for every code, so that parsing it gives the code back.
\<close>

theorem stringify_status_decimal:
  "stringify_status n = utos n \<and> parse_uint (stringify_status n) = (if int n \<le> INT64_MAX then int n else -1)"
  using utos_digit [of _ n] by (auto simp: stringify_status_utos parse_uint_spec dec_value_utos)

end
