(* ===== verification/Nghttp2.thy ===== *)
theory Nghttp2
  imports Common Http2_Tokens
begin

text \<open>
  The nghttp2 C library as the server and the client use it. The library itself is not part of the
  repository: its state is a type variable and its functions are the fields of the record
  \<open>nghttp2\<close>, which every definition that calls them takes as an argument. Its functions that
  call back are programs (\<open>lib_run\<close>) that make callbacks, each with the library state at that
  moment, and go on with the answer and the state the callback left.
\<close>

section \<open>Faults\<close>

text \<open>
  What would be undefined behaviour or a failed assertion in the code: the callback guard entered
  twice, a stream id inserted twice, the use of a stream that is gone, a copy beyond a buffer, a
  nested flush, a failure inside \<open>path_join\<close>.
\<close>

datatype fault = Guard_assert | Duplicate_stream | Dangling_stream | Buffer_overrun | Reentered | Path_fault

definition bind_f :: "fault + 'a \<Rightarrow> ('a \<Rightarrow> fault + 'b) \<Rightarrow> fault + 'b" where
  "bind_f m f = (case m of Inl e \<Rightarrow> Inl e | Inr x \<Rightarrow> f x)"

lemma bind_f_simps [simp]: "bind_f (Inl e) f = Inl e" "bind_f (Inr x) f = f x"
  by (simp_all add: bind_f_def)

lemma bind_f_cong [fundef_cong]:
  "m = m' \<Longrightarrow> (\<And>x. m' = Inr x \<Longrightarrow> f x = g x) \<Longrightarrow> bind_f m f = bind_f m' g"
  by (cases m') simp_all

lemma bind_f_Inr: "bind_f m f = Inr y \<longleftrightarrow> (\<exists>x. m = Inr x \<and> f x = Inr y)"
  by (cases m) simp_all

lemma bind_f_Inl: "bind_f m f = Inl e \<longleftrightarrow> m = Inl e \<or> (\<exists>x. m = Inr x \<and> f x = Inl e)"
  by (cases m) simp_all

section \<open>Frames and callbacks\<close>

datatype frame_type = DATA | HEADERS | PUSH_PROMISE | Other_frame nat

datatype headers_category = HCAT_REQUEST | HCAT_RESPONSE | HCAT_PUSH_RESPONSE | HCAT_HEADERS

record nghttp2_frame =
  hd_type :: frame_type
  hd_stream_id :: int
  hd_flags :: u8
  headers_cat :: headers_category
  promised_stream_id :: int

definition NGHTTP2_FLAG_END_STREAM :: u8 where
  "NGHTTP2_FLAG_END_STREAM = 1"

definition NGHTTP2_NV_FLAG_NO_INDEX :: u8 where
  "NGHTTP2_NV_FLAG_NO_INDEX = 1"

definition NGHTTP2_INTERNAL_ERROR :: u32 where
  "NGHTTP2_INTERNAL_ERROR = 2"

definition NGHTTP2_ERR_PROTO :: int where
  "NGHTTP2_ERR_PROTO = -505"

datatype event =
    On_begin_headers nghttp2_frame
  | On_header nghttp2_frame string string u8
  | On_frame_recv nghttp2_frame
  | On_data_chunk_recv int string
  | On_stream_close int u32
  | On_frame_send nghttp2_frame
  | On_frame_not_send nghttp2_frame int
  | Read_data int nat u32

datatype answer = Code int | Read_result int string u32

datatype 's lib_run =
    Returned int string 's
  | Callback event 's "answer \<Rightarrow> 's \<Rightarrow> 's lib_run"

text \<open>The priority fields of a request.\<close>

record nghttp2_priority_spec =
  prio_stream_id :: int
  prio_weight :: int
  prio_exclusive :: bool

text \<open>
  A \<open>mem_send\<close> run returns a negative error code, or a chunk of bytes and its length.
\<close>

record 's nghttp2 =
  submit_rst_stream :: "int \<Rightarrow> u32 \<Rightarrow> 's \<Rightarrow> 's"
  submit_response :: "int \<Rightarrow> nghttp2_nv list \<Rightarrow> bool \<Rightarrow> 's \<Rightarrow> int \<times> 's"
  submit_request :: "nghttp2_priority_spec option \<Rightarrow> nghttp2_nv list \<Rightarrow> bool \<Rightarrow> 's \<Rightarrow> int \<times> 's"
  lib_submit_trailer :: "int \<Rightarrow> nghttp2_nv list \<Rightarrow> 's \<Rightarrow> int \<times> 's"
  submit_push_promise :: "int \<Rightarrow> nghttp2_nv list \<Rightarrow> 's \<Rightarrow> int \<times> 's"
  submit_settings :: "(nat \<times> nat) list \<Rightarrow> 's \<Rightarrow> 's"
  set_local_window_size :: "nat \<Rightarrow> 's \<Rightarrow> 's"
  submit_ping :: "'s \<Rightarrow> 's"
  terminate_session :: "'s \<Rightarrow> 's"
  resume_data :: "int \<Rightarrow> 's \<Rightarrow> 's"
  want_read :: "'s \<Rightarrow> bool"
  want_write :: "'s \<Rightarrow> bool"
  session_new :: "int \<times> 's"
  mem_recv :: "string \<Rightarrow> 's \<Rightarrow> 's lib_run"
  mem_send :: "'s \<Rightarrow> 's lib_run"

section \<open>Running the library\<close>

text \<open>
  \<open>disp\<close> is the object's callback, \<open>get\<close> and \<open>put\<close> access the library state in the object.
\<close>

primrec run_lib ::
    "(event \<Rightarrow> 'h \<Rightarrow> fault + (answer \<times> 'h)) \<Rightarrow> ('h \<Rightarrow> 's) \<Rightarrow> ('s \<Rightarrow> 'h \<Rightarrow> 'h) \<Rightarrow> 's lib_run \<Rightarrow> 'h
     \<Rightarrow> fault + (int \<times> string \<times> 'h)" where
  "run_lib disp get put (Returned n bs s) h = Inr (n, bs, put s h)"
| "run_lib disp get put (Callback ev s k) h =
     bind_f (disp ev (put s h)) (\<lambda>(a, h'). run_lib disp get put (k a (get h')) h')"

text \<open>
  The loop of \<open>on_write\<close> and \<open>do_write\<close>: collect chunks while they fit into the \<open>N\<close> bytes of
  the buffer, and keep the first that does not fit for the next time.
\<close>

function fill_loop ::
    "('h \<Rightarrow> fault + (int \<times> string \<times> 'h)) \<Rightarrow> nat \<Rightarrow> string \<Rightarrow> 'h
     \<Rightarrow> fault + (int \<times> string \<times> string option \<times> 'h)" where
  "fill_loop send N out h =
     (case send h of
        Inl e \<Rightarrow> Inl e
      | Inr (n, data, h') \<Rightarrow>
          if n < 0 then Inr (n, out, None, h')
          else if data = [] then Inr (0, out, None, h')
          else if length out + length data > N then Inr (0, out, Some data, h')
          else fill_loop send N (out @ data) h')"
  by auto
termination
  by (relation "measure (\<lambda>(send, N, out, h). N - length out)") (auto simp flip: length_greater_0_conv)

declare fill_loop.simps [simp del]

text \<open>The callback guard around a body that returns a value and the object.\<close>

definition guarded ::
    "('h \<Rightarrow> bool) \<Rightarrow> (bool \<Rightarrow> 'h \<Rightarrow> 'h) \<Rightarrow> ('h \<Rightarrow> fault + ('r \<times> 'h)) \<Rightarrow> 'h \<Rightarrow> fault + ('r \<times> 'h)" where
  "guarded inside set_inside body h =
     (if inside h then Inl Guard_assert
      else bind_f (body (set_inside True h)) (\<lambda>(r, h').
        if inside h' then Inr (r, set_inside False h') else Inl Guard_assert))"

lemma lib_run_induct [case_names Returned Callback]:
  assumes "\<And>n bs s. P (Returned n bs s)" "\<And>ev s k. (\<And>a s'. P (k a s')) \<Longrightarrow> P (Callback ev s k)"
  shows "P r"
proof (induction r)
  case (Callback ev s k)
  show ?case by (rule assms(2)) (blast intro: Callback)
qed (rule assms(1))

lemma fill_loop_cases:
  "send h = Inl e \<Longrightarrow> fill_loop send N out h = Inl e"
  "send h = Inr (n, bs, h') \<Longrightarrow> n < 0 \<or> bs = [] \<Longrightarrow>
     fill_loop send N out h = Inr (if n < 0 then n else 0, out, None, h')"
  "send h = Inr (n, bs, h') \<Longrightarrow> 0 \<le> n \<Longrightarrow> bs \<noteq> [] \<Longrightarrow> N < length out + length bs \<Longrightarrow>
     fill_loop send N out h = Inr (0, out, Some bs, h')"
  "send h = Inr (n, bs, h') \<Longrightarrow> 0 \<le> n \<Longrightarrow> bs \<noteq> [] \<Longrightarrow> length out + length bs \<le> N \<Longrightarrow>
     fill_loop send N out h = fill_loop send N (out @ bs) h'"
  by (subst fill_loop.simps, auto)+

section \<open>Objects that the library calls back\<close>

text \<open>
  The contract between the library and an object with callbacks: what every callback and
  every change of the library state keeps (\<open>inv\<close>), a whole call of the library keeps. \<open>bad\<close> is a
  set of faults the callbacks cannot raise.
\<close>

locale callback_object =
  fixes disp :: "event \<Rightarrow> 'h \<Rightarrow> fault + (answer \<times> 'h)" and get :: "'h \<Rightarrow> 's" and put :: "'s \<Rightarrow> 'h \<Rightarrow> 'h"
    and inv :: "'h \<Rightarrow> bool" and bad :: "fault set"
  assumes disp_inv: "inv h \<Longrightarrow> disp ev h = Inr (a, h') \<Longrightarrow> inv h'"
    and put_inv: "inv h \<Longrightarrow> inv (put s h)"
    and disp_fault: "inv h \<Longrightarrow> disp ev h = Inl e \<Longrightarrow> e \<notin> bad"
begin

lemma run_lib_inv: "inv h \<Longrightarrow> run_lib disp get put r h = Inr (n, bs, h') \<Longrightarrow> inv h'"
proof (induction r arbitrary: h rule: lib_run_induct)
  case (Callback ev s k)
  then obtain a h1 where d: "disp ev (put s h) = Inr (a, h1)" "run_lib disp get put (k a (get h1)) h1 = Inr (n, bs, h')"
    by (auto simp: bind_f_Inr)
  with Callback.IH disp_inv [OF put_inv] Callback.prems(1) show ?case by blast
qed (auto simp: put_inv)

lemma run_lib_fault: "inv h \<Longrightarrow> run_lib disp get put r h = Inl e \<Longrightarrow> e \<notin> bad"
proof (induction r arbitrary: h rule: lib_run_induct)
  case (Callback ev s k)
  show ?case
  proof (cases "disp ev (put s h)")
    case (Inl f)
    with Callback.prems disp_fault [OF put_inv] show ?thesis by auto
  next
    case (Inr p)
    obtain a h1 where p: "p = (a, h1)" by force
    with Inr Callback.prems have "run_lib disp get put (k a (get h1)) h1 = Inl e" by simp
    with Callback.IH disp_inv [OF put_inv [OF Callback.prems(1)]] Inr p show ?thesis by blast
  qed
qed simp

lemma fill_loop_inv:
  assumes "inv h" and send: "\<And>h. inv h \<Longrightarrow> (\<forall>n bs h'. send h = Inr (n, bs, h') \<longrightarrow> inv h') \<and> (\<forall>e. send h = Inl e \<longrightarrow> e \<notin> bad)"
  shows "(\<forall>n out' p h'. fill_loop send N out h = Inr (n, out', p, h') \<longrightarrow> inv h') \<and>
    (\<forall>e. fill_loop send N out h = Inl e \<longrightarrow> e \<notin> bad)"
  using assms
proof (induction send N out h rule: fill_loop.induct)
  case (1 send N out h)
  show ?case
  proof (cases "send h")
    case (Inl e)
    have "e \<notin> bad" using "1.prems" Inl by blast
    then show ?thesis unfolding fill_loop_cases(1) [of send h, OF Inl] by simp
  next
    case (Inr p)
    obtain n bs h' where p: "p = (n, bs, h')" by (cases p) auto
    have inv: "inv h'" using "1.prems" Inr p by blast
    have s: "send h = Inr (n, bs, h')" by (simp add: Inr p)
    consider "n < 0 \<or> bs = []" | "0 \<le> n" "bs \<noteq> []" "N < length out + length bs"
      | "0 \<le> n" "bs \<noteq> []" "length out + length bs \<le> N" by linarith
    then show ?thesis
    proof cases
      case 1
      with inv show ?thesis by (simp add: fill_loop_cases(2) [of send h, OF s])
    next
      case 2
      with inv show ?thesis by (simp add: fill_loop_cases(3) [of send h, OF s])
    next
      case 3
      then have "\<not> n < 0" "\<not> N < length out + length bs" by simp_all
      from "1.IH" [OF s refl refl this(1) 3(2) this(2) inv "1.prems"(2)] show ?thesis
        by (simp add: fill_loop_cases(4) [of send h, OF s 3])
    qed
  qed
qed

lemma fill_run_lib:
  assumes "inv h"
  shows "fill_loop (\<lambda>h. run_lib disp get put (f (get h)) h) N out h = Inr (n, out', p, h') \<Longrightarrow> inv h'"
    and "fill_loop (\<lambda>h. run_lib disp get put (f (get h)) h) N out h = Inl e \<Longrightarrow> e \<notin> bad"
  using fill_loop_inv [OF assms, of "\<lambda>h. run_lib disp get put (f (get h)) h" N out] run_lib_inv run_lib_fault by blast+

end

text \<open>
  The callback guard, as both the server handler and the client session use it: an object
  whose callbacks leave the flag set can be entered whenever it is not inside already, and is left
  with the flag cleared.
\<close>

locale callback_guard =
  fixes inside :: "'h \<Rightarrow> bool" and set_inside :: "bool \<Rightarrow> 'h \<Rightarrow> 'h"
  assumes inside_set: "inside (set_inside b h) = b"
begin

lemma guarded_ok:
  assumes "\<not> inside h" "\<And>r h'. body (set_inside True h) = Inr (r, h') \<Longrightarrow> inside h'"
    "body (set_inside True h) \<noteq> Inl Guard_assert"
  shows "guarded inside set_inside body h \<noteq> Inl Guard_assert"
    and "guarded inside set_inside body h = Inr (r, h') \<Longrightarrow> \<not> inside h'"
  using assms by (auto simp: guarded_def bind_f_Inl bind_f_Inr inside_set split: if_splits)

lemma guarded_Inr:
  "guarded inside set_inside body h = Inr (r, h') \<longleftrightarrow>
     \<not> inside h \<and> (\<exists>h1. body (set_inside True h) = Inr (r, h1) \<and> inside h1 \<and> h' = set_inside False h1)"
  by (auto simp: guarded_def bind_f_Inr)

end

section \<open>Nothing is lost in the write buffer\<close>

text \<open>The chunks that successive calls of the library return.\<close>

inductive sends :: "('h \<Rightarrow> fault + (int \<times> string \<times> 'h)) \<Rightarrow> 'h \<Rightarrow> string list \<Rightarrow> 'h \<Rightarrow> bool" for send where
  sends_Nil: "sends send h [] h"
| sends_Cons: "send h = Inr (n, data, h1) \<Longrightarrow> 0 \<le> n \<Longrightarrow> data \<noteq> [] \<Longrightarrow> sends send h1 ds h' \<Longrightarrow> sends send h (data # ds) h'"

inductive_cases sends_NilE: "sends send h [] h'"
inductive_cases sends_ConsE: "sends send h (d # ds) h'"

lemma fill_loop_sends:
  assumes "fill_loop send N out h = Inr (n, out', p, h')" "length out \<le> N"
  shows "length out' \<le> N \<and>
    (\<exists>ds h1. sends send h ds h1 \<and> out' @ (case p of None \<Rightarrow> [] | Some d \<Rightarrow> d) = out @ concat ds \<and>
      (case p of None \<Rightarrow> \<exists>m bs. send h1 = Inr (m, bs, h') \<and> (m < 0 \<and> n = m \<or> 0 \<le> m \<and> bs = [] \<and> n = 0)
       | Some d \<Rightarrow> h1 = h' \<and> n = 0 \<and> N < length out' + length d \<and> d \<in> set ds))"
  using assms
proof (induction send N out h rule: fill_loop.induct)
  case (1 send N out h)
  from "1.prems"(1) obtain m bs h1 where s: "send h = Inr (m, bs, h1)"
    by (subst (asm) fill_loop.simps) (auto split: sum.splits)
  show ?case
  proof (cases "m < 0 \<or> bs = []")
    case True
    with "1.prems"(1) have *: "out' = out" "p = None" "h' = h1" "n = (if m < 0 then m else 0)"
      by (simp_all add: fill_loop_cases(2) [of send h, OF s])
    with True s "1.prems"(2) sends_Nil [of send h] show ?thesis by (intro conjI exI [of _ "[]"] exI [of _ h]) auto
  next
    case False
    then have one: "sends send h [bs] h1" using s by (auto intro: sends.intros)
    show ?thesis
    proof (cases "N < length out + length bs")
      case True
      with False "1.prems"(1) have *: "out' = out" "p = Some bs" "h' = h1" "n = 0"
        by (simp_all add: fill_loop_cases(3) [of send h, OF s])
      with True one "1.prems"(2) show ?thesis by (intro conjI exI [of _ "[bs]"] exI [of _ h1]) auto
    next
      case fits: False
      with s False "1.prems" have "fill_loop send N (out @ bs) h1 = Inr (n, out', p, h')"
        by (simp add: fill_loop_cases(4) [of send h, OF s])
      with "1.IH" [OF s refl refl] False fits obtain ds h2 where IH: "length out' \<le> N" "sends send h1 ds h2"
        "out' @ (case p of None \<Rightarrow> [] | Some d \<Rightarrow> d) = (out @ bs) @ concat ds"
        "case p of None \<Rightarrow> \<exists>m bs. send h2 = Inr (m, bs, h') \<and> (m < 0 \<and> n = m \<or> 0 \<le> m \<and> bs = [] \<and> n = 0)
         | Some d \<Rightarrow> h2 = h' \<and> n = 0 \<and> N < length out' + length d \<and> d \<in> set ds" by auto
      have "sends send h (bs # ds) h2" using IH(2) s False by (auto intro: sends.intros)
      with IH show ?thesis by (intro conjI exI [of _ "bs # ds"] exI [of _ h2]) (auto split: option.splits)
    qed
  qed
qed

lemma sends_bounded:
  assumes "sends send h ds h'" "\<And>h n bs h'. send h = Inr (n, bs, h') \<Longrightarrow> length bs \<le> N"
  shows "\<forall>d \<in> set ds. length d \<le> N"
  using assms by (induction rule: sends.induct) auto

section \<open>A small instance\<close>

text \<open>A library that sends back the bytes it received, one per chunk.\<close>

definition echo_lib :: "string nghttp2" where
  "echo_lib = \<lparr>submit_rst_stream = (\<lambda>_ _ s. s), submit_response = (\<lambda>_ _ _ s. (0, s)),
     submit_request = (\<lambda>_ _ _ s. (1, s)), lib_submit_trailer = (\<lambda>_ _ s. (0, s)), submit_push_promise = (\<lambda>_ _ s. (2, s)),
     submit_settings = (\<lambda>_ s. s), set_local_window_size = (\<lambda>_ s. s), submit_ping = (\<lambda>s. s), terminate_session = (\<lambda>s. s),
     resume_data = (\<lambda>_ s. s), want_read = (\<lambda>_. True), want_write = (\<lambda>_. True), session_new = (0, []),
     mem_recv = (\<lambda>bs s. Returned (int (length bs)) [] (s @ bs)),
     mem_send = (\<lambda>s. case s of [] \<Rightarrow> Returned 0 [] [] | x # s \<Rightarrow> Returned 1 [x] s)\<rparr>"

end
