(* ===== verification/Ordered_Map.thy ===== *)
theory Ordered_Map
  imports Main
begin

text \<open>
  \<open>std::map\<close> as the code uses it: the entries in iteration order, strictly ascending in the key.
  The routing table of the multiplexer and the stream tables of the server and the client are such
  maps. The locale \<open>ordered_map\<close> states what they rely on; the interpretation proves it for the
  sorted association list.
\<close>

type_synonym ('k, 'v) omap = "('k \<times> 'v) list"

definition om_find :: "'k \<Rightarrow> ('k, 'v) omap \<Rightarrow> 'v option" where
  "om_find k m = map_of m k"

text \<open>\<open>emplace\<close> leaves an existing entry alone and tells whether it inserted.\<close>

fun om_insert :: "'k::linorder \<Rightarrow> 'v \<Rightarrow> ('k, 'v) omap \<Rightarrow> ('k, 'v) omap" where
  "om_insert k v [] = [(k, v)]"
| "om_insert k v ((k', v') # m) =
     (if k' < k then (k', v') # om_insert k v m
      else if k' = k then (k', v) # m
      else (k, v) # (k', v') # m)"

definition om_emplace :: "'k::linorder \<Rightarrow> 'v \<Rightarrow> ('k, 'v) omap \<Rightarrow> ('k, 'v) omap \<times> bool" where
  "om_emplace k v m = (case om_find k m of Some _ \<Rightarrow> (m, False) | None \<Rightarrow> (om_insert k v m, True))"

definition om_erase :: "'k \<Rightarrow> ('k, 'v) omap \<Rightarrow> ('k, 'v) omap" where
  "om_erase k m = filter (\<lambda>(k', v). k' \<noteq> k) m"

definition om_ok :: "('k::linorder, 'v) omap \<Rightarrow> bool" where
  "om_ok m \<longleftrightarrow> sorted_wrt (<) (map fst m)"

section \<open>Laws\<close>

lemma om_ok_simps [simp]: "om_ok []" "om_ok ((k, v) # m) \<longleftrightarrow> (\<forall>k' \<in> fst ` set m. k < k') \<and> om_ok m"
  by (auto simp: om_ok_def)

lemma om_insert_keys [simp]: "fst ` set (om_insert k v m) = insert k (fst ` set m)"
  by (induction m) (auto split: if_splits, force+)

lemma om_insert_ok [simp]: "om_ok m \<Longrightarrow> om_ok (om_insert k v m)"
proof (induction m)
  case (Cons p m)
  obtain k1 v1 where p: "p = (k1, v1)" by force
  consider "k1 < k" | "k1 = k" | "k < k1" by fastforce
  then show ?case
  proof cases
    case 3
    with Cons.prems show ?thesis by (auto simp: p not_less_iff_gr_or_eq intro: less_trans)
  qed (use Cons in \<open>auto simp: p simp del: image_insert\<close>)
qed simp

lemma om_find_insert [simp]: "om_find k' (om_insert k v m) = (if k' = k then Some v else om_find k' m)"
  unfolding om_find_def by (induction m) auto

lemma om_find_Nil [simp]: "om_find k [] = None"
  by (simp add: om_find_def)

lemma om_find_erase [simp]: "om_find k' (om_erase k m) = (if k' = k then None else om_find k' m)"
  unfolding om_find_def om_erase_def by (induction m) auto

lemma om_erase_keys [simp]: "fst ` set (om_erase k m) = fst ` set m - {k}"
  by (force simp: om_erase_def)

lemma om_erase_ok [simp]: "om_ok m \<Longrightarrow> om_ok (om_erase k m)"
  by (induction m) (auto simp: om_erase_def)

lemma om_find_mem: "om_ok m \<Longrightarrow> om_find k m = Some v \<longleftrightarrow> (k, v) \<in> set m"
proof -
  assume "om_ok m"
  then have "distinct (map fst m)" by (simp add: om_ok_def strict_sorted_iff)
  then show ?thesis by (simp add: om_find_def)
qed

lemma om_find_None: "om_find k m = None \<longleftrightarrow> k \<notin> fst ` set m"
  by (simp add: om_find_def map_of_eq_None_iff)

text \<open>What a table of the library promises its client.\<close>

locale ordered_map =
  fixes empty_map :: "'m" and find :: "'k \<Rightarrow> 'm \<Rightarrow> 'v option"
    and emplace :: "'k \<Rightarrow> 'v \<Rightarrow> 'm \<Rightarrow> 'm \<times> bool" and put :: "'k \<Rightarrow> 'v \<Rightarrow> 'm \<Rightarrow> 'm"
    and erase :: "'k \<Rightarrow> 'm \<Rightarrow> 'm" and inv :: "'m \<Rightarrow> bool"
  assumes find_empty: "find k empty_map = None"
    and find_emplace: "find k' (fst (emplace k v m)) =
      (if find k m = None \<and> k' = k then Some v else find k' m)"
    and emplace_fresh: "snd (emplace k v m) \<longleftrightarrow> find k m = None"
    and find_put: "find k' (put k v m) = (if k' = k then Some v else find k' m)"
    and find_erase: "find k' (erase k m) = (if k' = k then None else find k' m)"
    and inv_empty: "inv empty_map"
    and inv_emplace: "inv m \<Longrightarrow> inv (fst (emplace k v m))"
    and inv_put: "inv m \<Longrightarrow> inv (put k v m)"
    and inv_erase: "inv m \<Longrightarrow> inv (erase k m)"
begin

lemma emplace_existing: "find k m = Some w \<Longrightarrow> find k' (fst (emplace k v m)) = find k' m"
  by (simp add: find_emplace)

text \<open>A property of all entries is kept by every operation that stores entries with it.\<close>

definition all_entries :: "('k \<Rightarrow> 'v \<Rightarrow> bool) \<Rightarrow> 'm \<Rightarrow> bool" where
  "all_entries P m \<longleftrightarrow> (\<forall>k v. find k m = Some v \<longrightarrow> P k v)"

lemma all_entries_emplace: "all_entries P m \<Longrightarrow> P k v \<Longrightarrow> all_entries P (fst (emplace k v m))"
  by (auto simp: all_entries_def find_emplace split: if_splits)

lemma all_entries_put: "all_entries P m \<Longrightarrow> P k v \<Longrightarrow> all_entries P (put k v m)"
  by (auto simp: all_entries_def find_put split: if_splits)

lemma all_entries_erase: "all_entries P m \<Longrightarrow> all_entries P (erase k m)"
  by (auto simp: all_entries_def find_erase split: if_splits)

lemma all_entries_empty: "all_entries P empty_map"
  by (simp add: all_entries_def find_empty)

end

interpretation om: ordered_map "[]" om_find om_emplace om_insert om_erase om_ok
  by unfold_locales (auto simp: om_emplace_def split: option.splits)

end
