(* ===== verification/Server_Data.thy ===== *)
theory Server_Data
  imports Common Http2_Tokens Ordered_Map
begin

text \<open>
  The server's request, response and stream objects (\<open>lib/asio_server_request_impl.*\<close>,
  \<open>lib/asio_server_response_impl.h\<close>, \<open>lib/asio_server_stream.*\<close>) and the application programs that
  use them. A stream is referred to by its id; the back pointers of the objects to their stream and
  handler are that id.
\<close>

section \<open>Requests\<close>

text \<open>
  An application callback is a number; what it does is a parameter of the handler (below).
\<close>

type_synonym callback = nat

record request_impl =
  rq_header :: header_map
  rq_method :: string
  rq_uri :: uri_ref
  on_data_cb :: "callback option"
  remote_ep :: string
  header_buffer_size :: nat

definition request_impl_new :: request_impl where
  "request_impl_new = \<lparr>rq_header = [], rq_method = [], rq_uri = uri_ref_init, on_data_cb = None,
     remote_ep = [], header_buffer_size = 0\<rparr>"

definition update_header_buffer_size :: "nat \<Rightarrow> request_impl \<Rightarrow> request_impl" where
  "update_header_buffer_size len req = req\<lparr>header_buffer_size := header_buffer_size req + len\<rparr>"

section \<open>Responses\<close>

datatype response_state = INITIAL | HEADER_DONE | BODY_STARTED

record response_impl =
  rs_header :: header_map
  rs_generator :: "generator_cb option"
  rs_close_cb :: "callback option"
  rs_status_code :: u32
  rs_state :: response_state
  rs_pushed :: bool
  rs_push_promise_sent :: bool

definition response_impl_new :: response_impl where
  "response_impl_new = \<lparr>rs_header = [], rs_generator = Some deferred_generator, rs_close_cb = None,
     rs_status_code = 200, rs_state = INITIAL, rs_pushed = False, rs_push_promise_sent = False\<rparr>"

text \<open>\<open>call_read\<close>: an empty generator function ends the body at once.\<close>

definition call_read :: "response_impl \<Rightarrow> nat \<Rightarrow> u32 \<Rightarrow> (int \<times> string \<times> u32) \<times> response_impl" where
  "call_read res len flags =
     (case rs_generator res of
        Some g \<Rightarrow> (case gen_call g len flags of (r, g') \<Rightarrow> (r, res\<lparr>rs_generator := Some g'\<rparr>))
      | None \<Rightarrow> ((0, [], flags OR NGHTTP2_DATA_FLAG_EOF), res))"

section \<open>Streams\<close>

record stream =
  strm_request :: request_impl
  strm_response :: response_impl

definition stream_new :: stream where
  "stream_new = \<lparr>strm_request = request_impl_new, strm_response = response_impl_new\<rparr>"

section \<open>Application programs\<close>

text \<open>
  What application code does with the objects it is given: the calls of the public \<open>response\<close>
  and \<open>request\<close> classes (\<open>lib/asio_server_response.cc\<close>, \<open>lib/asio_server_request.cc\<close>), each naming
  its stream, in the order they are made. A push answers with an error code and the promised stream. The getters are read
  together (\<open>Look_stream\<close>), and what they return may go into the application's own state, of type \<open>'u\<close>.
\<close>

record request_view =
  view_header :: header_map
  view_method :: string
  view_uri :: uri_ref
  view_remote_endpoint :: string

definition view_request :: "request_impl \<Rightarrow> request_view" where
  "view_request r =
     \<lparr>view_header = rq_header r, view_method = rq_method r, view_uri = rq_uri r, view_remote_endpoint = remote_ep r\<rparr>"

definition view_status_code :: "response_impl \<Rightarrow> u32" where
  "view_status_code r = rs_status_code r"

datatype res_op =
    Write_head u32 header_map
  | End_string string
  | End_generator "generator_cb option"
  | Write_trailer header_map
  | On_close "callback option"
  | Resume
  | Cancel u32

datatype 'u user_prog =
    Finish
  | Response_op int res_op "'u user_prog"
  | On_data int "callback option" "'u user_prog"
  | Push int string string header_map "error_code \<Rightarrow> int option \<Rightarrow> 'u user_prog"
  | Look_stream int "request_view \<Rightarrow> u32 \<Rightarrow> 'u user_prog"
  | Set_state "'u \<Rightarrow> 'u" "'u user_prog"

text \<open>
  A request callback gets the request and the id of its stream.
\<close>

type_synonym 'u request_cb = "request_impl \<Rightarrow> int \<Rightarrow> 'u \<Rightarrow> 'u user_prog \<times> 'u"

datatype cb_arg = Data_arg string | Close_arg u32

type_synonym 'u user_cbs = "callback \<Rightarrow> cb_arg \<Rightarrow> 'u \<Rightarrow> 'u user_prog \<times> 'u"

end
