(* ===== verification/Path_Join.thy ===== *)
theory Path_Join
  imports Util
begin

text \<open>
  \<open>path_join\<close> of \<open>lib/http2.cc\<close> with its helpers \<open>eat_file\<close> and \<open>eat_dir\<close>. The code writes
  into a buffer of a size fixed before the first write; the model carries that size and
  makes a write past it, a read before the buffer, and a failed \<open>assert\<close> error values, so
  that their absence is a theorem.
\<close>

section \<open>The output buffer\<close>

datatype pj_error = BufferOverrun | BadRead | AssertFailed

text \<open>
  The buffer is represented by its capacity \<open>cap\<close> and the bytes before the write pointer
  \<open>p\<close>. \<open>put\<close> is \<open>std::copy\<close> (or \<open>*p++ = c\<close>) at \<open>p\<close>.
\<close>

definition put :: "nat \<Rightarrow> string \<Rightarrow> string \<Rightarrow> pj_error + string" where
  "put cap out s = (if length out + length s \<le> cap then Inr (out @ s) else Inl BufferOverrun)"

definition bind_pj :: "pj_error + 'a \<Rightarrow> ('a \<Rightarrow> pj_error + 'b) \<Rightarrow> pj_error + 'b" where
  "bind_pj m f = (case m of Inl e \<Rightarrow> Inl e | Inr x \<Rightarrow> f x)"

lemma bind_pj_simps [simp]: "bind_pj (Inl e) f = Inl e" "bind_pj (Inr x) f = f x"
  by (simp_all add: bind_pj_def)

section \<open>Dropping the last component\<close>

text \<open>The loop \<open>for (; p != first && *(p - 1) != '/'; --p)\<close>.\<close>

function eat_back :: "string \<Rightarrow> string" where
  "eat_back out = (if out \<noteq> [] \<and> last out \<noteq> CHR ''/'' then eat_back (butlast out) else out)"
  by pat_completeness auto
termination
  by (relation "measure length") auto

declare eat_back.simps [simp del]

definition eat_file :: "nat \<Rightarrow> string \<Rightarrow> pj_error + string" where
  "eat_file cap out =
     (if out = [] then put cap [] ''/''
      else if last out = CHR ''/'' then Inr out
      else let p = eat_back out in if p = [] then put cap [] ''/'' else Inr p)"

definition eat_dir :: "nat \<Rightarrow> string \<Rightarrow> pj_error + string" where
  "eat_dir cap out =
     bind_pj (eat_file cap out) (\<lambda>p.
       if p = [] then Inl BadRead
       else if last p \<noteq> CHR ''/'' then Inl AssertFailed
       else eat_file cap (butlast p))"

section \<open>The main loop\<close>

definition skip_slashes :: "string \<Rightarrow> string" where
  "skip_slashes s = dropWhile (\<lambda>c. c = CHR ''/'') s"

text \<open>
  The part of the loop body after the dot cases: one component is copied, with its
  slash when it has one. The result is the new output and the rest of the input, which
  is \<open>None\<close> where the code leaves the loop.
\<close>

definition copy_component :: "nat \<Rightarrow> string \<Rightarrow> string \<Rightarrow> pj_error + (string \<times> string option)" where
  "copy_component cap out first =
     (if out = [] then Inl BadRead
      else bind_pj (if last out \<noteq> CHR ''/'' then eat_file cap out else Inr out) (\<lambda>out.
        let comp = takeWhile (\<lambda>c. c \<noteq> CHR ''/'') first;
            slash = dropWhile (\<lambda>c. c \<noteq> CHR ''/'') first
        in if slash = [] then bind_pj (put cap out first) (\<lambda>out. Inr (out, None))
           else bind_pj (put cap out (comp @ ''/'')) (\<lambda>out. Inr (out, Some (skip_slashes (tl slash))))))"

lemma copy_component_shrinks:
  assumes "copy_component cap out first = Inr (out', Some r)"
  shows "length r < length first"
proof -
  have "dropWhile (\<lambda>c. c \<noteq> CHR ''/'') first \<noteq> []" "r = skip_slashes (tl (dropWhile (\<lambda>c. c \<noteq> CHR ''/'') first))"
    using assms by (auto simp: copy_component_def bind_pj_def Let_def split: if_splits sum.splits)
  then show ?thesis
    by (metis (no_types, lifting) One_nat_def Suc_pred diff_less length_dropWhile_le length_greater_0_conv
        length_tl less_one order.strict_trans1 order.trans order_less_le_trans skip_slashes_def)
qed

function (sequential) pj_loop :: "nat \<Rightarrow> string \<Rightarrow> string \<Rightarrow> pj_error + string" where
  "pj_loop cap out first =
     (if first = [] then Inr out
      else if first = ''.'' then Inr out
      else if take 2 first = ''./'' then pj_loop cap out (drop 2 first)
      else if first = ''..'' then eat_dir cap out
      else if take 3 first = ''../'' then
        (case eat_dir cap out of Inl e \<Rightarrow> Inl e | Inr out' \<Rightarrow> pj_loop cap out' (drop 3 first))
      else
        (case copy_component cap out first of
           Inl e \<Rightarrow> Inl e
         | Inr (out', None) \<Rightarrow> Inr out'
         | Inr (out', Some r) \<Rightarrow> pj_loop cap out' r))"
  by pat_completeness auto
termination
  by (relation "measure (\<lambda>(cap, out, first). length first)") (auto dest: copy_component_shrinks)

declare pj_loop.simps [simp del]

section \<open>Joining\<close>

definition put_query :: "nat \<Rightarrow> string \<Rightarrow> string \<Rightarrow> pj_error + string" where
  "put_query cap out q = (if q = [] then Inr out else put cap out (CHR ''?'' # q))"

text \<open>The terminating \<open>*p = '\0'\<close>, which is not part of the returned \<open>StringRef\<close>.\<close>

definition finish :: "nat \<Rightarrow> string \<Rightarrow> pj_error + string" where
  "finish cap out = bind_pj (put cap out [CHR 0x00]) (\<lambda>_. Inr out)"

definition path_join_into ::
    "nat \<Rightarrow> string \<Rightarrow> string \<Rightarrow> string \<Rightarrow> string \<Rightarrow> pj_error + string" where
  "path_join_into cap base_path base_query rel_path rel_query =
     (if rel_path = [] then
        bind_pj (if base_path = [] then put cap [] ''/'' else put cap [] base_path) (\<lambda>out.
        bind_pj (if rel_query = [] then put_query cap out base_query
                 else put_query cap out rel_query) (finish cap))
      else
        bind_pj (if rel_path ! 0 = CHR ''/'' then
                   bind_pj (put cap [] ''/'') (\<lambda>out. pj_loop cap out (skip_slashes (tl rel_path)))
                 else if base_path = [] then
                   bind_pj (put cap [] ''/'') (\<lambda>out. pj_loop cap out rel_path)
                 else bind_pj (put cap [] base_path) (\<lambda>out. pj_loop cap out rel_path)) (\<lambda>out.
        bind_pj (put_query cap out rel_query) (finish cap)))"

text \<open>The size passed to \<open>make_byte_ref\<close>.\<close>

definition path_join_size :: "string \<Rightarrow> string \<Rightarrow> string \<Rightarrow> string \<Rightarrow> nat" where
  "path_join_size base_path base_query rel_path rel_query =
     max 1 (length base_path) + length rel_path + 1 +
     max (length base_query) (length rel_query) + 1"

definition path_join :: "string \<Rightarrow> string \<Rightarrow> string \<Rightarrow> string \<Rightarrow> pj_error + string" where
  "path_join base_path base_query rel_path rel_query =
     path_join_into (path_join_size base_path base_query rel_path rel_query)
       base_path base_query rel_path rel_query"

section \<open>Reference: normalisation on segments\<close>

text \<open>
  A stack of directories \<open>ds\<close> and the segments still to read. An empty segment is dropped
  when it follows a copied component (\<open>skip\<close>): the code skips repeated slashes there. After
  a \<open>.\<close> or \<open>..\<close> it does not, and an empty segment is kept as a directory of its own.
\<close>

fun norm_segs :: "bool \<Rightarrow> string list \<Rightarrow> string list \<Rightarrow> string list \<times> string" where
  "norm_segs skip ds [] = (ds, [])"
| "norm_segs skip ds [x] =
     (if x = ''.'' then (ds, []) else if x = ''..'' then (butlast ds, []) else (ds, x))"
| "norm_segs skip ds (x # xs) =
     (if x = [] then norm_segs True (if skip then ds else ds @ [x]) xs
      else if x = ''.'' then norm_segs False ds xs
      else if x = ''..'' then norm_segs False (butlast ds) xs
      else norm_segs True (ds @ [x]) xs)"

definition dirs :: "string list \<Rightarrow> string" where
  "dirs ds = CHR ''/'' # concat (map (\<lambda>d. d @ ''/'') ds)"

definition render :: "string list \<times> string \<Rightarrow> string" where
  "render df = dirs (fst df) @ snd df"

section \<open>No overrun, no bad read, no failed assertion\<close>

lemma eat_back_step: "out \<noteq> [] \<Longrightarrow> last out \<noteq> CHR ''/'' \<Longrightarrow> eat_back out = eat_back (butlast out)"
  by (simp add: eat_back.simps [of out])

lemma eat_back_stop [simp]: "out = [] \<or> last out = CHR ''/'' \<Longrightarrow> eat_back out = out"
  by (auto simp: eat_back.simps [of out])

lemma eat_back_no_slash:
  "CHR ''/'' \<notin> set x \<Longrightarrow> out = [] \<or> last out = CHR ''/'' \<Longrightarrow> eat_back (out @ x) = out"
  by (induction x rule: rev_induct) (auto simp: eat_back_step simp flip: append_assoc)

lemma eat_back_le: "length (eat_back out) \<le> length out"
proof (induction out rule: eat_back.induct)
  case (1 out)
  then show ?case
    by (cases "out \<noteq> [] \<and> last out \<noteq> CHR ''/''") (auto simp: eat_back_step intro: le_trans)
qed

lemma eat_back_last: "eat_back out = [] \<or> last (eat_back out) = CHR ''/''"
proof (induction out rule: eat_back.induct)
  case (1 out)
  then show ?case
    by (cases "out \<noteq> [] \<and> last out \<noteq> CHR ''/''") (auto simp: eat_back_step)
qed

lemma eat_file_ok:
  assumes "0 < cap" "out \<noteq> []"
  shows "\<exists>p. eat_file cap out = Inr p \<and> p \<noteq> [] \<and> last p = CHR ''/'' \<and> length p \<le> length out"
  using assms eat_back_le [of out] eat_back_last [of out]
  by (cases out) (auto simp: eat_file_def put_def Let_def)

lemma eat_dir_ok:
  assumes "0 < cap" "out \<noteq> []"
  shows "\<exists>p. eat_dir cap out = Inr p \<and> p \<noteq> [] \<and> last p = CHR ''/'' \<and> length p \<le> length out"
proof -
  obtain p where p: "eat_file cap out = Inr p" "p \<noteq> []" "last p = CHR ''/''" "length p \<le> length out"
    using eat_file_ok [OF assms] by blast
  show ?thesis
  proof (cases "butlast p = []")
    case True
    with p assms show ?thesis by (cases out) (auto simp: eat_dir_def eat_file_def put_def)
  next
    case False
    with eat_file_ok [OF assms(1) this] p show ?thesis by (auto simp: eat_dir_def)
  qed
qed

lemma copy_component_ok:
  assumes "0 < cap" "out \<noteq> []" "length out + length first \<le> cap"
  shows "\<exists>out' r. copy_component cap out first = Inr (out', r) \<and> out' \<noteq> [] \<and>
    length out' + length (case r of None \<Rightarrow> [] | Some s \<Rightarrow> s) \<le> length out + length first"
proof -
  obtain q where q: "(if last out \<noteq> CHR ''/'' then eat_file cap out else Inr out) = Inr q"
    "q \<noteq> []" "length q \<le> length out"
    using eat_file_ok [OF assms(1,2)] assms(2) by (cases "last out = CHR ''/''") auto
  let ?c = "takeWhile (\<lambda>c. c \<noteq> CHR ''/'') first" and ?s = "dropWhile (\<lambda>c. c \<noteq> CHR ''/'') first"
  have len: "length ?c + length ?s = length first"
    by (metis length_append takeWhile_dropWhile_id)
  have sk: "length (skip_slashes (tl ?s)) \<le> length ?s - 1"
    by (metis length_dropWhile_le length_tl skip_slashes_def)
  show ?thesis
  proof (cases "?s = []")
    case True
    with q assms show ?thesis
      by (auto simp: copy_component_def put_def Let_def)
  next
    case False
    then have "1 \<le> length ?s" by (cases ?s) auto
    with len sk q(3) assms(3) have "length q + length ?c + 1 \<le> cap"
      "length q + length ?c + 1 + length (skip_slashes (tl ?s)) \<le> length out + length first"
      by linarith+
    with False q(1,2) assms(2) show ?thesis
      by (auto simp: copy_component_def put_def Let_def)
  qed
qed

lemma pj_loop_ok:
  assumes "0 < cap" "out \<noteq> []" "length out + length first \<le> cap"
  shows "\<exists>out'. pj_loop cap out first = Inr out' \<and> out' \<noteq> [] \<and> length out' \<le> length out + length first"
  using assms
proof (induction cap out first rule: pj_loop.induct)
  case (1 cap out first)
  obtain p where p: "eat_dir cap out = Inr p" "p \<noteq> []" "length p \<le> length out"
    using eat_dir_ok "1.prems" by blast
  obtain q r where q: "copy_component cap out first = Inr (q, r)" "q \<noteq> []"
    "length q + length (case r of None \<Rightarrow> [] | Some s \<Rightarrow> s) \<le> length out + length first"
    using copy_component_ok "1.prems" by blast
  consider "first = []" | "first = ''.''" | "first \<noteq> []" "first \<noteq> ''.''" "take 2 first = ''./''"
    | "first = ''..''" | "first \<noteq> []" "first \<noteq> ''..''" "take 2 first \<noteq> ''./''" "take 3 first = ''../''"
    | "first \<noteq> []" "first \<noteq> ''.''" "take 2 first \<noteq> ''./''" "first \<noteq> ''..''" "take 3 first \<noteq> ''../''"
    by blast
  then show ?case
  proof cases
    case 3
    have "\<exists>out'. pj_loop cap out (drop 2 first) = Inr out' \<and> out' \<noteq> [] \<and>
        length out' \<le> length out + length (drop 2 first)"
      by (rule "1.IH"(1)) (use 3 "1.prems" in auto)
    with 3 show ?thesis by (subst pj_loop.simps) auto
  next
    case 5
    then have "first \<noteq> ''.''" by auto
    with 5 p "1.prems" have "\<exists>out'. pj_loop cap p (drop 3 first) = Inr out' \<and> out' \<noteq> [] \<and>
        length out' \<le> length p + length (drop 3 first)"
      by (intro "1.IH"(2)) auto
    with 5 p \<open>first \<noteq> ''.''\<close> show ?thesis by (subst pj_loop.simps) auto
  next
    case 6
    show ?thesis
    proof (cases r)
      case None
      with 6 q show ?thesis by (subst pj_loop.simps) auto
    next
      case (Some s)
      with 6 q "1.prems" have "\<exists>out'. pj_loop cap q s = Inr out' \<and> out' \<noteq> [] \<and> length out' \<le> length q + length s"
        by (intro "1.IH"(3)) auto
      with 6 q Some show ?thesis by (subst pj_loop.simps) auto
    qed
  qed (use "1.prems" p in \<open>subst pj_loop.simps; auto\<close>)+
qed

lemma finish_query_ok:
  assumes "out \<noteq> []" "length out + 1 + length q + 1 \<le> cap"
  shows "\<exists>r. bind_pj (put_query cap out q) (finish cap) = Inr r"
  using assms by (auto simp: put_query_def finish_def put_def)

lemma skip_slashes_le: "length (skip_slashes s) \<le> length s"
  by (simp add: skip_slashes_def length_dropWhile_le)

lemma path_join_into_total:
  assumes "max 1 (length base_path) + length rel_path + 1 + max (length base_query) (length rel_query) + 1 \<le> cap"
  shows "\<exists>r. path_join_into cap base_path base_query rel_path rel_query = Inr r"
proof (cases "rel_path = []")
  case True
  with assms show ?thesis
    by (auto simp: path_join_into_def put_def finish_query_ok)
next
  case False
  have loop: "\<exists>r. bind_pj (pj_loop cap out first) (\<lambda>out. bind_pj (put_query cap out rel_query) (finish cap)) = Inr r"
    if out: "out \<noteq> []" "length out + length first \<le> max 1 (length base_path) + length rel_path" for out first
  proof -
    have c: "0 < cap" "length out + length first \<le> cap" using out assms by simp_all
    obtain p where "pj_loop cap out first = Inr p" "p \<noteq> []" "length p \<le> length out + length first"
      using pj_loop_ok [OF c(1) out(1) c(2)] by blast
    then show ?thesis using finish_query_ok [of p rel_query cap] out assms by simp
  qed
  have "length ''/'' + length (skip_slashes (tl rel_path)) \<le> max 1 (length base_path) + length rel_path"
    using skip_slashes_le [of "tl rel_path"] by simp
  with False assms show ?thesis
    by (auto simp: path_join_into_def put_def intro: loop)
qed

lemma path_join_total: "\<exists>r. path_join base_path base_query rel_path rel_query = Inr r"
  by (simp add: path_join_def path_join_size_def path_join_into_total)
section \<open>The result in terms of segments\<close>

lemma dirs_simps [simp]: "dirs [] = ''/''" "dirs (ds @ [d]) = dirs ds @ d @ ''/''" "dirs ds \<noteq> []"
  by (simp_all add: dirs_def)

lemma last_dirs [simp]: "last (dirs ds) = CHR ''/''"
  by (induction ds rule: rev_induct) simp_all

lemma eat_dir_dirs:
  assumes "0 < cap" "\<forall>d \<in> set ds. CHR ''/'' \<notin> set d"
  shows "eat_dir cap (dirs ds) = Inr (dirs (butlast ds))"
proof (cases ds rule: rev_cases)
  case Nil
  with assms show ?thesis by (simp add: eat_dir_def eat_file_def put_def)
next
  case (snoc es d)
  have "butlast (dirs ds) = dirs es @ d" by (simp add: snoc butlast_append)
  moreover have "eat_file cap (dirs es @ d) = Inr (dirs es)"
  proof (cases "d = []")
    case False
    with assms snoc have "last (dirs es @ d) \<noteq> CHR ''/''" by (metis in_set_conv_decomp last_append last_in_set snoc_eq_iff_butlast)
    with assms snoc show ?thesis by (simp add: eat_file_def eat_back_no_slash)
  qed (simp add: eat_file_def)
  ultimately show ?thesis by (simp add: eat_dir_def eat_file_def snoc)
qed

lemma norm_segs_skip: "norm_segs True ds (segments s) = norm_segs False ds (segments (skip_slashes s))"
proof (induction s)
  case Nil then show ?case by (simp add: skip_slashes_def)
next
  case (Cons c s)
  obtain y ys where "segments s = y # ys" by (meson neq_Nil_conv segments_nonempty)
  with Cons show ?case
    by (cases ys) (auto simp: skip_slashes_def)
qed

lemma norm_segs_step [simp]:
  "norm_segs skip ds (x # segments r) =
     (if x = [] then norm_segs True (if skip then ds else ds @ [x]) (segments r)
      else if x = ''.'' then norm_segs False ds (segments r)
      else if x = ''..'' then norm_segs False (butlast ds) (segments r)
      else norm_segs True (ds @ [x]) (segments r))"
  by (cases "segments r") simp_all

lemma take_mem: "take n a = x \<Longrightarrow> set x \<subseteq> set a"
  by (auto dest: in_set_takeD)

lemma pj_loop_norm:
  assumes "length (dirs ds) + length first \<le> cap" "\<forall>d \<in> set ds. CHR ''/'' \<notin> set d"
  shows "pj_loop cap (dirs ds) first = Inr (render (norm_segs False ds (segments first)))"
  using assms
proof (induction first arbitrary: ds rule: length_induct)
  case (1 first)
  have cap: "0 < cap" using 1(2) by (simp add: dirs_def)
  have butl: "length (dirs (butlast ds)) \<le> length (dirs ds)"
    by (cases ds rule: rev_cases) simp_all
  have butl2: "\<forall>d \<in> set (butlast ds). CHR ''/'' \<notin> set d" using 1(3) by (auto dest: in_set_butlastD)
  note dir = eat_dir_dirs [OF cap 1(3)]
  show ?case
  proof (cases first rule: segments_cases)
    case last
    then have *: "take 2 first \<noteq> ''./''" "take 3 first \<noteq> ''../''"
      by (metis in_set_takeD list.set_intros)+
    show ?thesis
    proof (cases "first \<in> {[], ''.'', ''..''}")
      case True
      then show ?thesis using dir by (subst pj_loop.simps) (auto simp: render_def)
    next
      case False
      with last * have "copy_component cap (dirs ds) first = Inr (dirs ds @ first, None)"
        using 1(2) by (auto simp: copy_component_def put_def)
      with False last * show ?thesis by (subst pj_loop.simps) (auto simp: render_def)
    qed
  next
    case (slash a r)
    have IH: "pj_loop cap (dirs es) r' = Inr (render (norm_segs False es (segments r')))"
      if "length r' < length first" "length (dirs es) + length r' \<le> cap" "\<forall>d \<in> set es. CHR ''/'' \<notin> set d" for es r'
      using 1(1) that by blast
    show ?thesis
    proof (cases "a = ''.'' \<or> a = ''..''")
      case True
      then show ?thesis
        using slash IH [of r ds] IH [of r "butlast ds"] dir 1 butl butl2 
        by (subst pj_loop.simps) auto
    next
      case False
      have cc: "copy_component cap (dirs ds) first = Inr (dirs (ds @ [a]), Some (skip_slashes r))"
      proof -
        have "takeWhile (\<lambda>c. c \<noteq> CHR ''/'') first = a" "dropWhile (\<lambda>c. c \<noteq> CHR ''/'') first = CHR ''/'' # r"
          unfolding slash(1) using slash(2) by (subst takeWhile_append2 dropWhile_append2; auto)+
        with 1(2) slash(1) show ?thesis by (simp add: copy_component_def put_def Let_def)
      qed
      have ne: "first \<noteq> []" "first \<noteq> ''.''" "first \<noteq> ''..''" "take 2 first \<noteq> ''./''" "take 3 first \<noteq> ''../''"
        using False slash
        by (auto simp: Cons_eq_append_conv append_eq_Cons_conv take_Cons' dest: take_mem [of 2] take_mem [of 3] split: if_splits)
      have "length (skip_slashes r) \<le> length r"
        by (simp add: skip_slashes_def length_dropWhile_le)
      with 1 slash have "pj_loop cap (dirs (ds @ [a])) (skip_slashes r) = Inr (render (norm_segs False (ds @ [a]) (segments (skip_slashes r))))"
        by (intro IH) auto
      then show ?thesis using ne cc slash False
        by (subst pj_loop.simps) (auto simp: norm_segs_skip)
    qed
  qed
qed

lemma put_slash: "0 < cap \<Longrightarrow> put cap [] ''/'' = Inr ''/''"
  by (simp add: put_def)

lemma path_join_rel:
  "path_join [] [] rel [] = Inr (render (norm_segs True [] (segments rel)))"
proof (cases rel)
  case Nil
  then show ?thesis
    by (simp add: path_join_def path_join_into_def path_join_size_def put_def put_query_def finish_def render_def)
next
  case (Cons c s)
  define cap where "cap = path_join_size [] [] rel []"
  have cap: "cap = length rel + 3" by (simp add: cap_def path_join_size_def)
  have run: "pj_loop cap ''/'' first = Inr (render (norm_segs False [] (segments first)))"
    if "length first \<le> length rel" for first
    using pj_loop_norm [of "[]" first cap] that by (simp add: cap)
  have fin: "bind_pj (put_query cap out []) (finish cap) = Inr out"
    if "length out \<le> length rel + 1" for out
    using that by (simp add: put_query_def finish_def put_def cap)
  have bound: "length (render (norm_segs False [] (segments first))) \<le> length rel + 1"
    if "length first \<le> length rel" for first
    using pj_loop_ok [of cap "''/''" first] run [OF that] that by (simp add: cap)
  have skip: "norm_segs True [] (segments rel) =
      norm_segs False [] (segments (if c = CHR ''/'' then skip_slashes s else rel))"
    using norm_segs_skip [of "[]" rel] by (simp add: Cons skip_slashes_def)
  have "path_join [] [] rel [] =
      bind_pj (pj_loop cap ''/'' (if c = CHR ''/'' then skip_slashes s else rel))
        (\<lambda>out. bind_pj (put_query cap out []) (finish cap))"
    by (simp add: path_join_def path_join_into_def put_slash cap flip: cap_def) (simp add: Cons)
  also have "\<dots> = Inr (render (norm_segs True [] (segments rel)))"
  proof -
    have "length (if c = CHR ''/'' then skip_slashes s else rel) \<le> length rel"
      using skip_slashes_le [of s] by (auto simp: Cons)
    from run [OF this] fin [OF bound [OF this]] skip show ?thesis by simp
  qed
  finally show ?thesis .
qed

lemma norm_segs_elems:
  "norm_segs skip ds xs = (es, f) \<Longrightarrow>
     set (es @ [f]) \<subseteq> insert [] (set ds \<union> (set xs - {''.'', ''..''}))"
proof (induction skip ds xs rule: norm_segs.induct)
  case (2 skip ds x)
  then show ?case using in_set_butlastD by (fastforce split: if_splits)
next
  case (3 skip ds x y ys)
  consider "x = []" | "x = ''.''" | "x = ''..''" | "x \<noteq> []" "x \<noteq> ''.''" "x \<noteq> ''..''" by blast
  then show ?case
  proof cases
    case 1
    have "set (es @ [f]) \<subseteq> insert [] (set (if skip then ds else ds @ [x]) \<union> (set (y # ys) - {''.'', ''..''}))"
      by (rule "3.IH"(1)) (use 1 "3.prems" in auto)
    with 1 show ?thesis by (cases skip) auto
  next
    case 2
    with 3 show ?thesis by auto
  next
    case c: 3
    with 3 have "set (es @ [f]) \<subseteq> insert [] (set (butlast ds) \<union> (set (y # ys) - {''.'', ''..''}))"
      by simp
    with c show ?thesis using in_set_butlastD [of _ ds] by auto
  next
    case 4
    with 3 have "set (es @ [f]) \<subseteq> insert [] (set (ds @ [x]) \<union> (set (y # ys) - {''.'', ''..''}))"
      by simp
    with 4 show ?thesis by auto
  qed
qed simp

lemma segments_no_slash_elem: "d \<in> set (segments s) \<Longrightarrow> CHR ''/'' \<notin> set d"
  by (induction s rule: segments_induct) auto

lemma segments_render:
  "\<forall>d \<in> set (ds @ [f]). CHR ''/'' \<notin> set d \<Longrightarrow> segments (tl (render (ds, f))) = ds @ [f]"
  by (induction ds) (auto simp: render_def dirs_def)

lemma render_segments: "segments s = ds @ [f] \<Longrightarrow> render (ds, f) = CHR ''/'' # s"
proof (induction s arbitrary: ds rule: segments_induct)
  case (last a)
  then show ?case by (simp add: render_def dirs_def)
next
  case (slash a r)
  then obtain es where "ds = a # es" "segments r = es @ [f]"
    by (cases ds) auto
  with slash.IH show ?case by (auto simp: render_def dirs_def)
qed

lemma norm_segs_id:
  assumes "''.'' \<notin> set xs" "''..'' \<notin> set xs" "xs \<noteq> []"
  shows "norm_segs True ds xs = (ds @ filter (\<lambda>x. x \<noteq> []) (butlast xs), last xs)"
  using assms
proof (induction xs arbitrary: ds)
  case (Cons x xs)
  then show ?case by (cases xs) auto
qed simp

lemma path_join_no_dots:
  assumes "path_join [] [] rel [] = Inr r"
  shows "\<exists>s. r = CHR ''/'' # s \<and> ''.'' \<notin> set (segments s) \<and> ''..'' \<notin> set (segments s)"
proof -
  obtain ds f where n: "norm_segs True [] (segments rel) = (ds, f)" by fastforce
  then have r: "r = render (ds, f)" using assms by (simp add: path_join_rel)
  have "\<forall>d \<in> set (ds @ [f]). CHR ''/'' \<notin> set d"
    using norm_segs_elems [OF n] segments_no_slash_elem by fastforce
  then have "segments (tl r) = ds @ [f]" unfolding r by (rule segments_render)
  moreover have "r = CHR ''/'' # tl r" by (simp add: r render_def dirs_def)
  ultimately show ?thesis using norm_segs_elems [OF n] by (intro exI [of _ "tl r"]) auto
qed

lemma path_join_fixpoint:
  "path_join [] [] p [] = Inr p \<longleftrightarrow>
     (\<exists>s. p = CHR ''/'' # s \<and> ''.'' \<notin> set (segments s) \<and> ''..'' \<notin> set (segments s) \<and>
          [] \<notin> set (butlast (segments s)))"
  (is "?L \<longleftrightarrow> ?R")
proof -
  have norm: "path_join [] [] p [] = Inr (render (filter (\<lambda>x. x \<noteq> []) (butlast (segments s)), last (segments s)))"
    if "p = CHR ''/'' # s" "''.'' \<notin> set (segments s)" "''..'' \<notin> set (segments s)" for s
    using that norm_segs_id [of "segments s" "[]"] by (simp add: path_join_rel)
  have all: "filter (\<lambda>x. x \<noteq> []) xs = xs \<longleftrightarrow> [] \<notin> set xs" for xs :: "string list"
    by (induction xs) (auto, metis impossible_Cons length_filter_le)
  have id: "render (butlast (segments s), last (segments s)) = CHR ''/'' # s" for s
    by (rule render_segments) simp
  show ?thesis
  proof
    assume L: ?L
    from path_join_no_dots [OF this] obtain s where
      s: "p = CHR ''/'' # s" "''.'' \<notin> set (segments s)" "''..'' \<notin> set (segments s)" by blast
    let ?ds = "filter (\<lambda>x. x \<noteq> []) (butlast (segments s))" and ?f = "last (segments s)"
    have p: "render (?ds, ?f) = p" using norm [OF s] L by simp
    have "\<forall>d \<in> set (?ds @ [?f]). CHR ''/'' \<notin> set d"
      using segments_no_slash_elem [of _ s] last_in_set [of "segments s"] by (auto dest: in_set_butlastD)
    then have "segments (tl p) = ?ds @ [?f]" using segments_render p by blast
    then have "segments s = ?ds @ [?f]" by (simp add: s)
    then have "butlast (segments s) = ?ds" by (metis butlast_snoc)
    with s all show ?R by metis
  next
    assume ?R
    then show ?L using norm all id by metis
  qed
qed

section \<open>Properties\<close>

text \<open>
  C14: \<open>path_join\<close> is memory safe on every input: the size it computes in advance is enough for every
  write, it never reads before its buffer, its assertion never fails, and it terminates with a path.
\<close>

theorem path_join_safe: "\<exists>r. path_join base_path base_query rel_path rel_query = Inr r"
  by (rule path_join_total)

text \<open>
  C15: cleaning a path computes its normal form segment by segment: the result starts with a slash, has
  no dot segments, and a path is left unchanged iff it starts with a slash, has no dot segments and no empty segment
  but the last.
\<close>

theorem path_join_normalises:
  "path_join [] [] rel [] = Inr (render (norm_segs True [] (segments rel))) \<and>
   (\<exists>s. render (norm_segs True [] (segments rel)) = CHR ''/'' # s \<and> ''.'' \<notin> set (segments s) \<and> ''..'' \<notin> set (segments s)) \<and>
   (path_join [] [] rel [] = Inr rel \<longleftrightarrow>
     (\<exists>s. rel = CHR ''/'' # s \<and> ''.'' \<notin> set (segments s) \<and> ''..'' \<notin> set (segments s) \<and>
          [] \<notin> set (butlast (segments s))))"
  using path_join_rel [of rel] path_join_no_dots [OF path_join_rel [of rel]] path_join_fixpoint [of rel] by blast

end
