(* ===== verification/Serve_Mux.thy ===== *)
theory Serve_Mux
  imports Server_Data Path_Join
begin

text \<open>
  \<open>lib/asio_server_serve_mux.*\<close>, the routing of requests by pattern, and
  \<open>lib/asio_server_request_handler.cc\<close>, the redirect and status handlers it answers with.
\<close>

section \<open>Canned handlers\<close>

definition create_html :: "nat \<Rightarrow> string" where
  "create_html sc =
     ''<!DOCTYPE html><html lang='' @ [CHR 0x22] @ ''en'' @ [CHR 0x22] @ ''><title>'' @ stringify_status sc @ '' '' @
     get_reason_phrase sc @ ''</title><body><h1>'' @ stringify_status sc @ '' '' @
     get_reason_phrase sc @ ''</h1></body></html>''"

definition plain_value :: "string \<Rightarrow> header_value" where
  "plain_value s = \<lparr>hvalue = s, sensitive = False\<rparr>"

definition redirect_handler :: "int \<Rightarrow> string \<Rightarrow> 'u request_cb" where
  "redirect_handler sc uri = (\<lambda>req strm u.
     let html = (if rq_method req = ''GET'' then create_html (unat (word_of_int sc :: u32)) else []);
         h = hm_emplace ''content-length'' (plain_value (utos (length html)))
               (hm_emplace ''location'' (plain_value uri) [])
     in (Response_op strm (Write_head (word_of_int sc) h)
           (Response_op strm (End_string html) Finish), u))"

definition status_handler :: "int \<Rightarrow> 'u request_cb" where
  "status_handler sc = (\<lambda>req strm u.
     if \<not> expect_response_body_status sc then
       (Response_op strm (Write_head (word_of_int sc) []) (Response_op strm (End_string []) Finish), u)
     else
       (let html = create_html (unat (word_of_int sc :: u32));
            h = hm_emplace ''content-type'' (plain_value ''text/html; charset=utf-8'')
                  (hm_emplace ''content-length'' (plain_value (utos (length html))) [])
        in (Response_op strm (Write_head (word_of_int sc) h)
              (Response_op strm (End_string html) Finish), u)))"

section \<open>The multiplexer\<close>

record 'u handler_entry =
  user_defined :: bool
  cb :: "'u request_cb"
  pattern :: string

type_synonym 'u serve_mux = "(string, 'u handler_entry) omap"

text \<open>The implicit redirect of a pattern that ends with a slash.\<close>

definition redirect_entry :: "string \<Rightarrow> 'u handler_entry" where
  "redirect_entry pat =
     (let path = (if hd pat = CHR ''/'' then pat else dropWhile (\<lambda>c. c \<noteq> CHR ''/'') pat)
      in \<lparr>user_defined = False, cb = redirect_handler 301 path, pattern = pat\<rparr>)"

definition add_redirect :: "string \<Rightarrow> 'u serve_mux \<Rightarrow> 'u serve_mux" where
  "add_redirect pat m =
     (if length pat \<ge> 2 \<and> last pat = CHR ''/'' then
        (let redirect_pattern = butlast pat in
         case om_find redirect_pattern m of
           None \<Rightarrow> fst (om_emplace redirect_pattern (redirect_entry pat) m)
         | Some e \<Rightarrow> if user_defined e then m else om_insert redirect_pattern (redirect_entry pat) m)
      else m)"

definition handle :: "string \<Rightarrow> 'u request_cb option \<Rightarrow> 'u serve_mux \<Rightarrow> bool \<times> 'u serve_mux" where
  "handle pat cb_opt m =
     (case cb_opt of
        None \<Rightarrow> (False, m)
      | Some f \<Rightarrow>
          if pat = [] then (False, m)
          else if (case om_find pat m of Some e \<Rightarrow> user_defined e | None \<Rightarrow> False) then (False, m)
          else (True, fst (om_emplace pat \<lparr>user_defined = True, cb = f, pattern = pat\<rparr> (add_redirect pat m))))"

definition path_match :: "string \<Rightarrow> string \<Rightarrow> bool" where
  "path_match pat path =
     (if last pat \<noteq> CHR ''/'' then pat = path else starts_with path pat)"

fun match_loop ::
    "(string \<times> 'u handler_entry) list \<Rightarrow> string \<Rightarrow> 'u handler_entry option \<Rightarrow> nat \<Rightarrow> 'u handler_entry option" where
  "match_loop [] path ent best = ent"
| "match_loop ((pat, e) # kvs) path ent best =
     (if \<not> path_match pat path then match_loop kvs path ent best
      else if ent = None \<or> best < length pat then match_loop kvs path (Some e) (length pat)
      else match_loop kvs path ent best)"

definition match :: "string \<Rightarrow> 'u serve_mux \<Rightarrow> 'u request_cb option" where
  "match path m = map_option cb (match_loop m path None 0)"

definition mux_dispatch :: "request_impl \<Rightarrow> 'u serve_mux \<Rightarrow> 'u request_cb" where
  "mux_dispatch req m =
     (let p = uri_path (rq_uri req) in
      case match (uri_host (rq_uri req) @ p) m of
        Some f \<Rightarrow> f
      | None \<Rightarrow> (case match p m of Some f \<Rightarrow> f | None \<Rightarrow> status_handler 404))"

definition handler :: "request_impl \<Rightarrow> 'u serve_mux \<Rightarrow> pj_error + 'u request_cb" where
  "handler req m =
     (if rq_method req \<noteq> ''CONNECT'' then
        bind_pj (path_join [] [] (uri_path (rq_uri req)) []) (\<lambda>clean_path.
          if clean_path \<noteq> uri_path (rq_uri req) then
            (let new_uri = percent_encode_path clean_path;
                 q = raw_query (rq_uri req)
             in Inr (redirect_handler 301 (if q \<noteq> [] then new_uri @ ''?'' @ q else new_uri)))
          else Inr (mux_dispatch req m))
      else Inr (mux_dispatch req m))"

section \<open>Longest match\<close>

definition none_longer :: "(string \<times> 'u handler_entry) list \<Rightarrow> string \<Rightarrow> nat \<Rightarrow> bool" where
  "none_longer kvs path n \<longleftrightarrow> (\<forall>pat e. (pat, e) \<in> set kvs \<and> path_match pat path \<longrightarrow> length pat \<le> n)"

lemma none_longer_Cons [simp]:
  "none_longer ((pat, e) # kvs) path n \<longleftrightarrow> (path_match pat path \<longrightarrow> length pat \<le> n) \<and> none_longer kvs path n"
  by (auto simp: none_longer_def)

lemma match_loop_spec:
  assumes "match_loop kvs path ent best = Some e"
  shows "(ent = Some e \<and> none_longer kvs path best) \<or>
    (\<exists>pat. (pat, e) \<in> set kvs \<and> path_match pat path \<and> (ent \<noteq> None \<longrightarrow> best < length pat) \<and>
       none_longer kvs path (length pat))"
  using assms
proof (induction kvs path ent best rule: match_loop.induct)
  case (2 pat e' kvs path ent best)
  show ?case
  proof (cases "path_match pat path \<and> (ent = None \<or> best < length pat)")
    case True
    with "2.prems" have "match_loop kvs path (Some e') (length pat) = Some e" by simp
    with "2.IH"(2) True consider "e' = e" "none_longer kvs path (length pat)"
      | q where "(q, e) \<in> set kvs" "path_match q path" "length pat < length q" "none_longer kvs path (length q)"
      by auto
    then show ?thesis
    proof cases
      case 1
      with True show ?thesis by (intro disjI2 exI [of _ pat]) auto
    next
      case 2
      with True show ?thesis by (intro disjI2 exI [of _ q]) auto
    qed
  next
    case False
    then have l: "match_loop kvs path ent best = Some e" using "2.prems" by (auto split: if_splits)
    have "(ent = Some e \<and> none_longer kvs path best) \<or>
        (\<exists>pat. (pat, e) \<in> set kvs \<and> path_match pat path \<and> (ent \<noteq> None \<longrightarrow> best < length pat) \<and>
         none_longer kvs path (length pat))"
      using "2.IH"(1,3) l False by blast
    with False show ?thesis by auto
  qed
qed (simp add: none_longer_def)

lemma match_loop_None: "match_loop kvs path ent best = None \<longleftrightarrow> ent = None \<and> (\<forall>(pat, e) \<in> set kvs. \<not> path_match pat path)"
  by (induction kvs path ent best rule: match_loop.induct) auto

lemma path_match_same_length:
  "path_match p path \<Longrightarrow> path_match q path \<Longrightarrow> length p = length q \<Longrightarrow> p = q"
  by (auto simp: path_match_def starts_with_iff split: if_splits)

section \<open>The invariant of the table\<close>

definition entry_ok :: "string \<Rightarrow> 'u handler_entry \<Rightarrow> bool" where
  "entry_ok key e \<longleftrightarrow> key \<noteq> [] \<and>
     (if user_defined e then pattern e = key else pattern e = key @ ''/'')"

definition mux_ok :: "'u serve_mux \<Rightarrow> bool" where
  "mux_ok m \<longleftrightarrow> om_ok m \<and> om.all_entries entry_ok m"

lemma redirect_entry_ok:
  "length pat \<ge> 2 \<Longrightarrow> last pat = CHR ''/'' \<Longrightarrow> entry_ok (butlast pat) (redirect_entry pat)"
  using append_butlast_last_id [of pat]
  by (auto simp: entry_ok_def redirect_entry_def Let_def Suc_le_eq simp flip: length_0_conv)

lemma add_redirect_ok:
  assumes "mux_ok m"
  shows "mux_ok (add_redirect pat m)"
proof (cases "length pat \<ge> 2 \<and> last pat = CHR ''/''")
  case True
  have "om.all_entries entry_ok (fst (om_emplace (butlast pat) (redirect_entry pat) m))"
    "om.all_entries entry_ok (om_insert (butlast pat) (redirect_entry pat) m)"
    using assms True
    by (auto simp: mux_ok_def intro!: om.all_entries_emplace om.all_entries_put redirect_entry_ok)
  moreover have "om_ok (fst (om_emplace (butlast pat) (redirect_entry pat) m))"
    using assms om.inv_emplace by (auto simp: mux_ok_def)
  ultimately show ?thesis
    using True assms by (auto simp: add_redirect_def Let_def mux_ok_def split: option.split)
qed (use assms in \<open>auto simp: add_redirect_def\<close>)

lemma handle_ok: "mux_ok m \<Longrightarrow> mux_ok (snd (handle pat f m))"
  using add_redirect_ok [of m pat]
  by (auto simp: handle_def mux_ok_def entry_ok_def split: option.split
      intro!: om.all_entries_emplace om.inv_emplace)

lemma add_redirect_find:
  "om_find k (add_redirect pat m) =
     (if length pat \<ge> 2 \<and> last pat = CHR ''/'' \<and> k = butlast pat \<and>
         (case om_find k m of None \<Rightarrow> True | Some e \<Rightarrow> \<not> user_defined e)
      then Some (redirect_entry pat) else om_find k m)"
  by (auto simp: add_redirect_def Let_def om.find_emplace split: option.splits)

lemma match_Some_iff:
  assumes "om_ok m"
  shows "match path m = Some f \<longleftrightarrow>
    (\<exists>pat e. om_find pat m = Some e \<and> cb e = f \<and> path_match pat path \<and>
       (\<forall>pat' e'. om_find pat' m = Some e' \<and> path_match pat' path \<longrightarrow> length pat' \<le> length pat))"
    (is "_ \<longleftrightarrow> ?best f")
proof -
  have best: "?best (cb e)" if "match_loop m path None 0 = Some e" for e
    using match_loop_spec [OF that] unfolding none_longer_def om_find_mem [OF assms] by blast
  have unique: "f = g" if f: "?best f" and g: "?best g" for f g
  proof -
    obtain p e where p: "om_find p m = Some e" "cb e = f" "path_match p path"
      "\<And>q e'. om_find q m = Some e' \<Longrightarrow> path_match q path \<Longrightarrow> length q \<le> length p" using f by blast
    obtain q e' where q: "om_find q m = Some e'" "cb e' = g" "path_match q path"
      "\<And>p e. om_find p m = Some e \<Longrightarrow> path_match p path \<Longrightarrow> length p \<le> length q" using g by blast
    have "length p = length q" using p(4) [OF q(1,3)] q(4) [OF p(1,3)] by simp
    then have "p = q" using path_match_same_length p(3) q(3) by blast
    with p q show ?thesis by simp
  qed
  have none: "\<not> ?best f" if "match_loop m path None 0 = None" for f
    using that by (auto simp: match_loop_None om_find_mem [OF assms])
  show ?thesis
    using best unique none by (cases "match_loop m path None 0") (auto simp: match_def)
qed

lemma match_None_iff:
  "om_ok m \<Longrightarrow> match path m = None \<longleftrightarrow> (\<forall>pat e. om_find pat m = Some e \<longrightarrow> \<not> path_match pat path)"
  by (auto simp: match_def match_loop_None om_find_mem)

lemma handler_total: "\<exists>f. handler req m = Inr f"
  using path_join_total [of "[]" "[]" "uri_path (rq_uri req)" "[]"]
  by (auto simp: handler_def Let_def)

lemma find_handle:
  assumes "om_find pat m = None" "pat \<noteq> []"
  shows "om_find k (snd (handle pat (Some f) m)) =
    (if k = pat then Some \<lparr>user_defined = True, cb = f, pattern = pat\<rparr>
     else om_find k (add_redirect pat m))"
proof -
  have "pat \<noteq> butlast pat" using assms(2) by (metis append_butlast_last_id append_self_conv not_Cons_self2)
  then have "om_find pat (add_redirect pat m) = None" using assms(1) by (auto simp: add_redirect_find)
  then show ?thesis using assms by (simp add: handle_def om.find_emplace)
qed

section \<open>Properties\<close>

text \<open>
  C13: a path is routed to the handler of the longest registered pattern that matches it;
  no handler is found exactly when no pattern matches.
\<close>

theorem match_longest:
  assumes "om_ok m"
  shows "(match p m = Some f \<longleftrightarrow>
      (\<exists>pat e. om_find pat m = Some e \<and> cb e = f \<and> path_match pat p \<and>
         (\<forall>pat' e'. om_find pat' m = Some e' \<and> path_match pat' p \<longrightarrow> length pat' \<le> length pat))) \<and>
    (match p m = None \<longleftrightarrow> (\<forall>pat e. om_find pat m = Some e \<longrightarrow> \<not> path_match pat p))"
  using match_Some_iff [OF assms] match_None_iff [OF assms] by blast

theorem match_longest_witness:
  "om_ok [(''/'', redirect_entry ''/''), (''/a/'', redirect_entry ''/a/'') :: string \<times> unit handler_entry] \<and>
   match ''b'' [(''/'', redirect_entry ''/''), (''/a/'', redirect_entry ''/a/'') :: string \<times> unit handler_entry] = None"
proof -
  have ok: "om_ok [(''/'', redirect_entry ''/''), (''/a/'', redirect_entry ''/a/'') :: string \<times> unit handler_entry]"
    by simp
  from match_longest [OF ok, of "''b''"] ok show ?thesis by (auto simp: om_find_def path_match_def starts_with_iff)
qed

text \<open>
  C29: registering a handler under a pattern the table does not know succeeds: the entry is
  the given handler, every handler the application registered before is still there, and the table's
  invariant (sorted, no empty pattern, implicit redirects only for patterns ending with a slash) holds.
\<close>

theorem handle_registers:
  assumes "mux_ok m" "om_find pat m = None" "pat \<noteq> []"
  shows "fst (handle pat (Some f) m) \<and> mux_ok (snd (handle pat (Some f) m)) \<and>
    om_find pat (snd (handle pat (Some f) m)) = Some \<lparr>user_defined = True, cb = f, pattern = pat\<rparr> \<and>
    (om_find k m = Some e \<and> user_defined e \<longrightarrow> om_find k (snd (handle pat (Some f) m)) = Some e)"
proof (intro conjI)
  show "fst (handle pat (Some f) m)" using assms by (simp add: handle_def)
  show "mux_ok (snd (handle pat (Some f) m))" by (rule handle_ok [OF assms(1)])
qed (use find_handle [OF assms(2,3)] assms(2) in \<open>auto simp: add_redirect_find\<close>)

theorem handle_registers_witness:
  "mux_ok (snd (handle ''/a/'' (Some (status_handler 200)) ([] :: unit serve_mux)))"
  using handle_registers [of "[] :: unit serve_mux" "''/a/''"]
  by (simp add: mux_ok_def om.all_entries_empty)

text \<open>
  C38: registering a handler under a pattern that has an implicit redirect entry reports
  success but leaves the redirect in place: the handler is not stored.
\<close>

theorem handle_over_redirect_keeps_redirect:
  assumes "om_find pat m = Some e" "\<not> user_defined e" "pat \<noteq> []"
  shows "fst (handle pat (Some f) m) \<and> om_find pat (snd (handle pat (Some f) m)) = Some e"
proof -
  have "pat \<noteq> butlast pat" using assms(3) by (metis append_butlast_last_id append_self_conv not_Cons_self2)
  then have "om_find pat (add_redirect pat m) = Some e" using assms(1) by (auto simp: add_redirect_find)
  then show ?thesis using assms by (simp add: handle_def om.find_emplace)
qed

theorem handle_over_redirect_keeps_redirect_witness:
  "(let m = snd (handle ''/a/'' (Some (status_handler 200)) ([] :: unit serve_mux));
        m' = snd (handle ''/a'' (Some (status_handler 204)) m)
    in fst (handle ''/a'' (Some (status_handler 204)) m) \<and> om_find ''/a'' m' = Some (redirect_entry ''/a/''))"
proof -
  let ?m = "snd (handle ''/a/'' (Some (status_handler 200)) ([] :: unit serve_mux))"
  have e: "om_find ''/a'' ?m = Some (redirect_entry ''/a/'')"
    by (simp add: find_handle add_redirect_find)
  have "\<not> user_defined (redirect_entry ''/a/'' :: unit handler_entry)" by (simp add: redirect_entry_def)
  from handle_over_redirect_keeps_redirect [OF e this] show ?thesis by simp
qed





text \<open>
  The redirect handler answers with exactly the given location, and with one
  content-length field that is the decimal length of the body it then ends the response with; the
  body is the status page for GET and empty otherwise.
\<close>

theorem redirect_handler_consistent:
  "\<exists>h html. redirect_handler sc uri req strm u =
      (Response_op strm (Write_head (word_of_int sc) h) (Response_op strm (End_string html) Finish), u) \<and>
    hm_range ''location'' h = [plain_value uri] \<and>
    hm_range ''content-length'' h = [plain_value (utos (length html))] \<and>
    html = (if rq_method req = ''GET'' then create_html (unat (word_of_int sc :: u32)) else [])"
  by (simp add: redirect_handler_def Let_def hm_range_def)

end
