(* ===== verification/Http_Date.thy ===== *)
theory Http_Date
  imports Util "HOL-Library.Signed_Division"
begin

text \<open>
  \<open>lib/timegm.c\<close> and \<open>http_date\<close> of \<open>lib/util.cc\<close>: broken-down time to seconds since the
  epoch, and the date format of HTTP. \<open>gmtime_r\<close> of the C library, which \<open>http_date\<close> calls, is
  modelled by its calendar: it counts years from 1970 and months from January.
\<close>

section \<open>Broken-down time\<close>

record tm =
  tm_sec :: int
  tm_min :: int
  tm_hour :: int
  tm_mday :: int
  tm_mon :: int
  tm_year :: int
  tm_wday :: int
  tm_yday :: int

text \<open>C division truncates towards zero (\<open>sdiv\<close>) and \<open>%\<close> takes the sign of the dividend (\<open>smod\<close>).\<close>

definition count_leap_year :: "int \<Rightarrow> int" where
  "count_leap_year y = (let y = y - 1 in y sdiv 4 - y sdiv 100 + y sdiv 400)"

definition timegm_days :: "tm \<Rightarrow> int" where
  "timegm_days tm =
     (let num_leap_year = count_leap_year (tm_year tm + 1900) - count_leap_year 1970
      in (tm_year tm - 70) * 365 + num_leap_year + tm_yday tm)"

definition nghttp2_timegm :: "tm \<Rightarrow> int" where
  "nghttp2_timegm tm =
     (if tm_mon tm > 11 then -1
      else (timegm_days tm * 24 + tm_hour tm) * 3600 + tm_min tm * 60 + tm_sec tm)"

definition is_leap_year :: "int \<Rightarrow> bool" where
  "is_leap_year y \<longleftrightarrow> y smod 4 = 0 \<and> (y smod 100 \<noteq> 0 \<or> y smod 400 = 0)"

definition daysum :: "int list" where
  "daysum = [0, 31, 59, 90, 120, 151, 181, 212, 243, 273, 304, 334]"

definition nghttp2_timegm_without_yday :: "tm \<Rightarrow> int" where
  "nghttp2_timegm_without_yday tm =
     (if tm_mon tm > 11 then -1
      else
        (let num_leap_year = count_leap_year (tm_year tm + 1900) - count_leap_year 1970;
             days = (tm_year tm - 70) * 365 + num_leap_year + daysum ! nat (tm_mon tm) + tm_mday tm - 1;
             days = (if tm_mon tm \<ge> 2 \<and> is_leap_year (tm_year tm + 1900) then days + 1 else days)
         in (days * 24 + tm_hour tm) * 3600 + tm_min tm * 60 + tm_sec tm))"

section \<open>The calendar of the C library\<close>

definition leap :: "int \<Rightarrow> bool" where
  "leap y \<longleftrightarrow> 4 dvd y \<and> (\<not> 100 dvd y \<or> 400 dvd y)"

definition ydays :: "int \<Rightarrow> int" where
  "ydays y = (if leap y then 366 else 365)"

lemma ydays_bounds: "365 \<le> ydays y" "ydays y \<le> 366"
  by (simp_all add: ydays_def)

function gm_year :: "int \<Rightarrow> int \<Rightarrow> int \<times> int" where
  "gm_year y d =
     (if d < 0 then gm_year (y - 1) (d + ydays (y - 1))
      else if d < ydays y then (y, d)
      else gm_year (y + 1) (d - ydays y))"
  by auto
termination
proof (relation "measure (\<lambda>(y, d). nat (if d < 0 then 367 - d else d))", goal_cases)
  case (2 y d)
  then show ?case using ydays_bounds [of "y - 1"] by auto
next
  case (3 y d)
  then show ?case using ydays_bounds [of y] by auto
qed simp

declare gm_year.simps [simp del]

definition mdays :: "int \<Rightarrow> int list" where
  "mdays y = [31, if leap y then 29 else 28, 31, 30, 31, 30, 31, 31, 30, 31, 30, 31]"

fun gm_month :: "int list \<Rightarrow> int \<Rightarrow> int \<Rightarrow> int \<times> int" where
  "gm_month [] m d = (m, d)"
| "gm_month (n # ns) m d = (if d < n then (m, d) else gm_month ns (m + 1) (d - n))"

text \<open>Seconds of one day, Thursday 1 January 1970, and the year range of \<open>int\<close>.\<close>

definition gmtime_r :: "int \<Rightarrow> tm option" where
  "gmtime_r t =
     (let days = t div 86400; rem = t mod 86400;
          (y, yday) = gm_year 1970 days;
          (mon, mday) = gm_month (mdays y) 0 yday
      in if y - 1900 < - (2 ^ 31) \<or> 2 ^ 31 \<le> y - 1900 then None
         else Some \<lparr>tm_sec = rem mod 60, tm_min = rem div 60 mod 60, tm_hour = rem div 3600,
                tm_mday = mday + 1, tm_mon = mon, tm_year = y - 1900,
                tm_wday = (days + 4) mod 7, tm_yday = yday\<rparr>)"

section \<open>The date format\<close>

text \<open>\<open>cpydig\<close> writes \<open>len\<close> digits backwards; the argument is converted to \<open>uint32_t\<close>.\<close>

fun cpydig_loop :: "nat \<Rightarrow> nat \<Rightarrow> string \<Rightarrow> string" where
  "cpydig_loop 0 n acc = acc"
| "cpydig_loop (Suc len) n acc = cpydig_loop len (n div 10) (char_of (n mod 10 + 48) # acc)"

definition cpydig :: "int \<Rightarrow> nat \<Rightarrow> string" where
  "cpydig n len = cpydig_loop len (unat (word_of_int n :: u32)) []"

definition MONTH :: "string list" where
  "MONTH = [''Jan'', ''Feb'', ''Mar'', ''Apr'', ''May'', ''Jun'', ''Jul'', ''Aug'', ''Sep'', ''Oct'', ''Nov'', ''Dec'']"

definition DAY_OF_WEEK :: "string list" where
  "DAY_OF_WEEK = [''Sun'', ''Mon'', ''Tue'', ''Wed'', ''Thu'', ''Fri'', ''Sat'']"

definition format_tm :: "tm \<Rightarrow> string" where
  "format_tm tms =
     take 3 (DAY_OF_WEEK ! nat (tm_wday tms)) @ '', '' @ cpydig (tm_mday tms) 2 @ '' '' @
     take 3 (MONTH ! nat (tm_mon tms)) @ '' '' @ cpydig (tm_year tms + 1900) 4 @ '' '' @
     cpydig (tm_hour tms) 2 @ '':'' @ cpydig (tm_min tms) 2 @ '':'' @ cpydig (tm_sec tms) 2 @ '' GMT''"

text \<open>Where \<open>gmtime_r\<close> fails, the result keeps the 29 NUL bytes it was created with.\<close>

definition http_date :: "int \<Rightarrow> string" where
  "http_date t = (case gmtime_r t of None \<Rightarrow> replicate 29 CHR 0x00 | Some tms \<Rightarrow> format_tm tms)"

section \<open>Leap years\<close>

lemma is_leap_year_iff: "is_leap_year y \<longleftrightarrow> leap y"
proof -
  have "y smod k = 0 \<longleftrightarrow> k dvd y" if "0 < k" for k :: int
    using that by (auto simp: signed_modulo_int_def sgn_if dvd_eq_mod_eq_0 zmod_zminus1_eq_if split: if_splits dest: pos_mod_bound [of k y])
  then show ?thesis by (simp add: is_leap_year_def leap_def)
qed

definition leaps :: "int \<Rightarrow> int" where
  "leaps y = (y - 1) div 4 - (y - 1) div 100 + (y - 1) div 400"

lemma count_leap_year_leaps: "1 \<le> y \<Longrightarrow> count_leap_year y = leaps y"
  by (simp add: count_leap_year_def leaps_def Let_def signed_divide_int_def sgn_if)

lemma div_pred:
  assumes "0 < (k :: int)"
  shows "y div k = (y - 1) div k + (if k dvd y then 1 else 0)"
proof (cases "k dvd y")
  case True
  then obtain q where "y = k * q" by (rule dvdE)
  then have "(y - 1) div k = q - 1"
    using assms by (intro int_div_pos_eq [where r = "k - 1"]) (simp_all add: algebra_simps)
  with True \<open>y = k * q\<close> assms show ?thesis by simp
next
  case False
  then have "y mod k \<noteq> 0" by (simp add: dvd_eq_mod_eq_0)
  moreover have "0 \<le> y mod k" "y mod k < k" using assms by simp_all
  ultimately have "(y - 1) div k = y div k"
    by (intro int_div_pos_eq [where r = "y mod k - 1"]) (simp_all add: mult_div_mod_eq algebra_simps)
  with False show ?thesis by simp
qed

lemma leaps_Suc: "leaps (y + 1) = leaps y + (if leap y then 1 else 0)"
proof -
  have "100 dvd y \<Longrightarrow> 4 dvd y" "400 dvd y \<Longrightarrow> 100 dvd y"
    using dvd_trans [of 4 100 y] dvd_trans [of 100 400 y] by simp_all
  then have "(if leap y then 1 else 0 :: int) =
      (if 4 dvd y then 1 else 0) - (if 100 dvd y then 1 else 0) + (if 400 dvd y then 1 else 0)"
    unfolding leap_def by (cases "4 dvd y"; cases "100 dvd y"; cases "400 dvd y") simp_all
  then show ?thesis
    by (simp only: leaps_def add_diff_cancel_right' div_pred [of 4 y] div_pred [of 100 y] div_pred [of 400 y])
qed

definition days_before :: "int \<Rightarrow> int" where
  "days_before y = (y - 1970) * 365 + leaps y - leaps 1970"

lemma days_before_Suc: "days_before (y + 1) = days_before y + ydays y"
  by (simp add: days_before_def leaps_Suc ydays_def)

lemma gm_year_spec:
  "gm_year y d = (y', d') \<Longrightarrow> days_before y + d = days_before y' + d' \<and> 0 \<le> d' \<and> d' < ydays y'"
proof (induction y d rule: gm_year.induct)
  case (1 y d)
  show ?case
    using "1.IH" "1.prems" days_before_Suc [of y] days_before_Suc [of "y - 1"]
    by (subst (asm) (3) gm_year.simps) (auto split: if_splits)
qed

lemma gm_month_spec:
  assumes "gm_month (mdays y) 0 d = (m, r)" "0 \<le> d" "d < ydays y"
  shows "0 \<le> m \<and> m \<le> 11 \<and> 0 \<le> r \<and> r < 31 \<and> daysum ! nat m + (if 2 \<le> m \<and> leap y then 1 else 0) + r = d"
  using assms by (auto simp: mdays_def ydays_def daysum_def split: if_splits)

lemma seconds_split:
  "(h :: int) * 3600 + m * 60 + s = q \<Longrightarrow> t = days * 86400 + q \<Longrightarrow> t = (days * 24 + h) * 3600 + m * 60 + s"
  by simp

lemma gmtime_r_fields:
  assumes "gmtime_r t = Some tm"
  shows "t = ((days_before (tm_year tm + 1900) + tm_yday tm) * 24 + tm_hour tm) * 3600 + tm_min tm * 60 + tm_sec tm"
    and "0 \<le> tm_yday tm \<and> tm_yday tm < ydays (tm_year tm + 1900)"
    and "0 \<le> tm_sec tm \<and> tm_sec tm < 60 \<and> 0 \<le> tm_min tm \<and> tm_min tm < 60 \<and> 0 \<le> tm_hour tm \<and> tm_hour tm < 24"
    and "0 \<le> tm_mon tm \<and> tm_mon tm \<le> 11 \<and> 1 \<le> tm_mday tm \<and> tm_mday tm \<le> 31 \<and> 0 \<le> tm_wday tm \<and> tm_wday tm < 7"
    and "daysum ! nat (tm_mon tm) + (if 2 \<le> tm_mon tm \<and> leap (tm_year tm + 1900) then 1 else 0) + tm_mday tm - 1 = tm_yday tm"
proof -
  obtain y d where y: "gm_year 1970 (t div 86400) = (y, d)" by force
  obtain m r where m: "gm_month (mdays y) 0 d = (m, r)" by force
  have tm: "tm = \<lparr>tm_sec = t mod 86400 mod 60, tm_min = t mod 86400 div 60 mod 60, tm_hour = t mod 86400 div 3600,
      tm_mday = r + 1, tm_mon = m, tm_year = y - 1900, tm_wday = (t div 86400 + 4) mod 7, tm_yday = d\<rparr>"
    using assms by (simp add: gmtime_r_def y m Let_def split: if_splits)
  note ys = gm_year_spec [OF y]
  note ms = gm_month_spec [OF m]
  have "days_before 1970 = 0" by (simp add: days_before_def)
  with ys have d: "t div 86400 = days_before y + d" by simp
  define q where "q = t mod 86400"
  have q: "0 \<le> q" "q < 86400" by (simp_all add: q_def)
  have parts: "(q div 3600) * 3600 + (q div 60 mod 60) * 60 + q mod 60 = q" "q div 3600 < 24" "0 \<le> q div 3600"
  proof -
    have "q div 3600 = q div 60 div 60" using zdiv_zmult2_eq [of 60 q 60] by simp
    with div_mult_mod_eq [of q 60] div_mult_mod_eq [of "q div 60" 60]
    show "(q div 3600) * 3600 + (q div 60 mod 60) * 60 + q mod 60 = q" by linarith
    show "q div 3600 < 24" "0 \<le> q div 3600"
      using q div_mult_mod_eq [of q 3600] pos_mod_sign [of 3600 q] pos_mod_bound [of 3600 q] by linarith+
  qed
  have f: "tm_hour tm = q div 3600" "tm_min tm = q div 60 mod 60" "tm_sec tm = q mod 60" "tm_year tm + 1900 = y" "tm_yday tm = d"
    by (simp_all add: tm q_def)
  have "t = (days_before y + d) * 86400 + q" by (simp only: q_def d [symmetric] div_mult_mod_eq)
  with parts(1) show "t = ((days_before (tm_year tm + 1900) + tm_yday tm) * 24 + tm_hour tm) * 3600 + tm_min tm * 60 + tm_sec tm"
    unfolding f by (intro seconds_split)
  show "0 \<le> tm_yday tm \<and> tm_yday tm < ydays (tm_year tm + 1900)" using ys by (simp add: tm)
  show "0 \<le> tm_sec tm \<and> tm_sec tm < 60 \<and> 0 \<le> tm_min tm \<and> tm_min tm < 60 \<and> 0 \<le> tm_hour tm \<and> tm_hour tm < 24"
    using parts by (simp add: f)
  show "0 \<le> tm_mon tm \<and> tm_mon tm \<le> 11 \<and> 1 \<le> tm_mday tm \<and> tm_mday tm \<le> 31 \<and> 0 \<le> tm_wday tm \<and> tm_wday tm < 7"
    using ms ys by (simp add: tm)
  show "daysum ! nat (tm_mon tm) + (if 2 \<le> tm_mon tm \<and> leap (tm_year tm + 1900) then 1 else 0) + tm_mday tm - 1 = tm_yday tm"
    using ms ys by (simp add: tm)
qed

lemma timegm_days_before: "-1899 \<le> tm_year tm \<Longrightarrow> timegm_days tm = days_before (tm_year tm + 1900) + tm_yday tm"
  by (simp add: timegm_days_def days_before_def count_leap_year_leaps Let_def algebra_simps)

lemma timegm_gmtime:
  assumes "gmtime_r t = Some tm" "-1899 \<le> tm_year tm"
  shows "nghttp2_timegm tm = t" "nghttp2_timegm_without_yday tm = t"
  using gmtime_r_fields [OF assms(1)] assms(2)
  by (simp_all add: nghttp2_timegm_def timegm_days_before nghttp2_timegm_without_yday_def Let_def is_leap_year_iff
      days_before_def count_leap_year_leaps split: if_splits)

section \<open>Digits\<close>

lemma cpydig_loop_acc: "cpydig_loop len n (xs @ acc) = cpydig_loop len n xs @ acc"
  by (induction len n xs rule: cpydig_loop.induct) simp_all

lemma cpydig_loop_snoc: "cpydig_loop (Suc len) n [] = cpydig_loop len (n div 10) [] @ [char_of (n mod 10 + 48)]"
  using cpydig_loop_acc [of len "n div 10" "[]" "[char_of (n mod 10 + 48)]"] by simp

lemma length_cpydig [simp]: "length (cpydig n len) = len"
proof -
  have "length (cpydig_loop len m acc) = len + length acc" for m acc
    by (induction len arbitrary: m acc) simp_all
  then show ?thesis by (simp add: cpydig_def)
qed

lemma dec_value_cpydig_loop: "dec_value (cpydig_loop len n []) = n mod 10 ^ len"
proof (induction len arbitrary: n)
  case (Suc len)
  have "n mod 10 < 10" by simp
  then have "(of_char (char_of (n mod 10 + 48) :: char) :: nat) = n mod 10 + 48" using is_digit_char by blast
  then show ?case
    unfolding cpydig_loop_snoc dec_value_snoc Suc
    using mod_mult2_eq [of n 10 "10 ^ len"] by simp
qed (simp add: dec_value_def)

lemma cpydig_inject:
  assumes "cpydig a len = cpydig b len" "0 \<le> a" "0 \<le> b" "a < 10 ^ len" "b < 10 ^ len" "len \<le> 4"
  shows "a = b"
proof -
  have "(10 :: int) ^ len \<le> 10 ^ 4" using assms(6) by (intro power_increasing) auto
  then have "a < 2 ^ 32" "b < 2 ^ 32" using assms(4,5) by simp_all
  then have u: "unat (word_of_int a :: u32) = nat a" "unat (word_of_int b :: u32) = nat b"
    using assms(2,3) by (simp_all add: unat_eq_nat_uint uint_word_of_int)
  have "nat a mod 10 ^ len = nat b mod 10 ^ len"
    using arg_cong [OF assms(1), of dec_value] by (simp add: cpydig_def dec_value_cpydig_loop u)
  moreover have "nat a < 10 ^ len" "nat b < 10 ^ len" using assms(2-5) by (simp_all add: nat_less_iff)
  ultimately show ?thesis using assms(2,3) by simp
qed

section \<open>Formatting\<close>

lemma month_name: "0 \<le> m \<Longrightarrow> m \<le> 11 \<Longrightarrow> MONTH ! nat m \<in> set MONTH \<and> length (MONTH ! nat m) = 3"
proof -
  assume "0 \<le> m" "m \<le> 11"
  then have "MONTH ! nat m \<in> set MONTH" by (intro nth_mem) (simp add: MONTH_def)
  moreover have "\<forall>s \<in> set MONTH. length s = 3" by (simp add: MONTH_def)
  ultimately show ?thesis by blast
qed

lemma day_name: "0 \<le> d \<Longrightarrow> d < 7 \<Longrightarrow> length (DAY_OF_WEEK ! nat d) = 3"
proof -
  assume "0 \<le> d" "d < 7"
  then have "DAY_OF_WEEK ! nat d \<in> set DAY_OF_WEEK" by (intro nth_mem) (simp add: DAY_OF_WEEK_def)
  moreover have "\<forall>s \<in> set DAY_OF_WEEK. length s = 3" by (simp add: DAY_OF_WEEK_def)
  ultimately show ?thesis by blast
qed

lemma length_format_tm: "gmtime_r t = Some tm \<Longrightarrow> length (format_tm tm) = 29"
  using gmtime_r_fields(4) [of t tm] month_name [of "tm_mon tm"] day_name [of "tm_wday tm"]
  by (simp add: format_tm_def)

lemma month_inject:
  assumes "MONTH ! nat m = MONTH ! nat m'" "0 \<le> m" "m \<le> 11" "0 \<le> m'" "m' \<le> 11"
  shows "m = m'"
proof -
  have "distinct MONTH" by (simp add: MONTH_def)
  then have "nat m = nat m'" using assms by (subst (asm) nth_eq_iff_index_eq) (auto simp: MONTH_def)
  with assms show ?thesis by simp
qed

lemma format_tm_inject:
  assumes "gmtime_r t = Some a" "gmtime_r t' = Some b" "format_tm a = format_tm b"
    "0 \<le> tm_year a + 1900" "tm_year a + 1900 < 10000" "0 \<le> tm_year b + 1900" "tm_year b + 1900 < 10000"
  shows "tm_mday a = tm_mday b \<and> tm_mon a = tm_mon b \<and> tm_year a = tm_year b \<and> tm_hour a = tm_hour b \<and>
    tm_min a = tm_min b \<and> tm_sec a = tm_sec b"
proof -
  note fa = gmtime_r_fields [OF assms(1)] and fb = gmtime_r_fields [OF assms(2)]
  note na = month_name [of "tm_mon a"] day_name [of "tm_wday a"] and nb = month_name [of "tm_mon b"] day_name [of "tm_wday b"]
  have eqs: "cpydig (tm_mday a) 2 = cpydig (tm_mday b) 2" "MONTH ! nat (tm_mon a) = MONTH ! nat (tm_mon b)"
    "cpydig (tm_year a + 1900) 4 = cpydig (tm_year b + 1900) 4" "cpydig (tm_hour a) 2 = cpydig (tm_hour b) 2"
    "cpydig (tm_min a) 2 = cpydig (tm_min b) 2" "cpydig (tm_sec a) 2 = cpydig (tm_sec b) 2"
    using assms(3) na nb fa(4) fb(4) by (simp_all add: format_tm_def)
  have "tm_mon a = tm_mon b" using eqs(2) fa(4) fb(4) by (intro month_inject) auto
  moreover have "tm_mday a = tm_mday b" using fa(4) fb(4) by (intro cpydig_inject [OF eqs(1)]) auto
  moreover have "tm_year a + 1900 = tm_year b + 1900" using assms(4-7) by (intro cpydig_inject [OF eqs(3)]) auto
  moreover have "tm_hour a = tm_hour b" using fa(3) fb(3) by (intro cpydig_inject [OF eqs(4)]) auto
  moreover have "tm_min a = tm_min b" using fa(3) fb(3) by (intro cpydig_inject [OF eqs(5)]) auto
  moreover have "tm_sec a = tm_sec b" using fa(3) fb(3) by (intro cpydig_inject [OF eqs(6)]) auto
  ultimately show ?thesis by simp
qed

lemma days_before_mono: "y \<le> y' \<Longrightarrow> days_before y \<le> days_before y'"
proof (induction y' rule: int_ge_induct)
  case (step i)
  then show ?case using days_before_Suc [of i] ydays_bounds [of i] by simp
qed simp

lemma gmtime_r_year:
  assumes "0 \<le> t" "t < 253402300800"
  obtains tm where "gmtime_r t = Some tm" "70 \<le> tm_year tm" "tm_year tm + 1900 < 10000"
proof -
  obtain y d where y: "gm_year 1970 (t div 86400) = (y, d)" by force
  have d0: "days_before 1970 = 0" and d1: "days_before 10000 = 2932897" by (simp_all add: days_before_def leaps_def)
  note ys = gm_year_spec [OF y]
  have t: "0 \<le> t div 86400" "t div 86400 < 2932897"
    using assms zdiv_mono1 [of t "2932897 * 86400 - 1" 86400] by (simp_all add: div_int_pos_iff)
  have lo: "1970 \<le> y"
  proof (rule ccontr)
    assume "\<not> 1970 \<le> y"
    then have "days_before (y + 1) \<le> days_before 1970" by (intro days_before_mono) simp
    with ys t d0 show False by (simp add: days_before_Suc)
  qed
  have hi: "y < 10000"
  proof (rule ccontr)
    assume "\<not> y < 10000"
    then have "days_before 10000 \<le> days_before y" by (intro days_before_mono) simp
    with ys t d0 d1 show False by simp
  qed
  obtain m r where m: "gm_month (mdays y) 0 d = (m, r)" by force
  show ?thesis
  proof (rule that)
    show "gmtime_r t = Some \<lparr>tm_sec = t mod 86400 mod 60, tm_min = t mod 86400 div 60 mod 60,
      tm_hour = t mod 86400 div 3600, tm_mday = r + 1, tm_mon = m, tm_year = y - 1900,
      tm_wday = (t div 86400 + 4) mod 7, tm_yday = d\<rparr>"
      using lo hi by (simp add: gmtime_r_def y m Let_def)
  qed (use lo hi in simp_all)
qed

section \<open>Properties\<close>



text \<open>
  \<open>http_date\<close> writes exactly the 29 bytes its buffer has, and two different times
  before the year 10000 never get the same date string.
\<close>

theorem http_date_injective:
  assumes "0 \<le> t" "t < 253402300800" "0 \<le> t'" "t' < 253402300800" "http_date t = http_date t'"
  shows "t = t' \<and> length (http_date t) = 29"
proof -
  obtain a where a: "gmtime_r t = Some a" "70 \<le> tm_year a" "tm_year a + 1900 < 10000"
    using gmtime_r_year [OF assms(1,2)] .
  obtain b where b: "gmtime_r t' = Some b" "70 \<le> tm_year b" "tm_year b + 1900 < 10000"
    using gmtime_r_year [OF assms(3,4)] .
  have "format_tm a = format_tm b" using assms(5) a(1) b(1) by (simp add: http_date_def)
  then have "nghttp2_timegm_without_yday a = nghttp2_timegm_without_yday b"
    using format_tm_inject [OF a(1) b(1)] a b by (simp add: nghttp2_timegm_without_yday_def)
  then have "t = t'" using timegm_gmtime(2) [OF a(1)] timegm_gmtime(2) [OF b(1)] a b by simp
  with length_format_tm [OF a(1)] a(1) show ?thesis by (simp add: http_date_def)
qed

theorem http_date_injective_witness:
  "http_date 1411799475 = ''Sat, 27 Sep 2014 06:31:15 GMT'' \<and> length (http_date 1411799475) = 29"
proof -
  have g: "gmtime_r 1411799475 = Some \<lparr>tm_sec = 15, tm_min = 31, tm_hour = 6, tm_mday = 27, tm_mon = 8,
    tm_year = 114, tm_wday = 6, tm_yday = 269\<rparr>"
    by (simp add: gmtime_r_def gm_year.simps ydays_def leap_def mdays_def)
  have "http_date 1411799475 = ''Sat, 27 Sep 2014 06:31:15 GMT''"
    unfolding http_date_def g option.case by code_simp
  with http_date_injective [of 1411799475 1411799475] show ?thesis by simp
qed

end
