(* ===== verification/Server_Handler.thy ===== *)
theory Server_Handler
  imports Nghttp2 Serve_Mux Http_Date
begin

text \<open>
  \<open>lib/asio_server_http2_handler.*\<close>, the operations of \<open>lib/asio_server_response_impl.cc\<close>
  and the callbacks of the server: the stream table, the response state machine, request
  assembly and dispatch, server push, and reading from and writing to the nghttp2 session.
\<close>

section \<open>State\<close>

text \<open>
  \<open>posted\<close> counts the \<open>initiate_write\<close> tasks posted to the io service and not yet run;
  \<open>app_state\<close> is the state of the application the callbacks belong to. The bytes \<open>buf_\<close> and
  \<open>buflen_\<close> denote are \<open>pending\<close>.
\<close>

record ('s, 'u) http2_handler =
  streams :: "(int, stream) omap"
  session :: 's
  pending :: "string option"
  inside_callback :: bool
  write_signaled :: bool
  tstamp_cached :: int
  formatted_date :: string
  remote_endpoint :: string
  posted :: nat
  app_state :: 'u

text \<open>
  What a handler works with and does not change: the library, the multiplexer, the application's
  callbacks and the clock (\<open>time(nullptr)\<close>).
\<close>

record ('s, 'u) server_env =
  lib :: "'s nghttp2"
  mux :: "'u serve_mux"
  user_cbs :: "'u user_cbs"
  now :: int

definition http2_handler_new :: "('s, 'u) server_env \<Rightarrow> string \<Rightarrow> 's \<Rightarrow> 'u \<Rightarrow> ('s, 'u) http2_handler" where
  "http2_handler_new E ep null_session u =
     \<lparr>streams = [], session = null_session, pending = None, inside_callback = False,
      write_signaled = False, tstamp_cached = now E, formatted_date = http_date (now E),
      remote_endpoint = ep, posted = 0, app_state = u\<rparr>"

text \<open>\<open>http2_handler::start\<close>; \<open>NGHTTP2_SETTINGS_MAX_CONCURRENT_STREAMS\<close> is setting 3.\<close>

definition handler_start :: "('s, 'u) server_env \<Rightarrow> ('s, 'u) http2_handler \<Rightarrow> int \<times> ('s, 'u) http2_handler" where
  "handler_start E h =
     (case session_new (lib E) of (rv, s) \<Rightarrow>
        if rv \<noteq> 0 then (-1, h)
        else (0, h\<lparr>session := submit_settings (lib E) [(3, 100)] s\<rparr>))"

section \<open>The stream table\<close>

definition create_stream :: "int \<Rightarrow> ('s, 'u) http2_handler \<Rightarrow> fault + ('s, 'u) http2_handler" where
  "create_stream sid h =
     (case om_emplace sid stream_new (streams h) of (m, inserted) \<Rightarrow>
        if inserted then Inr (h\<lparr>streams := m\<rparr>) else Inl Duplicate_stream)"

definition close_stream :: "int \<Rightarrow> ('s, 'u) http2_handler \<Rightarrow> ('s, 'u) http2_handler" where
  "close_stream sid h = h\<lparr>streams := om_erase sid (streams h)\<rparr>"

definition find_stream :: "int \<Rightarrow> ('s, 'u) http2_handler \<Rightarrow> stream option" where
  "find_stream sid h = om_find sid (streams h)"

text \<open>Access through the stream pointer an object holds.\<close>

definition the_stream :: "int \<Rightarrow> ('s, 'u) http2_handler \<Rightarrow> fault + stream" where
  "the_stream sid h = (case find_stream sid h of Some s \<Rightarrow> Inr s | None \<Rightarrow> Inl Dangling_stream)"

definition put_stream :: "int \<Rightarrow> stream \<Rightarrow> ('s, 'u) http2_handler \<Rightarrow> ('s, 'u) http2_handler" where
  "put_stream sid s h = h\<lparr>streams := om_insert sid s (streams h)\<rparr>"

definition upd_response ::
    "int \<Rightarrow> (response_impl \<Rightarrow> response_impl) \<Rightarrow> ('s, 'u) http2_handler \<Rightarrow> fault + ('s, 'u) http2_handler" where
  "upd_response sid f h =
     bind_f (the_stream sid h) (\<lambda>s. Inr (put_stream sid (s\<lparr>strm_response := f (strm_response s)\<rparr>) h))"

definition upd_request ::
    "int \<Rightarrow> (request_impl \<Rightarrow> request_impl) \<Rightarrow> ('s, 'u) http2_handler \<Rightarrow> fault + ('s, 'u) http2_handler" where
  "upd_request sid f h =
     bind_f (the_stream sid h) (\<lambda>s. Inr (put_stream sid (s\<lparr>strm_request := f (strm_request s)\<rparr>) h))"

section \<open>Submitting to the library\<close>

definition signal_write :: "('s, 'u) http2_handler \<Rightarrow> ('s, 'u) http2_handler" where
  "signal_write h =
     (if \<not> inside_callback h \<and> \<not> write_signaled h
      then h\<lparr>write_signaled := True, posted := posted h + 1\<rparr> else h)"

definition handler_http_date :: "('s, 'u) server_env \<Rightarrow> ('s, 'u) http2_handler \<Rightarrow> string \<times> ('s, 'u) http2_handler" where
  "handler_http_date E h =
     (let h = (if now E \<noteq> tstamp_cached h
               then h\<lparr>tstamp_cached := now E, formatted_date := http_date (now E)\<rparr> else h)
      in (formatted_date h, h))"

definition header_nva :: "header_map \<Rightarrow> nghttp2_nv list" where
  "header_nva hm = map (\<lambda>(k, v). make_nv k (hvalue v) (sensitive v)) hm"

definition response_nva :: "response_impl \<Rightarrow> string \<Rightarrow> nghttp2_nv list" where
  "response_nva res date =
     make_nv_ls '':status'' (utos (unat (rs_status_code res))) # make_nv_ls ''date'' date #
     header_nva (rs_header res)"

definition start_response ::
    "('s, 'u) server_env \<Rightarrow> int \<Rightarrow> stream \<Rightarrow> ('s, 'u) http2_handler \<Rightarrow> int \<times> ('s, 'u) http2_handler" where
  "start_response E sid s h =
     (let (date, h1) = handler_http_date E h;
          res = strm_response s;
          prd = expect_response_body (rq_method (strm_request s)) (sint (rs_status_code res));
          (rv, ses) = submit_response (lib E) sid (response_nva res date) prd (session h1);
          h2 = h1\<lparr>session := ses\<rparr>
      in if rv \<noteq> 0 then (-1, h2) else (0, signal_write h2))"

definition submit_trailer ::
    "('s, 'u) server_env \<Rightarrow> int \<Rightarrow> header_map \<Rightarrow> ('s, 'u) http2_handler \<Rightarrow> int \<times> ('s, 'u) http2_handler" where
  "submit_trailer E sid hm h =
     (let (rv, ses) = lib_submit_trailer (lib E) sid (header_nva hm) (session h);
          h1 = h\<lparr>session := ses\<rparr>
      in if rv \<noteq> 0 then (-1, h1) else (0, signal_write h1))"

definition stream_error ::
    "('s, 'u) server_env \<Rightarrow> int \<Rightarrow> u32 \<Rightarrow> ('s, 'u) http2_handler \<Rightarrow> ('s, 'u) http2_handler" where
  "stream_error E sid ec h = signal_write (h\<lparr>session := submit_rst_stream (lib E) sid ec (session h)\<rparr>)"

definition handler_resume :: "('s, 'u) server_env \<Rightarrow> int \<Rightarrow> ('s, 'u) http2_handler \<Rightarrow> ('s, 'u) http2_handler" where
  "handler_resume E sid h = signal_write (h\<lparr>session := resume_data (lib E) sid (session h)\<rparr>)"

section \<open>The response state machine\<close>

definition res_start_response ::
    "('s, 'u) server_env \<Rightarrow> int \<Rightarrow> ('s, 'u) http2_handler \<Rightarrow> fault + ('s, 'u) http2_handler" where
  "res_start_response E sid h =
     bind_f (the_stream sid h) (\<lambda>s.
     bind_f (if \<not> expect_response_body (rq_method (strm_request s)) (sint (rs_status_code (strm_response s)))
             then upd_response sid (\<lambda>r. r\<lparr>rs_state := BODY_STARTED\<rparr>) h else Inr h) (\<lambda>h1.
     bind_f (the_stream sid h1) (\<lambda>s1.
       case start_response E sid s1 h1 of (rv, h2) \<Rightarrow>
         if rv \<noteq> 0 then Inr (stream_error E sid NGHTTP2_INTERNAL_ERROR h2) else Inr h2)))"

definition write_head ::
    "('s, 'u) server_env \<Rightarrow> int \<Rightarrow> u32 \<Rightarrow> header_map \<Rightarrow> ('s, 'u) http2_handler \<Rightarrow> fault + ('s, 'u) http2_handler" where
  "write_head E sid sc hm h =
     bind_f (the_stream sid h) (\<lambda>s.
       let res = strm_response s in
       if rs_state res \<noteq> INITIAL then Inr h
       else
         bind_f (upd_response sid (\<lambda>r. r\<lparr>rs_status_code := sc, rs_header := hm, rs_state := HEADER_DONE\<rparr>) h) (\<lambda>h1.
           if rs_pushed res \<and> \<not> rs_push_promise_sent res then Inr h1 else res_start_response E sid h1))"

definition end_generator ::
    "('s, 'u) server_env \<Rightarrow> int \<Rightarrow> generator_cb option \<Rightarrow> ('s, 'u) http2_handler \<Rightarrow> fault + ('s, 'u) http2_handler" where
  "end_generator E sid g h =
     bind_f (the_stream sid h) (\<lambda>s.
       let res = strm_response s in
       if rs_state res = BODY_STARTED then Inr h
       else
         bind_f (upd_response sid (\<lambda>r. r\<lparr>rs_generator := g\<rparr>) h) (\<lambda>h1.
         bind_f (if rs_state res = INITIAL then write_head E sid (rs_status_code res) [] h1
                 else Inr (handler_resume E sid h1))
           (upd_response sid (\<lambda>r. r\<lparr>rs_state := BODY_STARTED\<rparr>))))"

definition end_string ::
    "('s, 'u) server_env \<Rightarrow> int \<Rightarrow> string \<Rightarrow> ('s, 'u) http2_handler \<Rightarrow> fault + ('s, 'u) http2_handler" where
  "end_string E sid data h = end_generator E sid (Some (string_generator data)) h"

definition push_promise_was_sent ::
    "('s, 'u) server_env \<Rightarrow> int \<Rightarrow> ('s, 'u) http2_handler \<Rightarrow> fault + ('s, 'u) http2_handler" where
  "push_promise_was_sent E sid h =
     bind_f (the_stream sid h) (\<lambda>s.
       let res = strm_response s in
       if rs_push_promise_sent res then Inr h
       else
         bind_f (upd_response sid (\<lambda>r. r\<lparr>rs_push_promise_sent := True\<rparr>) h) (\<lambda>h1.
           if rs_state res = INITIAL then Inr h1 else res_start_response E sid h1))"

definition run_res_op ::
    "('s, 'u) server_env \<Rightarrow> int \<Rightarrow> res_op \<Rightarrow> ('s, 'u) http2_handler \<Rightarrow> fault + ('s, 'u) http2_handler" where
  "run_res_op E sid op h =
     (case op of
        Write_head sc hm \<Rightarrow> write_head E sid sc hm h
      | End_string data \<Rightarrow> end_string E sid data h
      | End_generator g \<Rightarrow> end_generator E sid g h
      | Write_trailer hm \<Rightarrow> bind_f (the_stream sid h) (\<lambda>_. Inr (snd (submit_trailer E sid hm h)))
      | On_close c \<Rightarrow> upd_response sid (\<lambda>r. r\<lparr>rs_close_cb := c\<rparr>) h
      | Resume \<Rightarrow> bind_f (the_stream sid h) (\<lambda>_. Inr (handler_resume E sid h))
      | Cancel ec \<Rightarrow> bind_f (the_stream sid h) (\<lambda>_. Inr (stream_error E sid ec h)))"

section \<open>Server push\<close>

definition push_nva :: "string \<Rightarrow> uri_ref \<Rightarrow> string \<Rightarrow> header_map \<Rightarrow> nghttp2_nv list" where
  "push_nva meth uri raw_path_query hm =
     make_nv_ls '':method'' meth # make_nv_ls '':scheme'' (uri_scheme uri) #
     make_nv_ls '':authority'' (uri_host uri) # make_nv_ls '':path'' raw_path_query # header_nva hm"

definition push_promise ::
    "('s, 'u) server_env \<Rightarrow> int \<Rightarrow> string \<Rightarrow> string \<Rightarrow> header_map \<Rightarrow> ('s, 'u) http2_handler
     \<Rightarrow> fault + (error_code \<times> int option \<times> ('s, 'u) http2_handler)" where
  "push_promise E sid meth raw_path_query hm h =
     bind_f (the_stream sid h) (\<lambda>s.
       let uri = rq_uri (strm_request s);
           (rv, ses) = submit_push_promise (lib E) sid (push_nva meth uri raw_path_query hm) (session h);
           h1 = h\<lparr>session := ses\<rparr>
       in if rv < 0 then Inr (make_error_code rv, None, h1)
          else
            bind_f (create_stream rv h1) (\<lambda>h2.
            bind_f (upd_request rv (\<lambda>r. r\<lparr>rq_header := hm, rq_method := meth,
                      rq_uri := split_path ((rq_uri r)\<lparr>uri_scheme := uri_scheme uri, uri_host := uri_host uri\<rparr>)
                                  raw_path_query\<rparr>) h2) (\<lambda>h3.
            bind_f (upd_response rv (\<lambda>r. r\<lparr>rs_pushed := True\<rparr>) h3) (\<lambda>h4.
              Inr (ec_clear, Some rv, signal_write h4)))))"

section \<open>Running application code\<close>

primrec run_prog ::
    "('s, 'u) server_env \<Rightarrow> 'u user_prog \<Rightarrow> ('s, 'u) http2_handler \<Rightarrow> fault + ('s, 'u) http2_handler" where
  "run_prog E Finish h = Inr h"
| "run_prog E (Response_op sid op k) h = bind_f (run_res_op E sid op h) (run_prog E k)"
| "run_prog E (On_data sid c k) h = bind_f (upd_request sid (\<lambda>r. r\<lparr>on_data_cb := c\<rparr>) h) (run_prog E k)"
| "run_prog E (Push sid meth raw hm k) h =
     bind_f (push_promise E sid meth raw hm h) (\<lambda>(ec, r, h'). run_prog E (k ec r) h')"
| "run_prog E (Look_stream sid k) h = bind_f (the_stream sid h) (\<lambda>s. run_prog E (k (view_request (strm_request s)) (view_status_code (strm_response s))) h)"
| "run_prog E (Set_state f k) h = run_prog E k (h\<lparr>app_state := f (app_state h)\<rparr>)"

definition run_user ::
    "('s, 'u) server_env \<Rightarrow> ('u \<Rightarrow> 'u user_prog \<times> 'u) \<Rightarrow> ('s, 'u) http2_handler \<Rightarrow> fault + ('s, 'u) http2_handler" where
  "run_user E f h = (case f (app_state h) of (p, u) \<Rightarrow> run_prog E p (h\<lparr>app_state := u\<rparr>))"

definition run_callback ::
    "('s, 'u) server_env \<Rightarrow> callback option \<Rightarrow> cb_arg \<Rightarrow> ('s, 'u) http2_handler \<Rightarrow> fault + ('s, 'u) http2_handler" where
  "run_callback E c arg h = (case c of None \<Rightarrow> Inr h | Some c \<Rightarrow> run_user E (user_cbs E c arg) h)"

definition call_on_data ::
    "('s, 'u) server_env \<Rightarrow> int \<Rightarrow> string \<Rightarrow> ('s, 'u) http2_handler \<Rightarrow> fault + ('s, 'u) http2_handler" where
  "call_on_data E sid data h =
     bind_f (the_stream sid h) (\<lambda>s. run_callback E (on_data_cb (strm_request s)) (Data_arg data) h)"

definition call_on_request ::
    "('s, 'u) server_env \<Rightarrow> int \<Rightarrow> ('s, 'u) http2_handler \<Rightarrow> fault + ('s, 'u) http2_handler" where
  "call_on_request E sid h =
     bind_f (the_stream sid h) (\<lambda>s.
       case handler (strm_request s) (mux E) of
         Inl _ \<Rightarrow> Inl Path_fault
       | Inr f \<Rightarrow> run_user E (f (strm_request s) sid) h)"

section \<open>Callbacks of the library\<close>

definition store_header :: "string \<Rightarrow> string \<Rightarrow> u8 \<Rightarrow> request_impl \<Rightarrow> request_impl" where
  "store_header name val flags req =
     (let req = update_header_buffer_size (length name + length val) req
      in req\<lparr>rq_header := hm_emplace name \<lparr>hvalue = val, sensitive = flags AND NGHTTP2_NV_FLAG_NO_INDEX \<noteq> 0\<rparr>
               (rq_header req)\<rparr>)"

text \<open>The part of \<open>on_header_callback\<close> after the stream was found; \<open>False\<close> is the 64 KiB limit.\<close>

definition recv_header :: "string \<Rightarrow> string \<Rightarrow> u8 \<Rightarrow> request_impl \<Rightarrow> request_impl \<times> bool" where
  "recv_header name val flags req =
     (let uref = rq_uri req;
          tok = lookup_token name;
          add = (\<lambda>req. if header_buffer_size req + length name + length val > 65536 then (req, False)
                       else (store_header name val flags req, True))
      in case tok of
           Some HD__METHOD \<Rightarrow> (req\<lparr>rq_method := val\<rparr>, True)
         | Some HD__SCHEME \<Rightarrow> (req\<lparr>rq_uri := uref\<lparr>uri_scheme := val\<rparr>\<rparr>, True)
         | Some HD__AUTHORITY \<Rightarrow> (req\<lparr>rq_uri := uref\<lparr>uri_host := val\<rparr>\<rparr>, True)
         | Some HD__PATH \<Rightarrow> (req\<lparr>rq_uri := split_path uref val\<rparr>, True)
         | Some HD_HOST \<Rightarrow> add (if uri_host uref = [] then req\<lparr>rq_uri := uref\<lparr>uri_host := val\<rparr>\<rparr> else req)
         | _ \<Rightarrow> add req)"

definition on_begin_headers_callback ::
    "nghttp2_frame \<Rightarrow> ('s, 'u) http2_handler \<Rightarrow> fault + ('s, 'u) http2_handler" where
  "on_begin_headers_callback fr h =
     (if hd_type fr \<noteq> HEADERS \<or> headers_cat fr \<noteq> HCAT_REQUEST then Inr h
      else create_stream (hd_stream_id fr) h)"

definition on_header_callback ::
    "('s, 'u) server_env \<Rightarrow> nghttp2_frame \<Rightarrow> string \<Rightarrow> string \<Rightarrow> u8 \<Rightarrow> ('s, 'u) http2_handler
     \<Rightarrow> fault + ('s, 'u) http2_handler" where
  "on_header_callback E fr name val flags h =
     (if hd_type fr \<noteq> HEADERS \<or> headers_cat fr \<noteq> HCAT_REQUEST then Inr h
      else case find_stream (hd_stream_id fr) h of
        None \<Rightarrow> Inr h
      | Some s \<Rightarrow>
          (case recv_header name val flags (strm_request s) of (req, ok) \<Rightarrow>
             let h1 = put_stream (hd_stream_id fr) (s\<lparr>strm_request := req\<rparr>) h
             in Inr (if ok then h1
                     else h1\<lparr>session := submit_rst_stream (lib E) (hd_stream_id fr) NGHTTP2_INTERNAL_ERROR (session h1)\<rparr>)))"

definition end_stream :: "nghttp2_frame \<Rightarrow> bool" where
  "end_stream fr \<longleftrightarrow> hd_flags fr AND NGHTTP2_FLAG_END_STREAM \<noteq> 0"

definition on_frame_recv_callback ::
    "('s, 'u) server_env \<Rightarrow> nghttp2_frame \<Rightarrow> ('s, 'u) http2_handler \<Rightarrow> fault + ('s, 'u) http2_handler" where
  "on_frame_recv_callback E fr h =
     (let sid = hd_stream_id fr in
      case find_stream sid h of
        None \<Rightarrow> Inr h
      | Some s \<Rightarrow>
          (case hd_type fr of
             DATA \<Rightarrow> if end_stream fr then call_on_data E sid [] h else Inr h
           | HEADERS \<Rightarrow>
               if headers_cat fr \<noteq> HCAT_REQUEST then Inr h
               else
                 bind_f (upd_request sid (\<lambda>r. r\<lparr>remote_ep := remote_endpoint h\<rparr>) h) (\<lambda>h1.
                 bind_f (call_on_request E sid h1) (\<lambda>h2.
                   if end_stream fr then call_on_data E sid [] h2 else Inr h2))
           | _ \<Rightarrow> Inr h))"

definition on_data_chunk_recv_callback ::
    "('s, 'u) server_env \<Rightarrow> int \<Rightarrow> string \<Rightarrow> ('s, 'u) http2_handler \<Rightarrow> fault + ('s, 'u) http2_handler" where
  "on_data_chunk_recv_callback E sid data h =
     (case find_stream sid h of None \<Rightarrow> Inr h | Some s \<Rightarrow> call_on_data E sid data h)"

definition on_stream_close_callback ::
    "('s, 'u) server_env \<Rightarrow> int \<Rightarrow> u32 \<Rightarrow> ('s, 'u) http2_handler \<Rightarrow> fault + ('s, 'u) http2_handler" where
  "on_stream_close_callback E sid ec h =
     (case find_stream sid h of
        None \<Rightarrow> Inr h
      | Some s \<Rightarrow>
          bind_f (run_callback E (rs_close_cb (strm_response s)) (Close_arg ec) h) (\<lambda>h1.
            Inr (close_stream sid h1)))"

definition on_frame_send_callback ::
    "('s, 'u) server_env \<Rightarrow> nghttp2_frame \<Rightarrow> ('s, 'u) http2_handler \<Rightarrow> fault + ('s, 'u) http2_handler" where
  "on_frame_send_callback E fr h =
     (if hd_type fr \<noteq> PUSH_PROMISE then Inr h
      else case find_stream (promised_stream_id fr) h of
        None \<Rightarrow> Inr h
      | Some s \<Rightarrow> push_promise_was_sent E (promised_stream_id fr) h)"

definition on_frame_not_send_callback ::
    "('s, 'u) server_env \<Rightarrow> nghttp2_frame \<Rightarrow> ('s, 'u) http2_handler \<Rightarrow> fault + ('s, 'u) http2_handler" where
  "on_frame_not_send_callback E fr h =
     Inr (if hd_type fr \<noteq> HEADERS then h
          else h\<lparr>session := submit_rst_stream (lib E) (hd_stream_id fr) NGHTTP2_INTERNAL_ERROR (session h)\<rparr>)"

text \<open>The data source callback of a response; its source pointer is the stream.\<close>

definition read_callback ::
    "int \<Rightarrow> nat \<Rightarrow> u32 \<Rightarrow> ('s, 'u) http2_handler \<Rightarrow> fault + (answer \<times> ('s, 'u) http2_handler)" where
  "read_callback sid len flags h =
     bind_f (the_stream sid h) (\<lambda>s.
       case call_read (strm_response s) len flags of ((n, bytes, flags'), res) \<Rightarrow>
         Inr (Read_result n bytes flags', put_stream sid (s\<lparr>strm_response := res\<rparr>) h))"

definition dispatch ::
    "('s, 'u) server_env \<Rightarrow> event \<Rightarrow> ('s, 'u) http2_handler \<Rightarrow> fault + (answer \<times> ('s, 'u) http2_handler)" where
  "dispatch E ev h =
     (let zero = (\<lambda>m. bind_f m (\<lambda>h'. Inr (Code 0, h'))) in
      case ev of
        On_begin_headers fr \<Rightarrow> zero (on_begin_headers_callback fr h)
      | On_header fr name val flags \<Rightarrow> zero (on_header_callback E fr name val flags h)
      | On_frame_recv fr \<Rightarrow> zero (on_frame_recv_callback E fr h)
      | On_data_chunk_recv sid data \<Rightarrow> zero (on_data_chunk_recv_callback E sid data h)
      | On_stream_close sid ec \<Rightarrow> zero (on_stream_close_callback E sid ec h)
      | On_frame_send fr \<Rightarrow> zero (on_frame_send_callback E fr h)
      | On_frame_not_send fr err \<Rightarrow> zero (on_frame_not_send_callback E fr h)
      | Read_data sid len flags \<Rightarrow> read_callback sid len flags h)"

section \<open>Reading and writing\<close>

definition set_session :: "'s \<Rightarrow> ('s, 'u) http2_handler \<Rightarrow> ('s, 'u) http2_handler" where
  "set_session s h = h\<lparr>session := s\<rparr>"

definition set_inside :: "bool \<Rightarrow> ('s, 'u) http2_handler \<Rightarrow> ('s, 'u) http2_handler" where
  "set_inside b h = h\<lparr>inside_callback := b\<rparr>"

definition should_stop :: "('s, 'u) server_env \<Rightarrow> ('s, 'u) http2_handler \<Rightarrow> bool" where
  "should_stop E h \<longleftrightarrow> \<not> want_read (lib E) (session h) \<and> \<not> want_write (lib E) (session h)"

definition on_read ::
    "('s, 'u) server_env \<Rightarrow> string \<Rightarrow> ('s, 'u) http2_handler \<Rightarrow> fault + (int \<times> ('s, 'u) http2_handler)" where
  "on_read E bytes h =
     guarded inside_callback set_inside (\<lambda>h.
       bind_f (run_lib (dispatch E) session set_session (mem_recv (lib E) bytes (session h)) h)
         (\<lambda>(rv, _, h'). Inr (if rv < 0 then -1 else 0, h'))) h"

definition handler_send ::
    "('s, 'u) server_env \<Rightarrow> ('s, 'u) http2_handler \<Rightarrow> fault + (int \<times> string \<times> ('s, 'u) http2_handler)" where
  "handler_send E h = run_lib (dispatch E) session set_session (mem_send (lib E) (session h)) h"

text \<open>\<open>on_write\<close> for a buffer of \<open>N\<close> bytes: the result, the bytes written into it, the handler.\<close>

definition on_write ::
    "('s, 'u) server_env \<Rightarrow> nat \<Rightarrow> ('s, 'u) http2_handler \<Rightarrow> fault + ((int \<times> string) \<times> ('s, 'u) http2_handler)" where
  "on_write E N h =
     guarded inside_callback set_inside (\<lambda>h.
       let out = (case pending h of Some d \<Rightarrow> d | None \<Rightarrow> []) in
       if length out > N then Inl Buffer_overrun
       else
         bind_f (fill_loop (handler_send E) N out (h\<lparr>pending := None\<rparr>)) (\<lambda>(n, out', p, h').
           if n < 0 then Inr ((-1, out'), h')
           else Inr ((0, out'), h'\<lparr>pending := p\<rparr>))) h"

text \<open>The destructor closes every stream that is left, in the order of the table.\<close>

fun close_all :: "('s, 'u) server_env \<Rightarrow> (int \<times> stream) list \<Rightarrow> ('s, 'u) http2_handler \<Rightarrow> fault + ('s, 'u) http2_handler" where
  "close_all E [] h = Inr h"
| "close_all E ((sid, s) # ss) h =
     bind_f (run_callback E (rs_close_cb (strm_response s)) (Close_arg NGHTTP2_INTERNAL_ERROR) h) (close_all E ss)"

definition http2_handler_delete ::
    "('s, 'u) server_env \<Rightarrow> ('s, 'u) http2_handler \<Rightarrow> fault + ('s, 'u) http2_handler" where
  "http2_handler_delete E h = close_all E (streams h) h"

section \<open>The invariant\<close>

definition header_bytes :: "header_map \<Rightarrow> nat" where
  "header_bytes m = sum_list (map (\<lambda>(k, v). length k + length (hvalue v)) m)"

definition stream_ok :: "stream \<Rightarrow> bool" where
  "stream_ok s \<longleftrightarrow>
     header_buffer_size (strm_request s) \<le> 65536 \<and>
     (\<not> rs_pushed (strm_response s) \<longrightarrow>
        hm_ok (rq_header (strm_request s)) \<and>
        header_buffer_size (strm_request s) = header_bytes (rq_header (strm_request s)))"

definition server_inv :: "('s, 'u) http2_handler \<Rightarrow> bool" where
  "server_inv h \<longleftrightarrow>
     om_ok (streams h) \<and> om.all_entries (\<lambda>_. stream_ok) (streams h) \<and>
     posted h = (if write_signaled h then 1 else 0) \<and>
     formatted_date h = http_date (tstamp_cached h)"

definition hview :: "('s, 'u) http2_handler \<Rightarrow> bool \<times> string option \<times> string" where
  "hview h = (inside_callback h, pending h, remote_endpoint h)"

text \<open>
  The outcome of an operation of the handler: the invariant holds and the view (callback flag,
  pending bytes, peer) is \<open>b\<close>, or the
  application used a stream that is gone, or a stream id was inserted twice.
\<close>

definition keeps :: "bool \<times> string option \<times> string \<Rightarrow> fault + ('s, 'u) http2_handler \<Rightarrow> bool" where
  "keeps b m \<longleftrightarrow>
     (case m of
        Inl e \<Rightarrow> e \<in> {Duplicate_stream, Dangling_stream}
      | Inr h \<Rightarrow> server_inv h \<and> hview h = b)"

lemma keeps_simps [simp]:
  "keeps b (Inr h) \<longleftrightarrow> server_inv h \<and> hview h = b"
  "keeps b (Inl e) \<longleftrightarrow> e \<in> {Duplicate_stream, Dangling_stream}"
  by (simp_all add: keeps_def)

lemma keeps_bind:
  assumes "keeps b m" "\<And>h. m = Inr h \<Longrightarrow> server_inv h \<Longrightarrow> hview h = b \<Longrightarrow> keeps b (f h)"
  shows "keeps b (bind_f m f)"
  using assms by (cases m) auto

lemma keeps_stream:
  assumes "\<And>s. find_stream sid h = Some s \<Longrightarrow> keeps b (f s)"
  shows "keeps b (bind_f (the_stream sid h) f)"
  using assms by (cases "find_stream sid h") (auto simp: the_stream_def)

lemma keeps_if: "(c \<Longrightarrow> keeps b m) \<Longrightarrow> (\<not> c \<Longrightarrow> keeps b m') \<Longrightarrow> keeps b (if c then m else m')"
  by simp

named_theorems keeps_intros

lemmas [keeps_intros] = keeps_bind keeps_stream keeps_if

lemma server_inv_stream: "server_inv h \<Longrightarrow> find_stream sid h = Some s \<Longrightarrow> stream_ok s"
  by (auto simp: server_inv_def find_stream_def om.all_entries_def)

lemma server_inv_put [simp]: "server_inv h \<Longrightarrow> stream_ok s \<Longrightarrow> server_inv (put_stream sid s h)"
  by (simp add: server_inv_def put_stream_def om.all_entries_put)

lemma server_inv_frame [simp]:
  "server_inv (h\<lparr>session := ses\<rparr>) = server_inv h"
  "server_inv (h\<lparr>app_state := u\<rparr>) = server_inv h"
  "server_inv (h\<lparr>pending := p\<rparr>) = server_inv h"
  "server_inv (h\<lparr>inside_callback := b\<rparr>) = server_inv h"
  "server_inv h \<Longrightarrow> server_inv (h\<lparr>tstamp_cached := t, formatted_date := http_date t\<rparr>)"
  by (simp_all add: server_inv_def)

lemma server_inv_signal [simp]: "server_inv h \<Longrightarrow> server_inv (signal_write h)"
  by (auto simp: server_inv_def signal_write_def)

lemma hview_frame [simp]:
  "hview (signal_write h) = hview h"
  "hview (put_stream sid s h) = hview h"
  "hview (h\<lparr>session := ses\<rparr>) = hview h"
  "hview (h\<lparr>app_state := u\<rparr>) = hview h"
  "hview (h\<lparr>tstamp_cached := t, formatted_date := d\<rparr>) = hview h"
  "hview (close_stream sid h) = hview h"
  by (simp_all add: hview_def signal_write_def put_stream_def close_stream_def)

lemma upd_response_keeps [keeps_intros]:
  assumes "server_inv h" "hview h = b" "\<And>r. rs_pushed r \<Longrightarrow> rs_pushed (f r)"
  shows "keeps b (upd_response sid f h)"
  unfolding upd_response_def
proof (rule keeps_stream)
  fix s assume "find_stream sid h = Some s"
  then have "stream_ok s" by (rule server_inv_stream [OF assms(1)])
  then have "stream_ok (s\<lparr>strm_response := f (strm_response s)\<rparr>)" using assms(3) by (auto simp: stream_ok_def)
  then show "keeps b (Inr (put_stream sid (s\<lparr>strm_response := f (strm_response s)\<rparr>) h))" using assms by simp
qed

lemma submit_inv [simp]:
  assumes "server_inv h"
  shows "server_inv (stream_error E sid ec h)" "hview (stream_error E sid ec h) = hview h"
    "server_inv (handler_resume E sid h)" "hview (handler_resume E sid h) = hview h"
    "server_inv (snd (submit_trailer E sid hm h))" "hview (snd (submit_trailer E sid hm h)) = hview h"
    "server_inv (snd (start_response E sid s h))" "hview (snd (start_response E sid s h)) = hview h"
  using assms
  by (simp_all add: stream_error_def handler_resume_def submit_trailer_def start_response_def handler_http_date_def Let_def split_beta)

lemma res_start_response_keeps [keeps_intros]:
  "server_inv h \<Longrightarrow> hview h = b \<Longrightarrow> keeps b (res_start_response E sid h)"
  unfolding res_start_response_def split_beta by (intro keeps_intros) simp_all

lemma write_head_keeps [keeps_intros]:
  "server_inv h \<Longrightarrow> hview h = b \<Longrightarrow> keeps b (write_head E sid sc hm h)"
  unfolding write_head_def Let_def by (intro keeps_intros) simp_all

lemma end_generator_keeps [keeps_intros]:
  "server_inv h \<Longrightarrow> hview h = b \<Longrightarrow> keeps b (end_generator E sid g h)"
  unfolding end_generator_def Let_def by (intro keeps_intros) simp_all

lemma push_promise_was_sent_keeps [keeps_intros]:
  "server_inv h \<Longrightarrow> hview h = b \<Longrightarrow> keeps b (push_promise_was_sent E sid h)"
  unfolding push_promise_was_sent_def Let_def by (intro keeps_intros) simp_all

lemma run_res_op_keeps [keeps_intros]:
  "server_inv h \<Longrightarrow> hview h = b \<Longrightarrow> keeps b (run_res_op E sid op h)"
  unfolding run_res_op_def end_string_def by (cases op; simp only: res_op.case; intro keeps_intros) simp_all

lemma stream_new_ok [simp]: "stream_ok stream_new"
  by (simp add: stream_ok_def stream_new_def request_impl_new_def response_impl_new_def hm_ok_def header_bytes_def)

lemma server_inv_new [simp]: "server_inv (http2_handler_new E ep s u)"
  by (simp add: server_inv_def http2_handler_new_def om.all_entries_empty)

lemma create_stream_keeps [keeps_intros]:
  "server_inv h \<Longrightarrow> hview h = b \<Longrightarrow> keeps b (create_stream sid h)"
  by (simp add: create_stream_def server_inv_def hview_def split_beta om.all_entries_emplace om.inv_emplace)

lemma find_put_stream [simp]: "find_stream i (put_stream j s h) = (if i = j then Some s else find_stream i h)"
  by (simp add: find_stream_def put_stream_def)

lemma om_insert_twice [simp]: "om_insert k v (om_insert k w m) = om_insert k v m"
  by (induction m) auto

lemma put_stream_twice [simp]: "put_stream i s (put_stream i s' h) = put_stream i s h"
  by (simp add: put_stream_def)

lemma the_stream_put [simp]: "the_stream i (put_stream i s h) = Inr s"
  by (simp add: the_stream_def)

lemma upd_put [simp]:
  "upd_response i f (put_stream i s h) = Inr (put_stream i (s\<lparr>strm_response := f (strm_response s)\<rparr>) h)"
  "upd_request i g (put_stream i s h) = Inr (put_stream i (s\<lparr>strm_request := g (strm_request s)\<rparr>) h)"
  by (simp_all add: upd_response_def upd_request_def)

lemma create_stream_put:
  "create_stream i h = (if find_stream i h = None then Inr (put_stream i stream_new h) else Inl Duplicate_stream)"
  by (auto simp: create_stream_def om_emplace_def find_stream_def put_stream_def split: option.splits)

definition promised_stream :: "string \<Rightarrow> uri_ref \<Rightarrow> string \<Rightarrow> header_map \<Rightarrow> stream" where
  "promised_stream meth uri raw hm =
     \<lparr>strm_request = request_impl_new\<lparr>rq_header := hm, rq_method := meth,
        rq_uri := split_path (uri_ref_init\<lparr>uri_scheme := uri_scheme uri, uri_host := uri_host uri\<rparr>) raw\<rparr>,
      strm_response = response_impl_new\<lparr>rs_pushed := True\<rparr>\<rparr>"

lemma push_promise_cases:
  "push_promise E sid meth raw hm h =
     bind_f (the_stream sid h) (\<lambda>s.
       let (rv, ses) = submit_push_promise (lib E) sid (push_nva meth (rq_uri (strm_request s)) raw hm) (session h);
           h1 = h\<lparr>session := ses\<rparr>
       in if rv < 0 then Inr (make_error_code rv, None, h1)
          else if find_stream rv h \<noteq> None then Inl Duplicate_stream
          else Inr (ec_clear, Some rv, signal_write (put_stream rv (promised_stream meth (rq_uri (strm_request s)) raw hm) h1)))"
  by (auto simp: push_promise_def create_stream_put promised_stream_def stream_new_def request_impl_new_def
      find_stream_def Let_def intro!: bind_f_cong split: prod.split)

lemma promised_stream_ok: "stream_ok (promised_stream meth uri raw hm)"
  by (simp add: stream_ok_def promised_stream_def request_impl_new_def)

lemma push_promise_keeps [keeps_intros]:
  assumes "server_inv h" "hview h = b"
    and "\<And>ec r h'. server_inv h' \<Longrightarrow> hview h' = b \<Longrightarrow> keeps b (f ec r h')"
  shows "keeps b (bind_f (push_promise E sid meth raw hm h) (\<lambda>(ec, r, h'). f ec r h'))"
  using assms promised_stream_ok
  by (cases "the_stream sid h") (auto simp: push_promise_cases Let_def the_stream_def split: prod.split option.splits)

lemma upd_request_keeps [keeps_intros]:
  assumes "server_inv h" "hview h = b"
    "\<And>r. header_buffer_size (f r) = header_buffer_size r \<and> rq_header (f r) = rq_header r"
  shows "keeps b (upd_request sid f h)"
  unfolding upd_request_def
proof (rule keeps_stream)
  fix s assume "find_stream sid h = Some s"
  then have "stream_ok s" by (rule server_inv_stream [OF assms(1)])
  then have "stream_ok (s\<lparr>strm_request := f (strm_request s)\<rparr>)" using assms(3) by (auto simp: stream_ok_def)
  then show "keeps b (Inr (put_stream sid (s\<lparr>strm_request := f (strm_request s)\<rparr>) h))" using assms by simp
qed

lemma user_prog_induct [case_names Finish Response_op On_data Push Look_stream Set_state]:
  assumes "P Finish" "\<And>sid op k. P k \<Longrightarrow> P (Response_op sid op k)" "\<And>sid c k. P k \<Longrightarrow> P (On_data sid c k)"
    "\<And>sid meth raw hm k. (\<And>ec r. P (k ec r)) \<Longrightarrow> P (Push sid meth raw hm k)"
    "\<And>sid k. (\<And>v sc. P (k v sc)) \<Longrightarrow> P (Look_stream sid k)" "\<And>f k. P k \<Longrightarrow> P (Set_state f k)"
  shows "P p"
proof (induction p)
  case (Push sid meth raw hm k)
  show ?case by (rule assms(4)) (blast intro: Push)
next
  case (Look_stream sid k)
  show ?case by (rule assms(5)) (blast intro: Look_stream)
qed (auto intro: assms)

lemma run_prog_keeps [keeps_intros]:
  "server_inv h \<Longrightarrow> hview h = b \<Longrightarrow> keeps b (run_prog E p h)"
  by (induction p arbitrary: h rule: user_prog_induct; simp only: run_prog.simps; (intro keeps_intros)?; simp)

lemma run_user_keeps [keeps_intros]:
  "server_inv h \<Longrightarrow> hview h = b \<Longrightarrow> keeps b (run_user E f h)"
  unfolding run_user_def split_beta by (intro keeps_intros) simp_all

lemma run_callback_keeps [keeps_intros]:
  "server_inv h \<Longrightarrow> hview h = b \<Longrightarrow> keeps b (run_callback E c arg h)"
  unfolding run_callback_def by (cases c) (auto intro: keeps_intros)

lemma call_on_data_keeps [keeps_intros]:
  "server_inv h \<Longrightarrow> hview h = b \<Longrightarrow> keeps b (call_on_data E sid data h)"
  unfolding call_on_data_def by (intro keeps_intros)

lemma call_on_request_keeps [keeps_intros]:
  "server_inv h \<Longrightarrow> hview h = b \<Longrightarrow> keeps b (call_on_request E sid h)"
  unfolding call_on_request_def
proof (rule keeps_stream)
  fix s assume *: "server_inv h" "hview h = b"
  obtain f where "handler (strm_request s) (mux E) = Inr f" using handler_total by blast
  with * show "keeps b (case handler (strm_request s) (mux E) of
      Inl _ \<Rightarrow> Inl Path_fault | Inr f \<Rightarrow> run_user E (f (strm_request s) sid) h)"
    by (simp add: run_user_keeps)
qed

lemma hm_bytes_emplace: "header_bytes (hm_emplace k v m) = length k + length (hvalue v) + header_bytes m"
  by (induction m) (auto simp: header_bytes_def)

lemma recv_header_ok:
  assumes "recv_header name val flags (strm_request s) = (req, ok)" "stream_ok s"
  shows "stream_ok (s\<lparr>strm_request := req\<rparr>)"
proof -
  have store: "stream_ok (s\<lparr>strm_request := store_header name val flags q\<rparr>)"
    if "header_buffer_size q + length name + length val \<le> 65536" "rq_header q = rq_header (strm_request s)"
      "header_buffer_size q = header_buffer_size (strm_request s)" for q
    using assms(2) that
    by (auto simp: stream_ok_def store_header_def update_header_buffer_size_def Let_def hm_bytes_emplace hm_emplace_ok)
  have same: "stream_ok (s\<lparr>strm_request := q\<rparr>)"
    if "rq_header q = rq_header (strm_request s)" "header_buffer_size q = header_buffer_size (strm_request s)" for q
    using assms(2) that by (auto simp: stream_ok_def)
  show ?thesis
    using assms(1) store same
    by (auto simp: recv_header_def Let_def not_less split: option.splits hd_token.splits if_splits)
qed

lemma on_header_keeps [keeps_intros]:
  assumes "server_inv h" "hview h = b"
  shows "keeps b (on_header_callback E fr name val flags h)"
proof (cases "find_stream (hd_stream_id fr) h")
  case (Some s)
  obtain req ok where r: "recv_header name val flags (strm_request s) = (req, ok)" by force
  from recv_header_ok [OF r] server_inv_stream [OF assms(1) Some] assms Some show ?thesis
    by (simp add: on_header_callback_def r Let_def)
qed (use assms in \<open>simp add: on_header_callback_def\<close>)

lemma on_frame_recv_keeps [keeps_intros]:
  assumes "server_inv h" "hview h = b"
  shows "keeps b (on_frame_recv_callback E fr h)"
proof (cases "find_stream (hd_stream_id fr) h")
  case (Some s)
  from assms show ?thesis unfolding on_frame_recv_callback_def Let_def Some option.case
    by (cases "hd_type fr"; simp only: frame_type.case; (intro keeps_intros)?; simp)
qed (use assms in \<open>simp add: on_frame_recv_callback_def\<close>)

lemma on_stream_close_keeps [keeps_intros]:
  assumes "server_inv h" "hview h = b"
  shows "keeps b (on_stream_close_callback E sid ec h)"
proof -
  have "server_inv (close_stream sid h') \<and> hview (close_stream sid h') = b"
    if "server_inv h'" "hview h' = b" for h' :: "('a, 'b) http2_handler"
    using that by (auto simp: close_stream_def server_inv_def om.all_entries_erase hview_def)
  with assms show ?thesis unfolding on_stream_close_callback_def
    by (cases "find_stream sid h"; simp only: option.case; (intro keeps_bind run_callback_keeps)?; simp)
qed

lemma on_begin_headers_keeps [keeps_intros]:
  "server_inv h \<Longrightarrow> hview h = b \<Longrightarrow> keeps b (on_begin_headers_callback fr h)"
  unfolding on_begin_headers_callback_def by (intro keeps_intros) simp_all

lemma on_data_chunk_keeps [keeps_intros]:
  "server_inv h \<Longrightarrow> hview h = b \<Longrightarrow> keeps b (on_data_chunk_recv_callback E sid data h)"
  unfolding on_data_chunk_recv_callback_def by (cases "find_stream sid h") (auto intro: keeps_intros)

lemma on_frame_send_keeps [keeps_intros]:
  "server_inv h \<Longrightarrow> hview h = b \<Longrightarrow> keeps b (on_frame_send_callback E fr h)"
  unfolding on_frame_send_callback_def
  by (cases "find_stream (promised_stream_id fr) h") (auto intro: keeps_intros)

lemma on_frame_not_send_keeps [keeps_intros]:
  "server_inv h \<Longrightarrow> hview h = b \<Longrightarrow> keeps b (on_frame_not_send_callback E fr h)"
  by (simp add: on_frame_not_send_callback_def)

lemma read_callback_keeps:
  assumes "server_inv h" "hview h = b"
  shows "keeps b (bind_f (read_callback sid len flags h) (\<lambda>(a, h'). Inr h'))"
proof (cases "find_stream sid h")
  case (Some s)
  have "rs_pushed (snd (call_read res len flags)) = rs_pushed res" for res
    by (simp add: call_read_def split_beta split: option.split)
  then have "stream_ok (s\<lparr>strm_response := snd (call_read (strm_response s) len flags)\<rparr>)"
    using server_inv_stream [OF assms(1) Some] by (simp add: stream_ok_def)
  with assms Some show ?thesis by (simp add: read_callback_def the_stream_def split_beta)
qed (simp add: read_callback_def the_stream_def)

lemma dispatch_keeps:
  assumes "server_inv h" "hview h = b"
  shows "keeps b (bind_f (dispatch E ev h) (\<lambda>(a, h'). Inr h'))"
proof -
  have zero: "keeps b (bind_f (bind_f m (\<lambda>h'. Inr (Code 0, h'))) (\<lambda>(a, h'). Inr h')) = keeps b m"
    for m :: "fault + ('a, 'b) http2_handler" by (cases m) simp_all
  show ?thesis
    using assms read_callback_keeps [OF assms]
    by (cases ev) (auto simp: dispatch_def zero intro: keeps_intros)
qed

section \<open>Safety of the callbacks\<close>

definition server_inside :: "string option \<Rightarrow> string \<Rightarrow> ('s, 'u) http2_handler \<Rightarrow> bool" where
  "server_inside p ep h \<longleftrightarrow> server_inv h \<and> hview h = (True, p, ep)"

definition server_faults :: "fault set" where
  "server_faults = - {Duplicate_stream, Dangling_stream}"

interpretation srv: callback_object "dispatch E" session set_session "server_inside p ep" server_faults for E p ep
proof
  fix h :: "('a, 'b) http2_handler" and ev a h' s e
  assume inv: "server_inside p ep h"
  then have k: "keeps (True, p, ep) (bind_f (dispatch E ev h) (\<lambda>(a, h'). Inr h'))"
    by (intro dispatch_keeps) (simp_all add: server_inside_def)
  show "server_inside p ep h'" if "dispatch E ev h = Inr (a, h')" using k that by (simp add: server_inside_def)
  show "server_inside p ep (set_session s h)" using inv by (simp add: server_inside_def set_session_def)
  show "e \<notin> server_faults" if "dispatch E ev h = Inl e" using k that by (simp add: server_faults_def)
qed

interpretation srv_guard: callback_guard inside_callback set_inside
  by unfold_locales (simp add: set_inside_def)

lemma server_inside_enter: "server_inv h \<Longrightarrow> server_inside (pending h) (remote_endpoint h) (set_inside True h)"
  by (simp add: server_inside_def set_inside_def hview_def)

lemma on_read_safe:
  assumes "server_inv h" "\<not> inside_callback h"
  shows "on_read E bs h = Inl e \<Longrightarrow> e \<in> {Duplicate_stream, Dangling_stream}"
    and "on_read E bs h = Inr (rv, h') \<Longrightarrow> server_inv h' \<and> \<not> inside_callback h' \<and> pending h' = pending h"
proof -
  let ?h = "set_inside True h" and ?P = "server_inside (pending h) (remote_endpoint h)"
  let ?run = "run_lib (dispatch E) session set_session (mem_recv (lib E) bs (session ?h)) ?h"
  have inv: "?P ?h" using server_inside_enter [OF assms(1)] .
  show "e \<in> {Duplicate_stream, Dangling_stream}" if "on_read E bs h = Inl e"
    using that srv.run_lib_fault [OF inv] srv.run_lib_inv [OF inv] assms(2)
    by (auto simp: on_read_def guarded_def bind_f_Inl bind_f_Inr server_faults_def server_inside_def hview_def split: if_splits)
  assume "on_read E bs h = Inr (rv, h')"
  then obtain n d h1 where "?run = Inr (n, d, h1)" "h' = set_inside False h1"
    by (auto simp: on_read_def srv_guard.guarded_Inr bind_f_Inr)
  with srv.run_lib_inv [OF inv, of E _ n d h1] show "server_inv h' \<and> \<not> inside_callback h' \<and> pending h' = pending h"
    by (simp add: server_inside_def hview_def set_inside_def)
qed

definition pending_bytes :: "('s, 'u) http2_handler \<Rightarrow> string" where
  "pending_bytes h = (case pending h of Some d \<Rightarrow> d | None \<Rightarrow> [])"

lemma fill_inside:
  assumes "server_inv h"
  shows "fill_loop (handler_send E) N out ((set_inside True h)\<lparr>pending := None\<rparr>) = Inr (n, out', p, h') \<Longrightarrow>
      server_inside None (remote_endpoint h) h'"
    and "fill_loop (handler_send E) N out ((set_inside True h)\<lparr>pending := None\<rparr>) = Inl e \<Longrightarrow> e \<notin> server_faults"
proof -
  have inv: "server_inside None (remote_endpoint h) ((set_inside True h)\<lparr>pending := None\<rparr>)"
    using assms by (simp add: server_inside_def hview_def set_inside_def)
  have send: "handler_send E = (\<lambda>h. run_lib (dispatch E) session set_session (mem_send (lib E) (session h)) h)"
    by (simp add: fun_eq_iff handler_send_def)
  note fill = srv.fill_run_lib [OF inv, of E "mem_send (lib E)" N out, folded send]
  show "fill_loop (handler_send E) N out ((set_inside True h)\<lparr>pending := None\<rparr>) = Inr (n, out', p, h') \<Longrightarrow>
      server_inside None (remote_endpoint h) h'" by (rule fill(1))
  show "fill_loop (handler_send E) N out ((set_inside True h)\<lparr>pending := None\<rparr>) = Inl e \<Longrightarrow> e \<notin> server_faults"
    by (rule fill(2))
qed

lemma on_write_safe:
  assumes "server_inv h" "\<not> inside_callback h" "length (pending_bytes h) \<le> N"
  shows "on_write E N h = Inl e \<Longrightarrow> e \<in> {Duplicate_stream, Dangling_stream}"
    and "on_write E N h = Inr ((rv, out), h') \<Longrightarrow> server_inv h' \<and> \<not> inside_callback h'"
proof -
  let ?h = "(set_inside True h)\<lparr>pending := None\<rparr>"
  let ?fill = "fill_loop (handler_send E) N (pending_bytes h) ?h"
  note fill = fill_inside [OF assms(1), of E N "pending_bytes h"]
  have w: "on_write E N h = guarded inside_callback set_inside (\<lambda>h1.
      bind_f ?fill (\<lambda>(n, out', p, h'). if n < 0 then Inr ((-1, out'), h') else Inr ((0, out'), h'\<lparr>pending := p\<rparr>))) h"
    using assms(3) by (auto simp: on_write_def guarded_def pending_bytes_def set_inside_def Let_def split: option.split)
  show "e \<in> {Duplicate_stream, Dangling_stream}" if e: "on_write E N h = Inl e"
  proof (cases ?fill)
    case (Inl f)
    with e assms(2) fill(2) show ?thesis by (simp add: w guarded_def server_faults_def)
  next
    case (Inr r)
    obtain n o' p h1 where r: "r = (n, o', p, h1)" by (cases r) auto
    with Inr fill(1) have "inside_callback h1" by (simp add: server_inside_def hview_def)
    with e assms(2) Inr r show ?thesis by (auto simp: w guarded_def split: if_splits)
  qed
  assume "on_write E N h = Inr ((rv, out), h')"
  then obtain n o' p h1 where "?fill = Inr (n, o', p, h1)" "h' = set_inside False (if n < 0 then h1 else h1\<lparr>pending := p\<rparr>)"
    by (auto simp: w srv_guard.guarded_Inr bind_f_Inr split: if_splits prod.splits)
  with fill(1) show "server_inv h' \<and> \<not> inside_callback h'"
    by (auto simp: server_inside_def hview_def set_inside_def)
qed

lemma on_write_bytes:
  assumes "server_inv h" "\<not> inside_callback h" "length (pending_bytes h) \<le> N"
    "on_write E N h = Inr ((rv, out), h')"
  shows "server_inv h' \<and> \<not> inside_callback h' \<and> length out \<le> N \<and>
    (\<exists>ds h1. sends (handler_send E) ((set_inside True h)\<lparr>pending := None\<rparr>) ds h1 \<and>
       out @ pending_bytes h' = pending_bytes h @ concat ds \<and>
       ((\<forall>d \<in> set ds. length d \<le> N) \<longrightarrow> length (pending_bytes h') \<le> N))"
proof -
  obtain n p h1 where f: "fill_loop (handler_send E) N (pending_bytes h) ((set_inside True h)\<lparr>pending := None\<rparr>) = Inr (n, out, p, h1)"
    and h': "h' = set_inside False (if n < 0 then h1 else h1\<lparr>pending := p\<rparr>)"
    using assms(3,4)
    by (auto simp: on_write_def srv_guard.guarded_Inr bind_f_Inr pending_bytes_def set_inside_def Let_def
        split: if_splits prod.splits)
  have none: "pending h1 = None" using fill_inside(1) [OF assms(1) f] by (simp add: server_inside_def hview_def)
  obtain ds h2 where ds: "length out \<le> N" "sends (handler_send E) ((set_inside True h)\<lparr>pending := None\<rparr>) ds h2"
    "out @ (case p of None \<Rightarrow> [] | Some d \<Rightarrow> d) = pending_bytes h @ concat ds"
    "case p of None \<Rightarrow> \<exists>m bs. handler_send E h2 = Inr (m, bs, h1) \<and> (m < 0 \<and> n = m \<or> 0 \<le> m \<and> bs = [] \<and> n = 0)
       | Some d \<Rightarrow> h2 = h1 \<and> n = 0 \<and> N < length out + length d \<and> d \<in> set ds"
    using fill_loop_sends [OF f assms(3)] by blast
  have "pending_bytes h' = (case p of None \<Rightarrow> [] | Some d \<Rightarrow> d)"
    using ds(4) none by (auto simp: h' pending_bytes_def set_inside_def split: option.splits)
  with ds on_write_safe(2) [OF assms] show ?thesis
    by (intro conjI exI [of _ ds] exI [of _ h2]) (auto split: option.splits)
qed

section \<open>A small instance\<close>

text \<open>A library that only counts the responses submitted.\<close>

definition counting_lib :: "nat nghttp2" where
  "counting_lib = \<lparr>submit_rst_stream = (\<lambda>_ _ n. n), submit_response = (\<lambda>_ _ _ n. (0, Suc n)),
     submit_request = (\<lambda>_ _ _ n. (1, n)), lib_submit_trailer = (\<lambda>_ _ n. (0, n)), submit_push_promise = (\<lambda>_ _ n. (2, n)),
     submit_settings = (\<lambda>_ n. n), set_local_window_size = (\<lambda>_ n. n), submit_ping = (\<lambda>n. n), terminate_session = (\<lambda>n. n),
     resume_data = (\<lambda>_ n. n), want_read = (\<lambda>_. True), want_write = (\<lambda>_. True), session_new = (0, 0),
     mem_recv = (\<lambda>bs n. Returned (int (length bs)) [] n), mem_send = (\<lambda>n. Returned 0 [] n)\<rparr>"

definition demo_env :: "(nat, unit) server_env" where
  "demo_env = \<lparr>lib = counting_lib, mux = [], user_cbs = (\<lambda>_ _ u. (Finish, u)), now = 0\<rparr>"

definition demo_handler :: "(nat, unit) http2_handler" where
  "demo_handler = put_stream 1 stream_new (http2_handler_new demo_env [] 0 ())"

lemma demo_handler_facts [simp]:
  "server_inv demo_handler" "\<not> inside_callback demo_handler" "pending demo_handler = None"
  "find_stream 1 demo_handler = Some stream_new" "session demo_handler = 0"
  by (simp_all add: demo_handler_def) (simp_all add: put_stream_def http2_handler_new_def)

section \<open>Properties\<close>

text \<open>
  C1: feeding received bytes to a handler whose invariant holds, outside of any callback, never
  trips the callback guard, never overruns a buffer and never fails inside path cleaning, whatever the
  library calls back and whatever the application does in its callbacks; afterwards the invariant holds
  again (ordered stream table, header accounting and its 64 KiB limit, at most one posted write task,
  a date cache in step with its time stamp), the guard is released and the pending bytes are untouched.
\<close>

theorem on_read_keeps_invariant:
  assumes "server_inv h" "\<not> inside_callback h"
  shows "case on_read E bs h of
      Inl e \<Rightarrow> e \<in> {Duplicate_stream, Dangling_stream}
    | Inr (rv, h') \<Rightarrow> server_inv h' \<and> \<not> inside_callback h' \<and> pending h' = pending h"
  using on_read_safe [OF assms, of E bs] by (auto split: sum.split)

theorem on_read_keeps_invariant_witness:
  "case on_read demo_env ''x'' demo_handler of Inl e \<Rightarrow> False | Inr (rv, h') \<Rightarrow> server_inv h'"
proof -
  have "case on_read demo_env ''x'' demo_handler of
      Inl e \<Rightarrow> e \<in> {Duplicate_stream, Dangling_stream}
    | Inr (rv, h') \<Rightarrow> server_inv h' \<and> \<not> inside_callback h' \<and> pending h' = pending demo_handler"
    by (rule on_read_keeps_invariant) simp_all
  then show ?thesis
    by (simp add: on_read_def guarded_def demo_env_def counting_lib_def set_inside_def set_session_def
        demo_handler_def http2_handler_new_def put_stream_def)
qed

text \<open>
  \<open>on_write\<close> fills the connection's buffer without loss: it never writes beyond the
  buffer, and the bytes it wrote followed by the bytes it keeps for the next call are exactly the bytes
  kept before followed by the chunks the library returned, in order. If every chunk fits into the
  buffer, so do the kept bytes, so the next call starts within bounds again.
\<close>

theorem on_write_no_loss:
  assumes "server_inv h" "\<not> inside_callback h" "length (pending_bytes h) \<le> N"
  shows "case on_write E N h of
      Inl e \<Rightarrow> e \<in> {Duplicate_stream, Dangling_stream}
    | Inr ((rv, out), h') \<Rightarrow> server_inv h' \<and> \<not> inside_callback h' \<and> length out \<le> N \<and>
        (\<exists>ds h1. sends (handler_send E) ((set_inside True h)\<lparr>pending := None\<rparr>) ds h1 \<and>
           out @ pending_bytes h' = pending_bytes h @ concat ds \<and>
           ((\<forall>d \<in> set ds. length d \<le> N) \<longrightarrow> length (pending_bytes h') \<le> N))"
  using on_write_safe(1) [OF assms] on_write_bytes [OF assms] by (auto split: sum.split)

theorem on_write_no_loss_witness:
  "case on_write demo_env 4 demo_handler of Inl e \<Rightarrow> False | Inr ((rv, out), h') \<Rightarrow> server_inv h' \<and> length out \<le> 4"
proof -
  have *: "case on_write demo_env 4 demo_handler of
      Inl e \<Rightarrow> e \<in> {Duplicate_stream, Dangling_stream}
    | Inr ((rv, out), h') \<Rightarrow> server_inv h' \<and> \<not> inside_callback h' \<and> length out \<le> 4 \<and>
        (\<exists>ds h1. sends (handler_send demo_env) ((set_inside True demo_handler)\<lparr>pending := None\<rparr>) ds h1 \<and>
           out @ pending_bytes h' = pending_bytes demo_handler @ concat ds \<and>
           ((\<forall>d \<in> set ds. length d \<le> 4) \<longrightarrow> length (pending_bytes h') \<le> 4))"
    by (rule on_write_no_loss) (simp_all add: pending_bytes_def)
  obtain r where "on_write demo_env 4 demo_handler = Inr r"
    by (auto simp: on_write_def guarded_def demo_env_def counting_lib_def set_inside_def set_session_def handler_send_def
        demo_handler_def http2_handler_new_def put_stream_def fill_loop_cases)
  with * show ?thesis by (auto split: prod.splits)
qed

text \<open>
  After any call of \<open>on_read\<close>, the header fields kept for every request stream are sorted by
  name, take at most 64 KiB in total, and the handler's count of their bytes is exact.
\<close>

theorem request_headers_bounded:
  assumes "server_inv h" "\<not> inside_callback h" "on_read E bs h = Inr (rv, h')" "find_stream sid h' = Some s"
    "\<not> rs_pushed (strm_response s)"
  shows "header_bytes (rq_header (strm_request s)) \<le> 65536 \<and> hm_ok (rq_header (strm_request s)) \<and>
    header_buffer_size (strm_request s) = header_bytes (rq_header (strm_request s))"
  using on_read_safe(2) [OF assms(1-3)] server_inv_stream [OF _ assms(4)] assms(5) by (simp add: stream_ok_def)

theorem request_headers_bounded_witness:
  "\<exists>h'. on_read demo_env ''x'' demo_handler = Inr (0, h') \<and>
     header_bytes (rq_header (strm_request (the (find_stream 1 h')))) \<le> 65536"
proof -
  define h' where "h' = demo_handler\<lparr>session := 0\<rparr>"
  have r: "on_read demo_env ''x'' demo_handler = Inr (0, h')"
    by (simp add: on_read_def guarded_def demo_env_def counting_lib_def set_inside_def set_session_def
        demo_handler_def http2_handler_new_def put_stream_def h'_def)
  have s: "find_stream 1 h' = Some stream_new" by (simp add: h'_def demo_handler_def find_stream_def put_stream_def)
  from request_headers_bounded [OF demo_handler_facts(1,2) r s] r s show ?thesis by (auto simp: stream_new_def response_impl_new_def)
qed

end
