(* ===== verification/Server_Connection.thy ===== *)
theory Server_Connection
  imports Server_Handler
begin

text \<open>
  \<open>lib/asio_server_connection.h\<close>: one connection of the server, from the completion handlers of
  its asynchronous operations. The socket and the timers are asio's: an asynchronous operation is a
  flag that it is outstanding, its completion an event.
\<close>

section \<open>State\<close>

text \<open>
  \<open>in_flight\<close> is the part of \<open>outbuf_\<close> an outstanding \<open>async_write\<close> still reads, \<open>reading\<close> an
  outstanding \<open>async_read_some\<close>, \<open>expires_at\<close> the expiry of the deadline timer (\<open>None\<close> is
  \<open>pos_infin\<close>) and \<open>waiting\<close> an outstanding wait on it.
\<close>

record ('s, 'u) connection =
  conn_handler :: "('s, 'u) http2_handler"
  read_timeout :: int
  tls_handshake_timeout :: int
  writing :: bool
  stopped :: bool
  in_flight :: "string option"
  reading :: bool
  expires_at :: "int option"
  waiting :: bool

definition outbuf_size :: nat where
  "outbuf_size = 64 * 1024"

definition connection_new :: "int \<Rightarrow> int \<Rightarrow> ('s, 'u) http2_handler \<Rightarrow> ('s, 'u) connection" where
  "connection_new tls_timeout rd_timeout h =
     \<lparr>conn_handler = h, read_timeout = rd_timeout, tls_handshake_timeout = tls_timeout, writing = False,
      stopped = False, in_flight = None, reading = False, expires_at = None, waiting = False\<rparr>"

section \<open>Operations\<close>

definition stop :: "('s, 'u) connection \<Rightarrow> ('s, 'u) connection" where
  "stop c = (if stopped c then c else c\<lparr>stopped := True\<rparr>)"

definition start_tls_handshake_deadline :: "int \<Rightarrow> ('s, 'u) connection \<Rightarrow> ('s, 'u) connection" where
  "start_tls_handshake_deadline t c = c\<lparr>expires_at := Some (t + tls_handshake_timeout c), waiting := True\<rparr>"

definition start_read_deadline :: "int \<Rightarrow> ('s, 'u) connection \<Rightarrow> ('s, 'u) connection" where
  "start_read_deadline t c = c\<lparr>expires_at := Some (t + read_timeout c), waiting := True\<rparr>"

definition handle_deadline :: "int \<Rightarrow> ('s, 'u) connection \<Rightarrow> ('s, 'u) connection" where
  "handle_deadline t c =
     (let c = c\<lparr>waiting := False\<rparr> in
      if stopped c then c
      else case expires_at c of
        Some e \<Rightarrow> if e \<le> t then (stop c)\<lparr>expires_at := None\<rparr> else c\<lparr>waiting := True\<rparr>
      | None \<Rightarrow> c\<lparr>waiting := True\<rparr>)"

definition do_read :: "int \<Rightarrow> ('s, 'u) connection \<Rightarrow> ('s, 'u) connection" where
  "do_read t c = c\<lparr>expires_at := Some (t + read_timeout c), reading := True\<rparr>"

definition do_write ::
    "('s, 'u) server_env \<Rightarrow> int \<Rightarrow> ('s, 'u) connection \<Rightarrow> fault + ('s, 'u) connection" where
  "do_write E t c =
     (if writing c then Inr c
      else
        bind_f (on_write E outbuf_size (conn_handler c)) (\<lambda>((rv, out), h).
          let c = c\<lparr>conn_handler := h\<rparr> in
          if rv \<noteq> 0 then Inr (stop c)
          else if out = [] then Inr (if should_stop E h then stop c else c)
          else Inr (c\<lparr>writing := True, expires_at := Some (t + read_timeout c), in_flight := Some out\<rparr>)))"

text \<open>The completion handlers of the read and of the write, and the posted write task.\<close>

definition read_done ::
    "('s, 'u) server_env \<Rightarrow> int \<Rightarrow> string option \<Rightarrow> ('s, 'u) connection \<Rightarrow> fault + ('s, 'u) connection" where
  "read_done E t bytes c =
     (let c = c\<lparr>reading := False\<rparr> in
      case bytes of
        None \<Rightarrow> Inr (stop c)
      | Some bs \<Rightarrow>
          bind_f (on_read E bs (conn_handler c)) (\<lambda>(rv, h).
            let c = c\<lparr>conn_handler := h\<rparr> in
            if rv \<noteq> 0 then Inr (stop c)
            else
              bind_f (do_write E t c) (\<lambda>c.
                if \<not> writing c \<and> should_stop E (conn_handler c) then Inr (stop c)
                else Inr (do_read t c))))"

definition write_done ::
    "('s, 'u) server_env \<Rightarrow> int \<Rightarrow> bool \<Rightarrow> ('s, 'u) connection \<Rightarrow> fault + ('s, 'u) connection" where
  "write_done E t ok c =
     (let c = c\<lparr>in_flight := None\<rparr> in
      if \<not> ok then Inr (stop c) else do_write E t (c\<lparr>writing := False\<rparr>))"

definition initiate_write ::
    "('s, 'u) server_env \<Rightarrow> int \<Rightarrow> ('s, 'u) connection \<Rightarrow> fault + ('s, 'u) connection" where
  "initiate_write E t c =
     (let h = conn_handler c
      in do_write E t (c\<lparr>conn_handler := h\<lparr>posted := posted h - 1, write_signaled := False\<rparr>\<rparr>))"

definition start :: "('s, 'u) server_env \<Rightarrow> int \<Rightarrow> ('s, 'u) connection \<Rightarrow> ('s, 'u) connection" where
  "start E t c =
     (case handler_start E (conn_handler c) of (rv, h) \<Rightarrow>
        let c = c\<lparr>conn_handler := h\<rparr> in if rv \<noteq> 0 then stop c else do_read t c)"

section \<open>Events\<close>

text \<open>
  What can happen to a running connection: its asynchronous operations complete, the
  posted task runs, or the application uses a response outside of a callback.
\<close>

inductive conn_step :: "('s, 'u) server_env \<Rightarrow> ('s, 'u) connection \<Rightarrow> ('s, 'u) connection \<Rightarrow> bool" for E where
  Read_done: "reading c \<Longrightarrow> read_done (E\<lparr>now := n\<rparr>) t bytes c = Inr c' \<Longrightarrow> conn_step E c c'"
| Write_done: "in_flight c \<noteq> None \<Longrightarrow> write_done (E\<lparr>now := n\<rparr>) t ok c = Inr c' \<Longrightarrow> conn_step E c c'"
| Posted: "0 < posted (conn_handler c) \<Longrightarrow> initiate_write (E\<lparr>now := n\<rparr>) t c = Inr c' \<Longrightarrow> conn_step E c c'"
| Deadline: "waiting c \<Longrightarrow> conn_step E c (handle_deadline t c)"
| Application: "run_user (E\<lparr>now := n\<rparr>) f (conn_handler c) = Inr h \<Longrightarrow> conn_step E c (c\<lparr>conn_handler := h\<rparr>)"

inductive_cases conn_stepE: "conn_step E c c'"

inductive conn_reachable :: "('s, 'u) server_env \<Rightarrow> ('s, 'u) connection \<Rightarrow> ('s, 'u) connection \<Rightarrow> bool" for E where
  Initial: "conn_reachable E c c"
| Step: "conn_reachable E c c' \<Longrightarrow> conn_step E c' c'' \<Longrightarrow> conn_reachable E c c''"

section \<open>Invariant\<close>

definition chunks_fit :: "('s, 'u) server_env \<Rightarrow> bool" where
  "chunks_fit E \<longleftrightarrow>
     (\<forall>t h n bs h'. handler_send (E\<lparr>now := t\<rparr>) h = Inr (n, bs, h') \<longrightarrow> length bs \<le> outbuf_size)"

definition conn_inv :: "('s, 'u) connection \<Rightarrow> bool" where
  "conn_inv c \<longleftrightarrow>
     server_inv (conn_handler c) \<and> \<not> inside_callback (conn_handler c) \<and>
     length (pending_bytes (conn_handler c)) \<le> outbuf_size \<and>
     (\<forall>out. in_flight c = Some out \<longrightarrow> writing c \<and> out \<noteq> [] \<and> length out \<le> outbuf_size)"

lemma conn_inv_frame [simp]:
  "conn_inv (c\<lparr>stopped := b\<rparr>) = conn_inv c" "conn_inv (c\<lparr>reading := b\<rparr>) = conn_inv c"
  "conn_inv (c\<lparr>waiting := b\<rparr>) = conn_inv c" "conn_inv (c\<lparr>expires_at := d\<rparr>) = conn_inv c"
  "conn_inv (stop c) = conn_inv c" "conn_inv (do_read t c) = conn_inv c"
  by (simp_all add: conn_inv_def stop_def do_read_def)

lemma on_write_inv:
  assumes "chunks_fit E" "server_inv h" "\<not> inside_callback h" "length (pending_bytes h) \<le> outbuf_size"
    "on_write (E\<lparr>now := n\<rparr>) outbuf_size h = Inr ((rv, out), h')"
  shows "server_inv h' \<and> \<not> inside_callback h' \<and> length (pending_bytes h') \<le> outbuf_size \<and> length out \<le> outbuf_size"
proof -
  have b: "handler_send (E\<lparr>now := n\<rparr>) h = Inr (m, bs, h') \<Longrightarrow> length bs \<le> outbuf_size" for h m bs h'
    using assms(1) unfolding chunks_fit_def by blast
  have "sends (handler_send (E\<lparr>now := n\<rparr>)) h ds h' \<Longrightarrow> \<forall>d \<in> set ds. length d \<le> outbuf_size" for h ds h'
    by (erule sends_bounded) (rule b)
  with on_write_bytes [OF assms(2-5)] show ?thesis by blast
qed

lemma do_write_inv:
  assumes "chunks_fit E" "conn_inv c" "do_write (E\<lparr>now := n\<rparr>) t c = Inr c'"
  shows "conn_inv c'"
proof (cases "writing c")
  case False
  with assms(3) obtain rv out h where w: "on_write (E\<lparr>now := n\<rparr>) outbuf_size (conn_handler c) = Inr ((rv, out), h)"
    and c': "c' = (if rv \<noteq> 0 then stop (c\<lparr>conn_handler := h\<rparr>)
      else if out = [] then (if should_stop (E\<lparr>now := n\<rparr>) h then stop (c\<lparr>conn_handler := h\<rparr>) else c\<lparr>conn_handler := h\<rparr>)
      else c\<lparr>conn_handler := h, writing := True, expires_at := Some (t + read_timeout c), in_flight := Some out\<rparr>)"
    by (auto simp: do_write_def bind_f_Inr Let_def split: if_splits)
  have h: "server_inv h \<and> \<not> inside_callback h \<and> length (pending_bytes h) \<le> outbuf_size \<and> length out \<le> outbuf_size"
    using assms(2) by (intro on_write_inv [OF assms(1) _ _ _ w]) (simp_all add: conn_inv_def)
  with False assms(2) have "conn_inv (c\<lparr>conn_handler := h\<rparr>)" by (auto simp: conn_inv_def)
  with h show ?thesis by (auto simp: c') (auto simp: conn_inv_def)
qed (use assms in \<open>simp add: do_write_def\<close>)

lemma pending_bytes_cong: "pending h = pending h' \<Longrightarrow> pending_bytes h = pending_bytes h'"
  by (simp add: pending_bytes_def)

lemma read_done_inv:
  assumes "chunks_fit E" "conn_inv c" "read_done (E\<lparr>now := n\<rparr>) t bytes c = Inr c'"
  shows "conn_inv c'"
proof (cases bytes)
  case (Some bs)
  with assms(3) obtain rv h where r: "on_read (E\<lparr>now := n\<rparr>) bs (conn_handler c) = Inr (rv, h)"
    and rest: "if rv \<noteq> 0 then c' = stop (c\<lparr>reading := False, conn_handler := h\<rparr>)
      else \<exists>c2. do_write (E\<lparr>now := n\<rparr>) t (c\<lparr>reading := False, conn_handler := h\<rparr>) = Inr c2 \<and> (c' = stop c2 \<or> c' = do_read t c2)"
    by (auto simp: read_done_def bind_f_Inr Let_def split: if_splits)
  from on_read_safe(2) [OF _ _ r] assms(2) have c1: "conn_inv (c\<lparr>reading := False, conn_handler := h\<rparr>)"
    by (auto simp: conn_inv_def pending_bytes_cong [of h "conn_handler c"])
  with rest do_write_inv [OF assms(1) c1] show ?thesis by (auto split: if_splits)
qed (use assms in \<open>auto simp: read_done_def Let_def\<close>)

lemma write_done_inv:
  assumes "chunks_fit E" "conn_inv c" "write_done (E\<lparr>now := n\<rparr>) t ok c = Inr c'"
  shows "conn_inv c'"
proof -
  have "conn_inv (c\<lparr>in_flight := None\<rparr>)" "conn_inv (c\<lparr>in_flight := None, writing := False\<rparr>)"
    using assms(2) by (simp_all add: conn_inv_def)
  with assms(1,3) do_write_inv [OF assms(1)] show ?thesis by (auto simp: write_done_def Let_def split: if_splits)
qed

lemma initiate_write_inv:
  assumes "chunks_fit E" "conn_inv c" "0 < posted (conn_handler c)" "initiate_write (E\<lparr>now := n\<rparr>) t c = Inr c'"
  shows "conn_inv c'"
proof -
  let ?h = "conn_handler c"
  have "conn_inv (c\<lparr>conn_handler := ?h\<lparr>posted := posted ?h - 1, write_signaled := False\<rparr>\<rparr>)"
    using assms(2,3) by (auto simp: conn_inv_def server_inv_def pending_bytes_def split: if_splits)
  with assms show ?thesis using do_write_inv by (simp add: initiate_write_def Let_def) blast
qed

lemma application_inv:
  assumes "conn_inv c" "run_user E f (conn_handler c) = Inr h"
  shows "conn_inv (c\<lparr>conn_handler := h\<rparr>)"
proof -
  have "keeps (hview (conn_handler c)) (run_user E f (conn_handler c))"
    using assms(1) by (intro run_user_keeps) (simp_all add: conn_inv_def)
  with assms show ?thesis by (auto simp: conn_inv_def hview_def pending_bytes_def)
qed

lemma conn_step_inv:
  assumes "chunks_fit E" "conn_step E c c'" "conn_inv c"
  shows "conn_inv c'"
  using assms(2)
proof cases
  case (Read_done n t bytes)
  show ?thesis by (rule read_done_inv [OF assms(1,3) Read_done(2)])
next
  case (Write_done n t ok)
  show ?thesis by (rule write_done_inv [OF assms(1,3) Write_done(2)])
next
  case (Posted n t)
  show ?thesis by (rule initiate_write_inv [OF assms(1,3) Posted])
next
  case (Deadline t)
  with assms(3) show ?thesis by (auto simp: handle_deadline_def Let_def split: option.split)
next
  case (Application n f h)
  from application_inv [OF assms(3) Application(2)] Application(1) show ?thesis by simp
qed

lemma connection_new_inv: "conn_inv (connection_new t r (http2_handler_new E ep s u))"
  by (simp add: conn_inv_def connection_new_def http2_handler_new_def server_inv_def om.all_entries_def pending_bytes_def)

lemma start_inv: "conn_inv c \<Longrightarrow> conn_inv (start E t c)"
  by (auto simp: start_def handler_start_def conn_inv_def pending_bytes_def stop_def do_read_def Let_def split: prod.splits)

lemma deadline_inv [simp]:
  "conn_inv (handle_deadline t c) = conn_inv c" "conn_inv (start_tls_handshake_deadline t c) = conn_inv c"
  "conn_inv (start_read_deadline t c) = conn_inv c"
  by (simp_all add: handle_deadline_def start_tls_handshake_deadline_def start_read_deadline_def Let_def split: option.split)

lemma do_write_in_flight: "do_write E t c = Inr c' \<Longrightarrow> writing c \<Longrightarrow> c' = c"
  by (simp add: do_write_def)

section \<open>Properties\<close>

text \<open>
  Along every run of a connection, with a library whose chunks fit into the 64 KiB write
  buffer, the handler's invariant holds between events, the callback guard is released, the kept bytes
  fit the buffer, and an outstanding write is non-empty, within the buffer and marked as writing.
\<close>

theorem connection_invariant:
  assumes "chunks_fit E" "conn_reachable E c c'" "conn_inv c"
  shows "conn_inv c'"
  using assms(2,3) conn_step_inv [OF assms(1)] by (induction rule: conn_reachable.induct) blast+

theorem connection_invariant_witness:
  "conn_inv (handle_deadline 5 (start_read_deadline 0 (connection_new 1 2 demo_handler)))"
proof -
  let ?c = "start_read_deadline 0 (connection_new 1 2 demo_handler)"
  have inv: "conn_inv ?c"
    by (simp add: start_read_deadline_def connection_new_def conn_inv_def pending_bytes_def)
  have fit: "chunks_fit demo_env"
    by (auto simp: chunks_fit_def handler_send_def demo_env_def counting_lib_def)
  have "conn_step demo_env ?c (handle_deadline 5 ?c)"
    by (rule conn_step.Deadline) (simp add: start_read_deadline_def)
  then have "conn_reachable demo_env ?c (handle_deadline 5 ?c)"
    by (rule conn_reachable.Step [OF conn_reachable.Initial])
  from connection_invariant [OF fit this inv] show ?thesis .
qed

text \<open>
  C26: while a write is outstanding its buffer is not touched: no event other than the completion of
  that write changes the bytes in flight or starts another write.
\<close>

theorem in_flight_stable:
  assumes "conn_inv c" "in_flight c = Some out" "conn_step E c c'"
  shows "in_flight c' = Some out \<and> writing c' \<or> (\<exists>n t ok. write_done (E\<lparr>now := n\<rparr>) t ok c = Inr c')"
proof -
  have w: "writing c" using assms(1,2) by (simp add: conn_inv_def)
  show ?thesis
    using assms(3)
  proof cases
    case (Read_done n t bytes)
    then show ?thesis using w assms(2)
      by (auto simp: read_done_def bind_f_Inr Let_def do_write_def stop_def do_read_def split: option.splits if_splits)
  next
    case (Posted n t)
    then show ?thesis using w assms(2) by (auto simp: initiate_write_def Let_def do_write_def)
  next
    case (Deadline t)
    then show ?thesis using w assms(2) by (auto simp: handle_deadline_def Let_def stop_def split: option.splits)
  qed (use w assms(2) in auto)
qed

theorem in_flight_stable_witness:
  "let c = (start_read_deadline 0 (connection_new 1 2 demo_handler))\<lparr>writing := True, in_flight := Some ''ab''\<rparr>
   in in_flight (handle_deadline 5 c) = Some ''ab'' \<or> (\<exists>n t ok. write_done (demo_env\<lparr>now := n\<rparr>) t ok c = Inr (handle_deadline 5 c))"
proof -
  let ?c = "(start_read_deadline 0 (connection_new 1 2 demo_handler))\<lparr>writing := True, in_flight := Some ''ab''\<rparr>"
  have inv: "conn_inv ?c"
    by (simp add: start_read_deadline_def connection_new_def conn_inv_def pending_bytes_def outbuf_size_def)
  have "conn_step demo_env ?c (handle_deadline 5 ?c)"
    by (rule conn_step.Deadline) (simp add: start_read_deadline_def)
  from in_flight_stable [OF inv _ this, of "''ab''"] show ?thesis unfolding Let_def by auto
qed

end
