(* ===== verification/Io_Pool.thy ===== *)
theory Io_Pool
  imports Prelude
begin

text \<open>
  \<open>lib/asio_io_service_pool.*\<close>: the pool of io services. A service is its index; the threads that run
  the services are futures, of which \<open>get\<close> may be called once.
\<close>

section \<open>The pool\<close>

datatype pool_error = Pool_size_zero | Future_invalid | Bad_index

record io_service_pool =
  io_services :: nat
  work :: "nat list"
  next_io_service :: nat
  futures :: "bool list"
  services_stopped :: bool

definition io_service_pool_new :: "nat \<Rightarrow> pool_error + io_service_pool" where
  "io_service_pool_new pool_size =
     (if pool_size = 0 then Inl Pool_size_zero
      else Inr \<lparr>io_services = pool_size, work = [0..<pool_size], next_io_service = 0, futures = [], services_stopped = False\<rparr>)"

text \<open>\<open>join\<close> gets every future, which makes it invalid; \<open>get\<close> of an invalid one is an error.\<close>

definition pool_join :: "io_service_pool \<Rightarrow> pool_error + io_service_pool" where
  "pool_join p =
     (if list_all (\<lambda>valid. valid) (futures p) then Inr (p\<lparr>futures := map (\<lambda>_. False) (futures p)\<rparr>) else Inl Future_invalid)"

definition pool_run :: "bool \<Rightarrow> io_service_pool \<Rightarrow> pool_error + io_service_pool" where
  "pool_run asynchronous p =
     (let p = p\<lparr>futures := futures p @ replicate (io_services p) True\<rparr>
      in if asynchronous then Inr p else pool_join p)"

definition pool_force_stop :: "io_service_pool \<Rightarrow> io_service_pool" where
  "pool_force_stop p = p\<lparr>services_stopped := True\<rparr>"

definition pool_stop :: "io_service_pool \<Rightarrow> io_service_pool" where
  "pool_stop p = p\<lparr>work := []\<rparr>"

definition get_io_service :: "io_service_pool \<Rightarrow> pool_error + (nat \<times> io_service_pool)" where
  "get_io_service p =
     (if next_io_service p < io_services p then
        (let n = next_io_service p + 1
         in Inr (next_io_service p, p\<lparr>next_io_service := if n = io_services p then 0 else n\<rparr>))
      else Inl Bad_index)"

fun get_services :: "nat \<Rightarrow> io_service_pool \<Rightarrow> pool_error + (nat list \<times> io_service_pool)" where
  "get_services 0 p = Inr ([], p)"
| "get_services (Suc n) p =
     (case get_io_service p of
        Inl e \<Rightarrow> Inl e
      | Inr (i, p) \<Rightarrow> (case get_services n p of Inl e \<Rightarrow> Inl e | Inr (is, p) \<Rightarrow> Inr (i # is, p)))"

section \<open>Round robin\<close>

definition pool_ok :: "io_service_pool \<Rightarrow> bool" where
  "pool_ok p \<longleftrightarrow> next_io_service p < io_services p"

lemma pool_new_ok: "io_service_pool_new n = Inr p \<Longrightarrow> pool_ok p \<and> io_services p = n \<and> next_io_service p = 0 \<and> futures p = []"
  by (auto simp: io_service_pool_new_def pool_ok_def split: if_splits)

lemma get_io_service_ok:
  assumes "pool_ok p"
  shows "get_io_service p = Inr (next_io_service p, p\<lparr>next_io_service := (next_io_service p + 1) mod io_services p\<rparr>)"
    and "pool_ok (p\<lparr>next_io_service := (next_io_service p + 1) mod io_services p\<rparr>)"
proof -
  have lt: "next_io_service p < io_services p" using assms by (simp add: pool_ok_def)
  then have "(if next_io_service p + 1 = io_services p then 0 else next_io_service p + 1) = (next_io_service p + 1) mod io_services p"
    by auto
  then show "get_io_service p = Inr (next_io_service p, p\<lparr>next_io_service := (next_io_service p + 1) mod io_services p\<rparr>)"
    using lt unfolding get_io_service_def Let_def by simp
  show "pool_ok (p\<lparr>next_io_service := (next_io_service p + 1) mod io_services p\<rparr>)" using lt by (simp add: pool_ok_def)
qed

lemma get_services_ok:
  assumes "pool_ok p"
  shows "get_services n p = Inr (map (\<lambda>k. (next_io_service p + k) mod io_services p) [0..<n],
           p\<lparr>next_io_service := (next_io_service p + n) mod io_services p\<rparr>)"
  using assms
proof (induction n arbitrary: p)
  case 0
  then show ?case by (simp add: pool_ok_def)
next
  case (Suc n)
  let ?p = "p\<lparr>next_io_service := (next_io_service p + 1) mod io_services p\<rparr>"
  have lt: "next_io_service p < io_services p" using Suc.prems by (simp add: pool_ok_def)
  have "[0..<Suc n] = 0 # map Suc [0..<n]" by (simp add: map_Suc_upt upt_conv_Cons)
  then show ?case
    using Suc.IH [OF get_io_service_ok(2) [OF Suc.prems]] get_io_service_ok(1) [OF Suc.prems] lt
    by (simp add: mod_add_left_eq mod_add_right_eq mod_Suc_eq comp_def add.commute add.left_commute)
qed

section \<open>Properties\<close>

text \<open>
  A pool of at least one service hands its services out in turn: the k-th request gets service k modulo the
  size of the pool, so the index is always valid and among any \<open>size\<close> requests in a row each service is chosen exactly once.
\<close>

theorem pool_round_robin:
  assumes "io_service_pool_new sz = Inr p"
  shows "\<exists>p'. get_services n p = Inr (map (\<lambda>k. k mod sz) [0..<n], p') \<and>
    get_services sz p' = Inr (map (\<lambda>k. (n + k) mod sz) [0..<sz], p') \<and>
    distinct (map (\<lambda>k. (n + k) mod sz) [0..<sz])"
proof -
  note p = pool_new_ok [OF assms]
  let ?p = "p\<lparr>next_io_service := n mod sz\<rparr>"
  have sz: "0 < sz" using p by (auto simp: pool_ok_def)
  have a: "get_services n p = Inr (map (\<lambda>k. k mod sz) [0..<n], ?p)" using get_services_ok [of p n] p by simp
  have b: "get_services sz ?p = Inr (map (\<lambda>k. (n + k) mod sz) [0..<sz], ?p)"
    using get_services_ok [of ?p sz] p sz by (simp add: pool_ok_def mod_add_left_eq)
  have uniq: "k = l" if "(n + k) mod sz = (n + l) mod sz" "k < sz" "l < sz" for k l
  proof -
    have "int k mod int sz = int l mod int sz"
      using arg_cong [OF that(1), of int] mod_diff_cong [of "int (n + k)" "int sz" "int (n + l)" "int n" "int n"]
      by (simp add: zmod_int)
    then show ?thesis using that(2,3) by simp
  qed
  have "inj_on (\<lambda>k. (n + k) mod sz) {0..<sz}"
  proof (rule inj_onI)
    fix k l assume "k \<in> {0..<sz}" "l \<in> {0..<sz}" "(n + k) mod sz = (n + l) mod sz"
    then show "k = l" using uniq [of k l] by simp
  qed
  then have "distinct (map (\<lambda>k. (n + k) mod sz) [0..<sz])" by (simp add: distinct_map)
  with a b show ?thesis by blast
qed

theorem pool_round_robin_witness:
  "\<exists>p p'. io_service_pool_new 3 = Inr p \<and> get_services 5 p = Inr (map (\<lambda>k. k mod 3) [0..<5], p')"
  using pool_round_robin [of 3 _ 5] by (fastforce simp: io_service_pool_new_def)

end
