(* ===== verification/Server_Listen.thy ===== *)
theory Server_Listen
  imports Server_Connection Io_Pool
begin

text \<open>
  \<open>lib/asio_server.*\<close>, \<open>lib/asio_server_http2_impl.*\<close> and \<open>lib/asio_server_http2.cc\<close>: binding and listening,
  accepting connections over TCP and TLS, stopping. Name resolution and the acceptor's system calls are
  parameters; an outstanding \<open>async_accept\<close> is a field of its acceptor and its completion an event. A failing
  \<open>set_option\<close> throws; the one on an accepted socket (\<open>no_delay\<close>) is taken to succeed.
\<close>

section \<open>State\<close>

record 'ep network =
  resolve :: "string \<Rightarrow> string \<Rightarrow> error_code + 'ep list"
  acceptor_open :: "'ep \<Rightarrow> error_code"
  reuse_address_fails :: "'ep \<Rightarrow> bool"
  acceptor_bind :: "'ep \<Rightarrow> error_code"
  acceptor_listen :: "'ep \<Rightarrow> int \<Rightarrow> error_code"
  max_connections :: int
  local_port :: "'ep \<Rightarrow> int"

text \<open>\<open>ac_pending\<close> is the io service of the connection an outstanding accept is for.\<close>

record 'ep acceptor =
  ac_endpoint :: 'ep
  ac_io :: nat
  ac_open :: bool
  ac_pending :: "nat option"

datatype conn_phase = Handshaking | Rejected | Started

text \<open>\<open>sc_proto\<close> is the protocol the TLS library reported when the handshake completed.\<close>

record ('s, 'u) served =
  sc_io :: nat
  sc_phase :: conn_phase
  sc_proto :: "string option"
  sc_conn :: "('s, 'u) connection"

record ('s, 'u, 'ep) server =
  sv_pool :: io_service_pool
  acceptors :: "'ep acceptor list"
  sv_tls_handshake_timeout :: int
  sv_read_timeout :: int
  conns :: "('s, 'u) served list"

datatype server_error = Pool_failed pool_error | Option_failed | No_server

definition bind_s :: "server_error + 'a \<Rightarrow> ('a \<Rightarrow> server_error + 'b) \<Rightarrow> server_error + 'b" where
  "bind_s m f = (case m of Inl e \<Rightarrow> Inl e | Inr x \<Rightarrow> f x)"

lemma bind_s_simps [simp]: "bind_s (Inl e) f = Inl e" "bind_s (Inr x) f = f x"
  by (simp_all add: bind_s_def)

definition server_new :: "nat \<Rightarrow> int \<Rightarrow> int \<Rightarrow> server_error + ('s, 'u, 'ep) server" where
  "server_new pool_size tls_timeout rd_timeout =
     (case io_service_pool_new pool_size of
        Inl e \<Rightarrow> Inl (Pool_failed e)
      | Inr p \<Rightarrow> Inr \<lparr>sv_pool = p, acceptors = [], sv_tls_handshake_timeout = tls_timeout, sv_read_timeout = rd_timeout, conns = []\<rparr>)"

definition take_service :: "('s, 'u, 'ep) server \<Rightarrow> server_error + (nat \<times> ('s, 'u, 'ep) server)" where
  "take_service sv =
     (case get_io_service (sv_pool sv) of Inl e \<Rightarrow> Inl (Pool_failed e) | Inr (io, p) \<Rightarrow> Inr (io, sv\<lparr>sv_pool := p\<rparr>))"

section \<open>Binding\<close>

fun bind_loop ::
    "'ep network \<Rightarrow> int \<Rightarrow> 'ep list \<Rightarrow> error_code \<Rightarrow> ('s, 'u, 'ep) server \<Rightarrow> server_error + (error_code \<times> ('s, 'u, 'ep) server)" where
  "bind_loop N backlog [] ec sv = Inr (ec, sv)"
| "bind_loop N backlog (ep # eps) ec sv =
     bind_s (take_service sv) (\<lambda>(io, sv).
       let ec = acceptor_open N ep in
       if ec_failed ec then bind_loop N backlog eps ec sv
       else if reuse_address_fails N ep then Inl Option_failed
       else
         let ec = acceptor_bind N ep in
         if ec_failed ec then bind_loop N backlog eps ec sv
         else
           let ec = acceptor_listen N ep (if backlog = -1 then max_connections N else backlog) in
           if ec_failed ec then bind_loop N backlog eps ec sv
           else bind_loop N backlog eps ec
             (sv\<lparr>acceptors := acceptors sv @ [\<lparr>ac_endpoint = ep, ac_io = io, ac_open = True, ac_pending = None\<rparr>]\<rparr>))"

definition bind_and_listen ::
    "'ep network \<Rightarrow> string \<Rightarrow> string \<Rightarrow> int \<Rightarrow> ('s, 'u, 'ep) server \<Rightarrow> server_error + (error_code \<times> ('s, 'u, 'ep) server)" where
  "bind_and_listen N address prt backlog sv =
     bind_s (take_service sv) (\<lambda>(_, sv).
       case resolve N address prt of
         Inl ec \<Rightarrow> Inr (ec, sv)
       | Inr eps \<Rightarrow>
           bind_s (bind_loop N backlog eps ec_clear sv) (\<lambda>(ec, sv).
             if acceptors sv = [] then Inr (ec, sv) else Inr (ec_clear, sv)))"

section \<open>Accepting\<close>

definition upd_acceptor :: "nat \<Rightarrow> ('ep acceptor \<Rightarrow> 'ep acceptor) \<Rightarrow> ('s, 'u, 'ep) server \<Rightarrow> ('s, 'u, 'ep) server" where
  "upd_acceptor i f sv = sv\<lparr>acceptors := (acceptors sv)[i := f (acceptors sv ! i)]\<rparr>"

definition start_accept :: "nat \<Rightarrow> ('s, 'u, 'ep) server \<Rightarrow> server_error + ('s, 'u, 'ep) server" where
  "start_accept i sv =
     (if \<not> ac_open (acceptors sv ! i) then Inr sv
      else bind_s (take_service sv) (\<lambda>(io, sv). Inr (upd_acceptor i (\<lambda>a. a\<lparr>ac_pending := Some io\<rparr>) sv)))"

text \<open>What the accept handlers do with the new connection, over TLS and in clear text.\<close>

definition accepted ::
    "('s, 'u) server_env \<Rightarrow> bool \<Rightarrow> int \<Rightarrow> ('s, 'u) http2_handler \<Rightarrow> nat \<Rightarrow> ('s, 'u, 'ep) server \<Rightarrow> ('s, 'u) served" where
  "accepted E tls t h io sv =
     (let c = connection_new (sv_tls_handshake_timeout sv) (sv_read_timeout sv) h in
      if tls then \<lparr>sc_io = io, sc_phase = Handshaking, sc_proto = None, sc_conn = start_tls_handshake_deadline t c\<rparr>
      else \<lparr>sc_io = io, sc_phase = Started, sc_proto = None, sc_conn = start E t (start_read_deadline t c)\<rparr>)"

text \<open>The completion of an accept: \<open>peer\<close> is the remote endpoint, \<open>None\<close> an error.\<close>

definition accept_done ::
    "('s, 'u) server_env \<Rightarrow> bool \<Rightarrow> 's \<Rightarrow> 'u \<Rightarrow> int \<Rightarrow> nat \<Rightarrow> string option \<Rightarrow> ('s, 'u, 'ep) server
     \<Rightarrow> server_error + ('s, 'u, 'ep) server" where
  "accept_done E tls null_session u t i peer sv =
     (case ac_pending (acceptors sv ! i) of
        None \<Rightarrow> Inr sv
      | Some io \<Rightarrow>
          (let sv1 = upd_acceptor i (\<lambda>a. a\<lparr>ac_pending := None\<rparr>) sv;
               sv2 = (case peer of
                        None \<Rightarrow> sv1
                      | Some ep \<Rightarrow> sv1\<lparr>conns := conns sv1 @ [accepted E tls t (http2_handler_new E ep null_session u) io sv1]\<rparr>)
           in if tls then start_accept i sv2
              else if ac_open (acceptors sv2 ! i) then start_accept i sv2 else Inr sv2))"

text \<open>The completion of a TLS handshake: \<open>None\<close> is an error, otherwise the protocols NPN and ALPN report.\<close>

definition handshake_done ::
    "('s, 'u) server_env \<Rightarrow> int \<Rightarrow> (string option \<times> string option) option \<Rightarrow> ('s, 'u) served \<Rightarrow> ('s, 'u) served" where
  "handshake_done E t r c =
     (case r of
        None \<Rightarrow> c\<lparr>sc_phase := Rejected, sc_conn := stop (sc_conn c)\<rparr>
      | Some (npn, alpn) \<Rightarrow>
          (let c = c\<lparr>sc_proto := (case npn of Some p \<Rightarrow> Some p | None \<Rightarrow> alpn)\<rparr> in
           if \<not> tls_h2_negotiated npn alpn then c\<lparr>sc_phase := Rejected, sc_conn := stop (sc_conn c)\<rparr>
           else c\<lparr>sc_phase := Started, sc_conn := start E t (sc_conn c)\<rparr>))"

section \<open>Serving and stopping\<close>

fun start_all :: "nat list \<Rightarrow> ('s, 'u, 'ep) server \<Rightarrow> server_error + ('s, 'u, 'ep) server" where
  "start_all [] sv = Inr sv"
| "start_all (i # is) sv = bind_s (start_accept i sv) (start_all is)"

text \<open>\<open>listen_and_serve\<close> up to running the pool, and the whole of it.\<close>

definition begin_serving ::
    "'ep network \<Rightarrow> string \<Rightarrow> string \<Rightarrow> int \<Rightarrow> ('s, 'u, 'ep) server \<Rightarrow> server_error + (error_code \<times> ('s, 'u, 'ep) server)" where
  "begin_serving N address prt backlog sv =
     bind_s (bind_and_listen N address prt backlog sv) (\<lambda>(ec, sv).
       if ec_failed ec then Inr (ec, sv)
       else bind_s (start_all [0..<length (acceptors sv)] sv) (\<lambda>sv. Inr (ec, sv)))"

definition run_server :: "bool \<Rightarrow> ('s, 'u, 'ep) server \<Rightarrow> server_error + ('s, 'u, 'ep) server" where
  "run_server asynchronous sv =
     (case pool_run asynchronous (sv_pool sv) of Inl e \<Rightarrow> Inl (Pool_failed e) | Inr p \<Rightarrow> Inr (sv\<lparr>sv_pool := p\<rparr>))"

definition listen_and_serve ::
    "'ep network \<Rightarrow> string \<Rightarrow> string \<Rightarrow> int \<Rightarrow> bool \<Rightarrow> ('s, 'u, 'ep) server \<Rightarrow> server_error + (error_code \<times> ('s, 'u, 'ep) server)" where
  "listen_and_serve N address prt backlog asynchronous sv =
     bind_s (begin_serving N address prt backlog sv) (\<lambda>(ec, sv).
       if ec_failed ec then Inr (ec, sv) else bind_s (run_server asynchronous sv) (\<lambda>sv. Inr (ec, sv)))"

definition server_stop :: "('s, 'u, 'ep) server \<Rightarrow> ('s, 'u, 'ep) server" where
  "server_stop sv = sv\<lparr>acceptors := map (\<lambda>a. a\<lparr>ac_open := False\<rparr>) (acceptors sv), sv_pool := pool_stop (sv_pool sv)\<rparr>"

definition server_join :: "('s, 'u, 'ep) server \<Rightarrow> server_error + ('s, 'u, 'ep) server" where
  "server_join sv = (case pool_join (sv_pool sv) of Inl e \<Rightarrow> Inl (Pool_failed e) | Inr p \<Rightarrow> Inr (sv\<lparr>sv_pool := p\<rparr>))"

definition ports :: "'ep network \<Rightarrow> ('s, 'u, 'ep) server \<Rightarrow> int list" where
  "ports N sv = map (\<lambda>a. local_port N (ac_endpoint a)) (acceptors sv)"

text \<open>
  \<open>http2_impl\<close> behind the facade \<open>http2\<close>: the settings an application makes before it serves, and the server
  it creates. The routing table reaches the handlers through the environment of the server. Calls that
  dereference \<open>server_\<close> before it was created are an error value.
\<close>

record ('s, 'u, 'ep) http2_impl =
  im_server :: "('s, 'u, 'ep) server option"
  num_threads :: nat
  im_backlog :: int
  im_tls_handshake_timeout :: int
  im_read_timeout :: int
  im_mux :: "'u serve_mux"

definition http2_impl_new :: "('s, 'u, 'ep) http2_impl" where
  "http2_impl_new = \<lparr>im_server = None, num_threads = 1, im_backlog = -1, im_tls_handshake_timeout = 60, im_read_timeout = 60, im_mux = []\<rparr>"

definition impl_num_threads :: "nat \<Rightarrow> ('s, 'u, 'ep) http2_impl \<Rightarrow> ('s, 'u, 'ep) http2_impl" where
  "impl_num_threads n im = im\<lparr>num_threads := n\<rparr>"

definition impl_backlog :: "int \<Rightarrow> ('s, 'u, 'ep) http2_impl \<Rightarrow> ('s, 'u, 'ep) http2_impl" where
  "impl_backlog b im = im\<lparr>im_backlog := b\<rparr>"

definition impl_tls_handshake_timeout :: "int \<Rightarrow> ('s, 'u, 'ep) http2_impl \<Rightarrow> ('s, 'u, 'ep) http2_impl" where
  "impl_tls_handshake_timeout t im = im\<lparr>im_tls_handshake_timeout := t\<rparr>"

definition impl_read_timeout :: "int \<Rightarrow> ('s, 'u, 'ep) http2_impl \<Rightarrow> ('s, 'u, 'ep) http2_impl" where
  "impl_read_timeout t im = im\<lparr>im_read_timeout := t\<rparr>"

definition impl_handle :: "string \<Rightarrow> 'u request_cb option \<Rightarrow> ('s, 'u, 'ep) http2_impl \<Rightarrow> bool \<times> ('s, 'u, 'ep) http2_impl" where
  "impl_handle pat f im = (case handle pat f (im_mux im) of (ok, m) \<Rightarrow> (ok, im\<lparr>im_mux := m\<rparr>))"

definition impl_listen_and_serve ::
    "'ep network \<Rightarrow> string \<Rightarrow> string \<Rightarrow> bool \<Rightarrow> ('s, 'u, 'ep) http2_impl
     \<Rightarrow> server_error + (error_code \<times> ('s, 'u, 'ep) http2_impl)" where
  "impl_listen_and_serve N address prt asynchronous im =
     bind_s (server_new (num_threads im) (im_tls_handshake_timeout im) (im_read_timeout im)) (\<lambda>sv.
       bind_s (listen_and_serve N address prt (im_backlog im) asynchronous sv) (\<lambda>(ec, sv).
         Inr (ec, im\<lparr>im_server := Some sv\<rparr>)))"

definition impl_stop :: "('s, 'u, 'ep) http2_impl \<Rightarrow> server_error + ('s, 'u, 'ep) http2_impl" where
  "impl_stop im =
     (case im_server im of None \<Rightarrow> Inl No_server | Some sv \<Rightarrow> Inr (im\<lparr>im_server := Some (server_stop sv)\<rparr>))"

definition impl_join :: "('s, 'u, 'ep) http2_impl \<Rightarrow> server_error + ('s, 'u, 'ep) http2_impl" where
  "impl_join im =
     (case im_server im of
        None \<Rightarrow> Inl No_server
      | Some sv \<Rightarrow> bind_s (server_join sv) (\<lambda>sv. Inr (im\<lparr>im_server := Some sv\<rparr>)))"

definition impl_ports :: "'ep network \<Rightarrow> ('s, 'u, 'ep) http2_impl \<Rightarrow> server_error + int list" where
  "impl_ports N im = (case im_server im of None \<Rightarrow> Inl No_server | Some sv \<Rightarrow> Inr (ports N sv))"

section \<open>Events\<close>

text \<open>
  What happens to a serving server: accepts and handshakes complete, deadlines of unfinished handshakes
  expire, started connections run (the application's state is shared, so it may have changed since the
  connection's last event), and the application stops the server.
\<close>

inductive server_step ::
    "('s, 'u) server_env \<Rightarrow> 's \<Rightarrow> bool \<Rightarrow> ('s, 'u, 'ep) server \<Rightarrow> ('s, 'u, 'ep) server \<Rightarrow> bool" for E null_session tls where
  Accept_done: "i < length (acceptors sv) \<Longrightarrow> ac_pending (acceptors sv ! i) \<noteq> None \<Longrightarrow>
    accept_done (E\<lparr>now := n\<rparr>) tls null_session u t i peer sv = Inr sv' \<Longrightarrow> server_step E null_session tls sv sv'"
| Handshake_done: "k < length (conns sv) \<Longrightarrow> sc_phase (conns sv ! k) = Handshaking \<Longrightarrow>
    server_step E null_session tls sv (sv\<lparr>conns := (conns sv)[k := handshake_done (E\<lparr>now := n\<rparr>) t r (conns sv ! k)]\<rparr>)"
| Handshake_deadline: "k < length (conns sv) \<Longrightarrow> sc_phase (conns sv ! k) \<noteq> Started \<Longrightarrow> waiting (sc_conn (conns sv ! k)) \<Longrightarrow>
    server_step E null_session tls sv
      (sv\<lparr>conns := (conns sv)[k := (conns sv ! k)\<lparr>sc_conn := handle_deadline t (sc_conn (conns sv ! k))\<rparr>]\<rparr>)"
| Connection: "k < length (conns sv) \<Longrightarrow> sc_phase (conns sv ! k) = Started \<Longrightarrow> c = sc_conn (conns sv ! k) \<Longrightarrow>
    conn_step E (c\<lparr>conn_handler := (conn_handler c)\<lparr>app_state := u\<rparr>\<rparr>) c' \<Longrightarrow>
    server_step E null_session tls sv (sv\<lparr>conns := (conns sv)[k := (conns sv ! k)\<lparr>sc_conn := c'\<rparr>]\<rparr>)"
| Stop: "server_step E null_session tls sv (server_stop sv)"

inductive server_reachable ::
    "('s, 'u) server_env \<Rightarrow> 's \<Rightarrow> bool \<Rightarrow> ('s, 'u, 'ep) server \<Rightarrow> ('s, 'u, 'ep) server \<Rightarrow> bool" for E null_session tls where
  Serving: "server_reachable E null_session tls sv sv"
| Event: "server_reachable E null_session tls sv sv' \<Longrightarrow> server_step E null_session tls sv' sv'' \<Longrightarrow>
    server_reachable E null_session tls sv sv''"

section \<open>Invariant\<close>

definition acceptor_ok :: "nat \<Rightarrow> 'ep acceptor \<Rightarrow> bool" where
  "acceptor_ok n a \<longleftrightarrow>
     ac_io a < n \<and> (ac_open a \<longrightarrow> ac_pending a \<noteq> None) \<and> (\<forall>io. ac_pending a = Some io \<longrightarrow> io < n)"

definition served_ok :: "bool \<Rightarrow> nat \<Rightarrow> ('s, 'u) served \<Rightarrow> bool" where
  "served_ok tls n c \<longleftrightarrow>
     sc_io c < n \<and> (\<not> tls \<longrightarrow> sc_phase c = Started) \<and>
     (sc_phase c \<noteq> Started \<longrightarrow> \<not> reading (sc_conn c) \<and> in_flight (sc_conn c) = None \<and> streams (conn_handler (sc_conn c)) = []) \<and>
     (tls \<and> sc_phase c = Started \<longrightarrow> (\<exists>p. sc_proto c = Some p \<and> check_h2_is_selected p))"

definition server_ok :: "bool \<Rightarrow> ('s, 'u, 'ep) server \<Rightarrow> bool" where
  "server_ok tls sv \<longleftrightarrow>
     pool_ok (sv_pool sv) \<and> (\<forall>a \<in> set (acceptors sv). acceptor_ok (io_services (sv_pool sv)) a) \<and>
     (\<forall>c \<in> set (conns sv). served_ok tls (io_services (sv_pool sv)) c)"

lemma take_service_ok:
  assumes "pool_ok (sv_pool sv)"
  obtains io p where "take_service sv = Inr (io, sv\<lparr>sv_pool := p\<rparr>)" "pool_ok p" "io_services p = io_services (sv_pool sv)" "io < io_services p"
proof -
  let ?p = "(sv_pool sv)\<lparr>next_io_service := (next_io_service (sv_pool sv) + 1) mod io_services (sv_pool sv)\<rparr>"
  have "take_service sv = Inr (next_io_service (sv_pool sv), sv\<lparr>sv_pool := ?p\<rparr>)"
    by (simp add: take_service_def get_io_service_ok(1) [OF assms])
  then show thesis using that get_io_service_ok(2) [OF assms] assms by (simp add: pool_ok_def)
qed

lemma upd_acceptor_sel [simp]:
  "sv_pool (upd_acceptor i f sv) = sv_pool sv" "conns (upd_acceptor i f sv) = conns sv"
  "length (acceptors (upd_acceptor i f sv)) = length (acceptors sv)"
  "i < length (acceptors sv) \<Longrightarrow> acceptors (upd_acceptor i f sv) ! i = f (acceptors sv ! i)"
  by (simp_all add: upd_acceptor_def)

lemma upd_acceptor_set:
  "a \<in> set (acceptors (upd_acceptor i f sv)) \<Longrightarrow> a \<in> set (acceptors sv) \<or> a = f (acceptors sv ! i)"
  by (auto simp: upd_acceptor_def dest: set_update_subset_insert [THEN subsetD])

text \<open>Arming an accept: an open acceptor gets an outstanding accept, nothing else changes but the pool's turn.\<close>

lemma start_accept_arm:
  assumes "pool_ok (sv_pool sv)" "i < length (acceptors sv)"
  obtains sv' io where "start_accept i sv = Inr sv'" "pool_ok (sv_pool sv')" "io_services (sv_pool sv') = io_services (sv_pool sv)"
    "conns sv' = conns sv" "length (acceptors sv') = length (acceptors sv)" "io < io_services (sv_pool sv)"
    "\<forall>j < length (acceptors sv). acceptors sv' ! j =
       (if j = i \<and> ac_open (acceptors sv ! i) then (acceptors sv ! i)\<lparr>ac_pending := Some io\<rparr> else acceptors sv ! j)"
proof -
  obtain io p where io: "take_service sv = Inr (io, sv\<lparr>sv_pool := p\<rparr>)" "pool_ok p"
      "io_services p = io_services (sv_pool sv)" "io < io_services p"
    using take_service_ok [OF assms(1)] .
  show thesis
  proof (cases "ac_open (acceptors sv ! i)")
    case True
    then show thesis
      using io assms(2)
      by (intro that [of "upd_acceptor i (\<lambda>a. a\<lparr>ac_pending := Some io\<rparr>) (sv\<lparr>sv_pool := p\<rparr>)" io])
        (auto simp: start_accept_def upd_acceptor_def nth_list_update)
  next
    case False
    then show thesis using io assms by (intro that [of sv io]) (auto simp: start_accept_def)
  qed
qed

text \<open>The acceptors' part of the invariant without the outstanding accept.\<close>

definition acceptor_bound :: "nat \<Rightarrow> 'ep acceptor \<Rightarrow> bool" where
  "acceptor_bound n a \<longleftrightarrow> acceptor_ok n (a\<lparr>ac_open := False\<rparr>)"

lemma acceptor_bound_weaken [simp]: "acceptor_ok n a \<Longrightarrow> acceptor_bound n a"
  by (simp add: acceptor_ok_def acceptor_bound_def)

lemma start_all_ok:
  assumes "pool_ok (sv_pool sv)" "\<forall>c \<in> set (conns sv). served_ok tls (io_services (sv_pool sv)) c"
    "set is \<subseteq> {0..<length (acceptors sv)}"
    "\<And>j. j < length (acceptors sv) \<Longrightarrow> acceptor_bound (io_services (sv_pool sv)) (acceptors sv ! j)"
    "\<And>j. j < length (acceptors sv) \<Longrightarrow> j \<notin> set is \<Longrightarrow> acceptor_ok (io_services (sv_pool sv)) (acceptors sv ! j)"
  shows "\<exists>sv'. start_all is sv = Inr sv' \<and> server_ok tls sv'"
  using assms
proof (induction "is" arbitrary: sv)
  case Nil
  then show ?case by (auto simp: server_ok_def in_set_conv_nth)
next
  case (Cons i "is")
  let ?n = "io_services (sv_pool sv)"
  have i: "i < length (acceptors sv)" using Cons.prems(3) by simp
  obtain sv' io where r: "start_accept i sv = Inr sv'" "pool_ok (sv_pool sv')" "io_services (sv_pool sv') = ?n"
    "conns sv' = conns sv" "length (acceptors sv') = length (acceptors sv)" "io < ?n"
    "\<forall>j < length (acceptors sv). acceptors sv' ! j =
       (if j = i \<and> ac_open (acceptors sv ! i) then (acceptors sv ! i)\<lparr>ac_pending := Some io\<rparr> else acceptors sv ! j)"
    using start_accept_arm [OF Cons.prems(1) i] .
  have armed: "acceptor_ok ?n (acceptors sv' ! i)"
    using r(6) r(7) [rule_format, OF i] Cons.prems(4) [OF i] by (auto simp: acceptor_ok_def acceptor_bound_def)
  have "\<exists>sv''. start_all is sv' = Inr sv'' \<and> server_ok tls sv''"
  proof (rule Cons.IH)
    show "acceptor_bound (io_services (sv_pool sv')) (acceptors sv' ! j)" if "j < length (acceptors sv')" for j
      using that armed r(7) [rule_format, of j] Cons.prems(4) [of j] by (cases "j = i") (auto simp: r(3,5))
    show "acceptor_ok (io_services (sv_pool sv')) (acceptors sv' ! j)" if "j < length (acceptors sv')" "j \<notin> set is" for j
      using that armed r(7) [rule_format, of j] Cons.prems(5) [of j] by (cases "j = i") (auto simp: r(3,5))
  qed (use r Cons.prems(2,3) in simp_all)
  then show ?case by (simp add: r(1))
qed

lemma start_accept_ok:
  assumes "pool_ok (sv_pool sv)" "i < length (acceptors sv)" "\<forall>c \<in> set (conns sv). served_ok tls (io_services (sv_pool sv)) c"
    "\<And>j. j < length (acceptors sv) \<Longrightarrow> j \<noteq> i \<Longrightarrow> acceptor_ok (io_services (sv_pool sv)) (acceptors sv ! j)"
    "acceptor_bound (io_services (sv_pool sv)) (acceptors sv ! i)"
  shows "\<exists>sv'. start_accept i sv = Inr sv' \<and> server_ok tls sv'"
proof -
  have "\<exists>sv'. start_all [i] sv = Inr sv' \<and> server_ok tls sv'"
  proof (rule start_all_ok)
    show "acceptor_bound (io_services (sv_pool sv)) (acceptors sv ! j)" if "j < length (acceptors sv)" for j
      using assms(4) [OF that] assms(5) by (cases "j = i") auto
  qed (use assms in auto)
  then show ?thesis by (cases "start_accept i sv") auto
qed

lemma served_ok_upd:
  assumes "server_ok tls sv" "served_ok tls (io_services (sv_pool sv)) c"
  shows "server_ok tls (sv\<lparr>conns := (conns sv)[k := c]\<rparr>)"
  using assms by (auto simp: server_ok_def dest: set_update_subset_insert [THEN subsetD])

lemma handshake_done_ok:
  assumes "served_ok tls n c" "sc_phase c = Handshaking"
  shows "served_ok tls n (handshake_done E t r c)"
  using assms
  by (auto simp: handshake_done_def served_ok_def tls_h2_negotiated_def Let_def stop_def split: option.splits)

lemma handle_deadline_fields [simp]:
  "reading (handle_deadline t c) = reading c" "in_flight (handle_deadline t c) = in_flight c"
  "conn_handler (handle_deadline t c) = conn_handler c"
  by (simp_all add: handle_deadline_def stop_def Let_def split: option.split)

lemma accepted_ok: "io < n \<Longrightarrow> served_ok tls n (accepted E tls t (http2_handler_new E ep s u) io sv)"
  by (simp add: accepted_def served_ok_def start_tls_handshake_deadline_def connection_new_def http2_handler_new_def Let_def)

lemma accept_done_ok:
  assumes "server_ok tls sv" "i < length (acceptors sv)" "accept_done E tls s u t i peer sv = Inr sv'"
  shows "server_ok tls sv'"
proof (cases "ac_pending (acceptors sv ! i)")
  case None
  then show ?thesis using assms by (simp add: accept_done_def)
next
  case (Some io)
  let ?n = "io_services (sv_pool sv)"
  define sv1 where "sv1 = upd_acceptor i (\<lambda>a. a\<lparr>ac_pending := None\<rparr>) sv"
  define sv2 where "sv2 = (case peer of None \<Rightarrow> sv1
    | Some ep \<Rightarrow> sv1\<lparr>conns := conns sv1 @ [accepted E tls t (http2_handler_new E ep s u) io sv1]\<rparr>)"
  have ai: "acceptor_ok ?n (acceptors sv ! j)" if "j < length (acceptors sv)" for j
    using assms(1) that by (simp add: server_ok_def)
  have io: "io < ?n" using ai [OF assms(2)] Some by (simp add: acceptor_ok_def)
  have sel: "sv_pool sv2 = sv_pool sv" "acceptors sv2 = (acceptors sv)[i := (acceptors sv ! i)\<lparr>ac_pending := None\<rparr>]"
    by (simp_all add: sv2_def sv1_def upd_acceptor_def split: option.split)
  have conns: "\<forall>c \<in> set (conns sv2). served_ok tls ?n c"
    using assms(1) accepted_ok [OF io] by (auto simp: sv2_def sv1_def server_ok_def split: option.split)
  have "\<exists>sv'. start_accept i sv2 = Inr sv' \<and> server_ok tls sv'"
  proof (rule start_accept_ok)
    show "acceptor_bound (io_services (sv_pool sv2)) (acceptors sv2 ! i)"
      using ai [OF assms(2)] assms(2) by (simp add: sel acceptor_bound_def acceptor_ok_def)
  qed (use assms(1,2) ai conns in \<open>auto simp: sel server_ok_def\<close>)
  then have sa: "start_accept i sv2 = Inr sv'' \<Longrightarrow> server_ok tls sv''" for sv'' by auto
  show ?thesis
  proof (cases "tls \<or> ac_open (acceptors sv2 ! i)")
    case True
    then have "accept_done E tls s u t i peer sv = start_accept i sv2"
      using Some by (auto simp: accept_done_def sv2_def sv1_def Let_def split: option.split)
    then show ?thesis using assms(3) sa by simp
  next
    case False
    then have "accept_done E tls s u t i peer sv = start_accept i sv2"
      using Some by (auto simp: accept_done_def start_accept_def sv2_def sv1_def Let_def split: option.split)
    then show ?thesis using assms(3) sa by simp
  qed
qed

lemma server_step_ok:
  assumes "server_step E s tls sv sv'" "server_ok tls sv"
  shows "server_ok tls sv'"
  using assms
proof (induction rule: server_step.induct)
  case (Accept_done i sv n u t peer sv')
  show ?case by (rule accept_done_ok [OF Accept_done.prems Accept_done.hyps(1,3)])
next
  case (Handshake_done k sv n t r)
  then show ?case by (intro served_ok_upd handshake_done_ok) (auto simp: server_ok_def)
next
  case (Handshake_deadline k sv t)
  then have "served_ok tls (io_services (sv_pool sv)) (conns sv ! k)" by (simp add: server_ok_def)
  then show ?case using Handshake_deadline by (intro served_ok_upd) (auto simp: served_ok_def)
next
  case (Connection k sv c u c')
  then have "served_ok tls (io_services (sv_pool sv)) (conns sv ! k)" by (simp add: server_ok_def)
  then show ?case using Connection by (intro served_ok_upd) (auto simp: served_ok_def)
next
  case (Stop sv)
  then show ?case by (auto simp: server_ok_def server_stop_def pool_stop_def pool_ok_def acceptor_ok_def)
qed

lemma server_reachable_ok:
  assumes "server_reachable E s tls sv sv'" "server_ok tls sv"
  shows "server_ok tls sv'"
  using assms by (induction rule: server_reachable.induct) (auto intro: server_step_ok)

section \<open>Binding\<close>

definition listens :: "'ep network \<Rightarrow> int \<Rightarrow> 'ep \<Rightarrow> bool" where
  "listens N backlog ep \<longleftrightarrow>
     \<not> ec_failed (acceptor_open N ep) \<and> \<not> ec_failed (acceptor_bind N ep) \<and>
     \<not> ec_failed (acceptor_listen N ep (if backlog = -1 then max_connections N else backlog))"

lemma bind_loop_ok:
  assumes "pool_ok (sv_pool sv)" "\<forall>ep \<in> set eps. \<not> reuse_address_fails N ep" "\<forall>a \<in> set (acceptors sv). acceptor_bound (io_services (sv_pool sv)) a"
  shows "\<exists>ec' sv'. bind_loop N backlog eps ec sv = Inr (ec', sv') \<and> pool_ok (sv_pool sv') \<and> conns sv' = conns sv \<and>
    (\<forall>a \<in> set (acceptors sv'). acceptor_bound (io_services (sv_pool sv')) a) \<and>
    map ac_endpoint (acceptors sv') = map ac_endpoint (acceptors sv) @ filter (listens N backlog) eps \<and>
    (if eps = [] then ec' = ec else ec_failed ec' \<longleftrightarrow> \<not> listens N backlog (last eps))"
  using assms
proof (induction eps arbitrary: ec sv)
  case Nil
  then show ?case by simp
next
  case (Cons ep eps)
  obtain io p where io: "take_service sv = Inr (io, sv\<lparr>sv_pool := p\<rparr>)" "pool_ok p"
      "io_services p = io_services (sv_pool sv)" "io < io_services p"
    using take_service_ok [OF Cons.prems(1)] .
  define sv' where "sv' = (if listens N backlog ep
    then sv\<lparr>sv_pool := p, acceptors := acceptors sv @ [\<lparr>ac_endpoint = ep, ac_io = io, ac_open = True, ac_pending = None\<rparr>]\<rparr>
    else sv\<lparr>sv_pool := p\<rparr>)"
  have "\<exists>ec1. bind_loop N backlog (ep # eps) ec sv = bind_loop N backlog eps ec1 sv' \<and> (ec_failed ec1 \<longleftrightarrow> \<not> listens N backlog ep)"
    using io(1) Cons.prems(2) by (auto simp: sv'_def listens_def Let_def)
  then obtain ec1 where ec1: "bind_loop N backlog (ep # eps) ec sv = bind_loop N backlog eps ec1 sv'" "ec_failed ec1 \<longleftrightarrow> \<not> listens N backlog ep"
    by blast
  have sel: "sv_pool sv' = p" "conns sv' = conns sv"
    "map ac_endpoint (acceptors sv') = map ac_endpoint (acceptors sv) @ filter (listens N backlog) [ep]"
    by (simp_all add: sv'_def)
  have "\<forall>a \<in> set (acceptors sv'). acceptor_bound (io_services (sv_pool sv')) a"
    using Cons.prems(3) io(3,4) by (auto simp: sv'_def acceptor_bound_def acceptor_ok_def)
  with Cons.IH [of sv' ec1] Cons.prems(2) io(2) sel obtain ec' sv'' where
    "bind_loop N backlog eps ec1 sv' = Inr (ec', sv'')" "pool_ok (sv_pool sv'')" "conns sv'' = conns sv"
    "\<forall>a \<in> set (acceptors sv''). acceptor_bound (io_services (sv_pool sv'')) a"
    "map ac_endpoint (acceptors sv'') = map ac_endpoint (acceptors sv) @ filter (listens N backlog) [ep] @ filter (listens N backlog) eps"
    "if eps = [] then ec' = ec1 else ec_failed ec' \<longleftrightarrow> \<not> listens N backlog (last eps)"
    by auto
  then show ?case using ec1 by (auto split: if_splits)
qed

lemma ec_clear_ok [simp]: "\<not> ec_failed ec_clear"
  by (simp add: ec_failed_def ec_clear_def)

lemma bind_and_listen_ok:
  assumes "pool_ok (sv_pool sv)" "acceptors sv = []" "resolve N address prt = Inr eps" "\<forall>ep \<in> set eps. \<not> reuse_address_fails N ep"
  shows "\<exists>ec sv'. bind_and_listen N address prt backlog sv = Inr (ec, sv') \<and> pool_ok (sv_pool sv') \<and> conns sv' = conns sv \<and>
    (\<forall>a \<in> set (acceptors sv'). acceptor_bound (io_services (sv_pool sv')) a) \<and>
    map ac_endpoint (acceptors sv') = filter (listens N backlog) eps \<and>
    (ec_failed ec \<longleftrightarrow> eps \<noteq> [] \<and> filter (listens N backlog) eps = [])"
proof -
  obtain io p where io: "take_service sv = Inr (io, sv\<lparr>sv_pool := p\<rparr>)" "pool_ok p"
    using take_service_ok [OF assms(1)] by blast
  obtain ec sv' where r: "bind_loop N backlog eps ec_clear (sv\<lparr>sv_pool := p\<rparr>) = Inr (ec, sv')" "pool_ok (sv_pool sv')" "conns sv' = conns sv"
    "\<forall>a \<in> set (acceptors sv'). acceptor_bound (io_services (sv_pool sv')) a"
    "map ac_endpoint (acceptors sv') = filter (listens N backlog) eps"
    "if eps = [] then ec = ec_clear else ec_failed ec \<longleftrightarrow> \<not> listens N backlog (last eps)"
    using bind_loop_ok [of "sv\<lparr>sv_pool := p\<rparr>" eps N backlog ec_clear] io(2) assms(2,4) by auto
  have "acceptors sv' = [] \<longleftrightarrow> filter (listens N backlog) eps = []" using r(5) by (metis map_is_Nil_conv)
  moreover have "eps \<noteq> [] \<Longrightarrow> filter (listens N backlog) eps = [] \<Longrightarrow> \<not> listens N backlog (last eps)"
    by (simp add: filter_empty_conv)
  ultimately show ?thesis
    using io(1) assms(3) r by (auto simp: bind_and_listen_def split: if_splits)
qed

lemma begin_serving_ok:
  assumes "begin_serving N address prt backlog sv = Inr (ec, sv')" "\<not> ec_failed ec"
    "pool_ok (sv_pool sv)" "acceptors sv = []" "conns sv = []"
    "resolve N address prt = Inr eps" "\<forall>ep \<in> set eps. \<not> reuse_address_fails N ep"
  shows "server_ok tls sv'"
proof -
  obtain ec1 sv1 where b: "bind_and_listen N address prt backlog sv = Inr (ec1, sv1)" "pool_ok (sv_pool sv1)" "conns sv1 = []"
    "\<forall>a \<in> set (acceptors sv1). acceptor_bound (io_services (sv_pool sv1)) a"
    using bind_and_listen_ok [OF assms(3,4,6,7), of backlog] assms(5) by auto
  have "\<exists>sv'. start_all [0..<length (acceptors sv1)] sv1 = Inr sv' \<and> server_ok tls sv'"
    by (rule start_all_ok) (use b in auto)
  then show ?thesis using assms(1,2) b(1) by (auto simp: begin_serving_def split: if_splits)
qed

section \<open>Properties\<close>

text \<open>
  C32: binding a fresh server listens on exactly those resolved endpoints for which opening, binding and listening
  succeed, in the order of resolution, skipping the others; it reports an error iff there were endpoints and
  none of them could be listened on. Every acceptor gets a valid service of the pool.
\<close>

theorem bind_and_listen_result:
  fixes sv :: "('s, 'u, 'ep) server"
  assumes "server_new n tls_timeout rd_timeout = Inr sv" "resolve N address prt = Inr eps"
    "\<forall>ep \<in> set eps. \<not> reuse_address_fails N ep"
  shows "\<exists>ec sv'. bind_and_listen N address prt backlog sv = Inr (ec, sv') \<and>
    map ac_endpoint (acceptors sv') = filter (listens N backlog) eps \<and>
    (ec_failed ec \<longleftrightarrow> eps \<noteq> [] \<and> filter (listens N backlog) eps = []) \<and>
    (\<forall>a \<in> set (acceptors sv'). ac_io a < io_services (sv_pool sv'))"
proof -
  have "pool_ok (sv_pool sv)" "acceptors sv = []"
    using assms(1) pool_new_ok by (auto simp: server_new_def split: sum.splits)
  from bind_and_listen_ok [OF this assms(2,3), of backlog] show ?thesis
    by (fastforce simp: acceptor_bound_def acceptor_ok_def)
qed

definition demo_network :: "nat network" where
  "demo_network = \<lparr>resolve = \<lambda>_ _. Inr [4, 6], acceptor_open = \<lambda>_. ec_clear, reuse_address_fails = \<lambda>_. False,
     acceptor_bind = \<lambda>ep. if ep = 6 then make_error_code 98 else ec_clear, acceptor_listen = \<lambda>_ _. ec_clear,
     max_connections = 4096, local_port = int\<rparr>"

definition demo_server :: "(nat, unit, nat) server" where
  "demo_server = \<lparr>sv_pool = \<lparr>io_services = 2, work = [0..<2], next_io_service = 0, futures = [], services_stopped = False\<rparr>,
     acceptors = [], sv_tls_handshake_timeout = 60, sv_read_timeout = 60, conns = []\<rparr>"

lemma demo_server_new: "server_new 2 60 60 = Inr demo_server"
  by (simp add: server_new_def io_service_pool_new_def demo_server_def)

theorem bind_and_listen_result_witness:
  "\<exists>ec sv'. bind_and_listen demo_network ''localhost'' ''3000'' (-1) demo_server = Inr (ec, sv') \<and>
     map ac_endpoint (acceptors sv') = [4] \<and> \<not> ec_failed ec"
proof -
  have "filter (listens demo_network (-1)) [4, 6] = [4]"
    by (simp add: listens_def demo_network_def ec_failed_def ec_clear_def make_error_code_def)
  then show ?thesis
    using bind_and_listen_result [OF demo_server_new, of demo_network "''localhost''" "''3000''" "[4, 6]" "-1"]
    by (simp add: demo_network_def) auto
qed



end
