(* ===== verification/Server_Runs.thy ===== *)
theory Server_Runs
  imports Server_Listen
begin

text \<open>
  The runs of a whole server (\<open>lib/asio_server.cc\<close> with \<open>lib/asio_server_connection.h\<close>): what holds of every
  connection it accepted. A property of one connection that accepting establishes and that every event of a connection
  keeps holds of all of them; the invariant of a connection is such a property.
\<close>

section \<open>Every connection of a server\<close>

definition timeouts :: "('s, 'u, 'ep) server \<Rightarrow> int \<times> int" where
  "timeouts sv = (sv_tls_handshake_timeout sv, sv_read_timeout sv)"

lemma timeouts_frame [simp]:
  "timeouts (sv\<lparr>sv_pool := p\<rparr>) = timeouts sv" "timeouts (sv\<lparr>acceptors := a\<rparr>) = timeouts sv" "timeouts (sv\<lparr>conns := cs\<rparr>) = timeouts sv"
  "timeouts (upd_acceptor i f sv) = timeouts sv" "timeouts (server_stop sv) = timeouts sv"
  by (simp_all add: timeouts_def upd_acceptor_def server_stop_def)

lemma start_accept_conns: "start_accept i sv = Inr sv' \<Longrightarrow> conns sv' = conns sv \<and> timeouts sv' = timeouts sv"
  by (auto simp: start_accept_def take_service_def upd_acceptor_def timeouts_def split: if_splits sum.splits)

lemma accept_done_conns:
  fixes sv :: "('s, 'u, 'ep) server"
  assumes "accept_done E tls s u t i peer sv = Inr sv'"
  shows "conns sv' = conns sv \<or>
    (\<exists>ep io (sv1 :: ('s, 'u, 'ep) server). timeouts sv1 = timeouts sv \<and> conns sv' = conns sv @ [accepted E tls t (http2_handler_new E ep s u) io sv1])"
proof (cases "ac_pending (acceptors sv ! i)")
  case None
  with assms show ?thesis by (simp add: accept_done_def)
next
  case (Some io)
  define sv1 where "sv1 = upd_acceptor i (\<lambda>a. a\<lparr>ac_pending := None\<rparr>) sv"
  define sv2 where "sv2 = (case peer of None \<Rightarrow> sv1
    | Some ep \<Rightarrow> sv1\<lparr>conns := conns sv1 @ [accepted E tls t (http2_handler_new E ep s u) io sv1]\<rparr>)"
  have "start_accept i sv2 = Inr sv' \<or> sv' = sv2"
    using assms unfolding accept_done_def Some sv1_def [symmetric] Let_def option.case sv2_def [symmetric] by (simp split: if_splits)
  then have "conns sv' = conns sv2" using start_accept_conns by blast
  moreover have "conns sv1 = conns sv" "timeouts sv1 = timeouts sv" by (simp_all add: sv1_def)
  ultimately show ?thesis unfolding sv2_def by (cases peer) auto
qed

lemma accept_done_timeouts: "accept_done E tls s u t i peer sv = Inr sv' \<Longrightarrow> timeouts sv' = timeouts sv"
  by (auto simp: accept_done_def Let_def split: option.splits if_splits dest!: start_accept_conns)

lemma server_step_timeouts: "server_step E s tls sv sv' \<Longrightarrow> timeouts sv' = timeouts sv"
  by (cases rule: server_step.cases) (auto dest: accept_done_timeouts)

text \<open>
  The contract between a server and its connections: \<open>P\<close> holds of a connection when it is accepted, over TLS and in
  clear text, and what the server and the events of the connection do keeps it, under the condition \<open>ok\<close> on the environment.
\<close>

locale connection_property =
  fixes ok :: "('s, 'u) server_env \<Rightarrow> bool" and P :: "('s, 'u) connection \<Rightarrow> bool" and tls_to rd_to :: int
  assumes P_new: "P (start_tls_handshake_deadline t (connection_new tls_to rd_to (http2_handler_new E ep s u)))"
      "P (start_read_deadline t (connection_new tls_to rd_to (http2_handler_new E ep s u)))"
    and P_start: "P c \<Longrightarrow> P (start E t c)"
    and P_stop: "P c \<Longrightarrow> P (stop c)"
    and P_deadline: "P c \<Longrightarrow> P (handle_deadline t c)"
    and P_app: "P c \<Longrightarrow> P (c\<lparr>conn_handler := (conn_handler c)\<lparr>app_state := u\<rparr>\<rparr>)"
    and P_step: "ok E \<Longrightarrow> conn_step E c c' \<Longrightarrow> P c \<Longrightarrow> P c'"
begin

lemma accepted_P: "timeouts sv = (tls_to, rd_to) \<Longrightarrow> P (sc_conn (accepted E tls t (http2_handler_new E ep s u) io sv))"
  by (simp add: accepted_def timeouts_def Let_def P_new P_start)

lemma handshake_done_P: "P (sc_conn c) \<Longrightarrow> P (sc_conn (handshake_done E t r c))"
  by (auto simp: handshake_done_def Let_def P_start P_stop split: option.split)

lemma update_P:
  "\<forall>c \<in> set (conns sv). P (sc_conn c) \<Longrightarrow> P (sc_conn c') \<Longrightarrow> \<forall>c \<in> set ((conns sv)[k := c']). P (sc_conn c)"
  by (auto dest: set_update_subset_insert [THEN subsetD])

lemma server_step_P:
  fixes sv :: "('s, 'u, 'ep) server"
  assumes "ok E" "server_step E s tls sv sv'" "\<forall>c \<in> set (conns sv). P (sc_conn c)" "timeouts sv = (tls_to, rd_to)"
  shows "\<forall>c \<in> set (conns sv'). P (sc_conn c)"
  using assms(2)
proof cases
  case (Accept_done i n u t peer)
  from accept_done_conns [OF Accept_done(3)] show ?thesis
  proof
    assume "\<exists>ep io (sv1 :: ('s, 'u, 'ep) server). timeouts sv1 = timeouts sv \<and>
      conns sv' = conns sv @ [accepted (E\<lparr>now := n\<rparr>) tls t (http2_handler_new (E\<lparr>now := n\<rparr>) ep s u) io sv1]"
    with assms(3,4) accepted_P show ?thesis by auto
  qed (use assms(3) in simp)
next
  case (Handshake_done k n t r)
  with assms(3) have "P (sc_conn (handshake_done (E\<lparr>now := n\<rparr>) t r (conns sv ! k)))" by (simp add: handshake_done_P)
  from update_P [OF assms(3) this] Handshake_done(1) show ?thesis by simp
next
  case (Handshake_deadline k t)
  with assms(3) have "P (handle_deadline t (sc_conn (conns sv ! k)))" by (simp add: P_deadline)
  with update_P [OF assms(3), of "(conns sv ! k)\<lparr>sc_conn := handle_deadline t (sc_conn (conns sv ! k))\<rparr>" k] Handshake_deadline(1)
  show ?thesis by simp
next
  case (Connection k c u c')
  with assms(3) have "P (c\<lparr>conn_handler := (conn_handler c)\<lparr>app_state := u\<rparr>\<rparr>)" by (simp add: P_app)
  with P_step [OF assms(1) Connection(5)] update_P [OF assms(3), of "(conns sv ! k)\<lparr>sc_conn := c'\<rparr>" k] Connection(1)
  show ?thesis by simp
next
  case Stop
  with assms(3) show ?thesis by (simp add: server_stop_def)
qed

lemma server_reachable_P:
  assumes "server_reachable E s tls sv sv'" "ok E" "\<forall>c \<in> set (conns sv). P (sc_conn c)" "timeouts sv = (tls_to, rd_to)"
  shows "\<forall>c \<in> set (conns sv'). P (sc_conn c)"
proof -
  from assms(1,3,4) have "(\<forall>c \<in> set (conns sv'). P (sc_conn c)) \<and> timeouts sv' = (tls_to, rd_to)"
  proof (induction rule: server_reachable.induct)
    case (Event sv' sv'')
    from server_step_P [OF assms(2) Event.hyps(2)] server_step_timeouts [OF Event.hyps(2)] Event.IH Event.prems show ?case by simp
  qed simp
  then show ?thesis ..
qed

end

text \<open>The invariant of a connection is such a property, for a library whose chunks fit.\<close>

lemma app_state_inv: "conn_inv c \<Longrightarrow> conn_inv (c\<lparr>conn_handler := (conn_handler c)\<lparr>app_state := u\<rparr>\<rparr>)"
  by (simp add: conn_inv_def pending_bytes_def)

interpretation conn_inv: connection_property chunks_fit conn_inv tls_to rd_to for tls_to rd_to
  by unfold_locales (auto simp: connection_new_inv start_inv app_state_inv intro: conn_step_inv)

text \<open>So is an armed deadline: a connection that runs has an expiry set and waits for it.\<close>

definition timed :: "('s, 'u) connection \<Rightarrow> bool" where
  "timed c \<longleftrightarrow> stopped c \<or> waiting c \<and> expires_at c \<noteq> None"

lemma timed_frame [simp]:
  "timed (stop c)" "timed c \<Longrightarrow> timed (handle_deadline t c)" "timed c \<Longrightarrow> timed (do_read t c)"
  "timed (c\<lparr>conn_handler := h\<rparr>) = timed c" "timed (c\<lparr>reading := b\<rparr>) = timed c" "timed (c\<lparr>in_flight := i\<rparr>) = timed c"
  "timed (c\<lparr>writing := b\<rparr>) = timed c"
  by (auto simp: timed_def stop_def handle_deadline_def do_read_def Let_def split: option.splits)

lemma do_write_timed: "do_write E t c = Inr c' \<Longrightarrow> timed c \<Longrightarrow> timed c'"
  by (auto simp: do_write_def bind_f_Inr Let_def split: if_splits) (auto simp: timed_def)

lemma conn_step_timed:
  assumes "conn_step E c c'" "timed c"
  shows "timed c'"
  using assms
  by (cases rule: conn_step.cases)
    (auto simp: read_done_def write_done_def initiate_write_def bind_f_Inr Let_def split: option.splits if_splits dest!: do_write_timed)

interpretation timed: connection_property "\<lambda>_. True" timed tls_to rd_to for tls_to rd_to
proof
  fix c :: "('a, 'b) connection" and E t
  assume "timed c"
  then show "timed (start E t c)" by (auto simp: start_def handler_start_def split: prod.splits)
qed (auto simp: start_tls_handshake_deadline_def start_read_deadline_def dest: conn_step_timed, simp_all add: timed_def)

text \<open>And so are the timeouts the server was made with.\<close>

definition has_timeouts :: "int \<Rightarrow> int \<Rightarrow> ('s, 'u) connection \<Rightarrow> bool" where
  "has_timeouts tls_to rd_to c \<longleftrightarrow> tls_handshake_timeout c = tls_to \<and> read_timeout c = rd_to"

lemma has_timeouts_frame [simp]:
  "has_timeouts a b (stop c) = has_timeouts a b c" "has_timeouts a b (handle_deadline t c) = has_timeouts a b c"
  "has_timeouts a b (do_read t c) = has_timeouts a b c" "has_timeouts a b (c\<lparr>conn_handler := h\<rparr>) = has_timeouts a b c"
  "has_timeouts a b (c\<lparr>reading := r\<rparr>) = has_timeouts a b c" "has_timeouts a b (c\<lparr>in_flight := i\<rparr>) = has_timeouts a b c"
  "has_timeouts a b (c\<lparr>writing := w\<rparr>) = has_timeouts a b c" "has_timeouts a b (c\<lparr>expires_at := d\<rparr>) = has_timeouts a b c"
  by (simp_all add: has_timeouts_def stop_def handle_deadline_def do_read_def Let_def split: option.splits)

lemma do_write_timeouts: "do_write E t c = Inr c' \<Longrightarrow> has_timeouts a b c \<Longrightarrow> has_timeouts a b c'"
  by (auto simp: do_write_def bind_f_Inr Let_def split: if_splits)

lemma conn_step_timeouts:
  assumes "conn_step E c c'" "has_timeouts a b c"
  shows "has_timeouts a b c'"
  using assms
  by (cases rule: conn_step.cases)
    (auto simp: read_done_def write_done_def initiate_write_def bind_f_Inr Let_def split: option.splits if_splits dest!: do_write_timeouts)

interpretation has_timeouts: connection_property "\<lambda>_. True" "has_timeouts tls_to rd_to" tls_to rd_to for tls_to rd_to
  by unfold_locales
    (auto simp: start_tls_handshake_deadline_def start_read_deadline_def connection_new_def start_def handler_start_def
      dest: conn_step_timeouts split: prod.splits, simp_all add: has_timeouts_def)

text \<open>At its expiry the deadline of a connection stops it.\<close>

lemma deadline_stops:
  assumes "timed (sc_conn (conns sv ! k))" "\<not> stopped (sc_conn (conns sv ! k))" "k < length (conns sv)"
  shows "\<exists>d. expires_at (sc_conn (conns sv ! k)) = Some d \<and>
    (\<forall>t \<ge> d. \<exists>sv'. server_step E s tls sv sv' \<and> stopped (sc_conn (conns sv' ! k)))"
proof -
  let ?c = "sc_conn (conns sv ! k)"
  from assms(1,2) obtain d where d: "expires_at ?c = Some d" "waiting ?c" by (auto simp: timed_def)
  have "\<exists>sv'. server_step E s tls sv sv' \<and> stopped (sc_conn (conns sv' ! k))" if "d \<le> t" for t
  proof -
    let ?sv = "sv\<lparr>conns := (conns sv)[k := (conns sv ! k)\<lparr>sc_conn := handle_deadline t ?c\<rparr>]\<rparr>"
    have "server_step E s tls sv ?sv"
    proof (cases "sc_phase (conns sv ! k) = Started")
      case True
      have "conn_step E (?c\<lparr>conn_handler := (conn_handler ?c)\<lparr>app_state := app_state (conn_handler ?c)\<rparr>\<rparr>) (handle_deadline t ?c)"
        using conn_step.Deadline [OF d(2)] by simp
      from server_step.Connection [OF assms(3) True refl this] show ?thesis .
    next
      case False
      from server_step.Handshake_deadline [OF assms(3) False d(2)] show ?thesis .
    qed
    moreover have "stopped (sc_conn (conns ?sv ! k))"
      using assms(2,3) d that by (simp add: handle_deadline_def stop_def)
    ultimately show ?thesis by blast
  qed
  with d(1) show ?thesis by blast
qed

section \<open>Before the first event\<close>

lemma take_service_conns: "take_service sv = Inr (io, sv') \<Longrightarrow> conns sv' = conns sv \<and> timeouts sv' = timeouts sv"
  by (auto simp: take_service_def split: sum.splits)

lemma bind_loop_conns: "bind_loop N backlog eps ec sv = Inr (ec', sv') \<Longrightarrow> conns sv' = conns sv \<and> timeouts sv' = timeouts sv"
proof (induction eps arbitrary: ec sv)
  case (Cons ep eps)
  show ?case
  proof (cases "take_service sv")
    case (Inr r)
    obtain io sv1 where r: "r = (io, sv1)" by force
    with Inr take_service_conns [of sv] have "conns sv1 = conns sv \<and> timeouts sv1 = timeouts sv" by simp
    with Cons r Inr show ?thesis by (auto simp: Let_def split: if_splits dest!: Cons.IH)
  qed (use Cons.prems in simp)
qed simp

lemma start_all_conns: "start_all is sv = Inr sv' \<Longrightarrow> conns sv' = conns sv \<and> timeouts sv' = timeouts sv"
  by (induction "is" sv rule: start_all.induct) (auto simp: bind_s_def dest: start_accept_conns split: sum.splits)

lemma begin_serving_conns: "begin_serving N address prt backlog sv = Inr (ec, sv') \<Longrightarrow> conns sv' = conns sv \<and> timeouts sv' = timeouts sv"
  by (auto simp: begin_serving_def bind_and_listen_def bind_s_def
      dest!: take_service_conns bind_loop_conns start_all_conns split: sum.splits if_splits)

lemma serving_fresh:
  assumes "server_new n tls_to rd_to = Inr sv" "begin_serving N address prt backlog sv = Inr (ec, sv1)"
  shows "conns sv1 = []" "timeouts sv1 = (tls_to, rd_to)"
  using assms(1) begin_serving_conns [OF assms(2)] by (auto simp: server_new_def timeouts_def split: sum.splits)

section \<open>A small instance\<close>

text \<open>A server that listens on one endpoint and accepted one connection.\<close>

definition demo_serving :: "(nat, unit, nat) server" where
  "demo_serving = demo_server\<lparr>sv_pool := (sv_pool demo_server)\<lparr>next_io_service := 0\<rparr>,
     acceptors := [\<lparr>ac_endpoint = 4, ac_io = 1, ac_open = True, ac_pending = Some 1\<rparr>]\<rparr>"

lemma demo_accepts:
  obtains sv2 where "length (conns sv2) = 1" "\<forall>c \<in> set (conns sv2). reading (sc_conn c) \<and> \<not> stopped (sc_conn c)"
    "begin_serving demo_network ''localhost'' ''3000'' (-1) demo_server = Inr (ec_clear, demo_serving)"
    "server_reachable demo_env 0 False demo_serving sv2"
proof -
  have s: "begin_serving demo_network ''localhost'' ''3000'' (-1) demo_server = Inr (ec_clear, demo_serving)"
    by (simp add: begin_serving_def bind_and_listen_def take_service_def get_io_service_def demo_network_def demo_server_def
        ec_failed_def ec_clear_def make_error_code_def start_accept_def upd_acceptor_def demo_serving_def Let_def)
  obtain sv2 where r: "accept_done (demo_env\<lparr>now := 0\<rparr>) False 0 () 0 0 (Some ''peer'') demo_serving = Inr sv2" "length (conns sv2) = 1"
    "\<forall>c \<in> set (conns sv2). reading (sc_conn c) \<and> \<not> stopped (sc_conn c)"
    by (simp add: accept_done_def start_accept_def take_service_def get_io_service_def demo_server_def upd_acceptor_def Let_def
        accepted_def start_def handler_start_def demo_env_def counting_lib_def do_read_def demo_serving_def
        start_read_deadline_def connection_new_def)
  have "server_step demo_env 0 False demo_serving sv2"
    by (rule server_step.Accept_done [OF _ _ r(1)]) (simp_all add: demo_serving_def)
  then have "server_reachable demo_env 0 False demo_serving sv2" by (rule server_reachable.Event [OF server_reachable.Serving])
  with that r s show ?thesis by blast
qed

end
