(* ===== verification/Server_Facade.thy ===== *)
theory Server_Facade
  imports Server_Runs
begin

text \<open>
  \<open>lib/asio_server_http2.cc\<close>: the class \<open>http2\<close> an application uses. It owns an \<open>http2_impl\<close> through a unique pointer, which a
  move leaves empty, and forwards every call to it.
\<close>

section \<open>State\<close>

type_synonym ('s, 'u, 'ep) http2 = "('s, 'u, 'ep) http2_impl option"

text \<open>A call on an object that was moved from dereferences a null pointer.\<close>

datatype facade_error = Moved_from | Impl_failed server_error

definition http2_new :: "('s, 'u, 'ep) http2" where
  "http2_new = Some http2_impl_new"

text \<open>The move constructor and the move assignment: the new values of the target and of the source.\<close>

definition http2_move :: "('s, 'u, 'ep) http2 \<Rightarrow> ('s, 'u, 'ep) http2 \<times> ('s, 'u, 'ep) http2" where
  "http2_move other = (other, None)"

definition http2_move_assign ::
    "bool \<Rightarrow> ('s, 'u, 'ep) http2 \<Rightarrow> ('s, 'u, 'ep) http2 \<Rightarrow> ('s, 'u, 'ep) http2 \<times> ('s, 'u, 'ep) http2" where
  "http2_move_assign same this other = (if same then (this, other) else (other, None))"

section \<open>Operations\<close>

definition forward :: "(('s, 'u, 'ep) http2_impl \<Rightarrow> facade_error + 'a) \<Rightarrow> ('s, 'u, 'ep) http2 \<Rightarrow> facade_error + 'a" where
  "forward f h = (case h of None \<Rightarrow> Inl Moved_from | Some im \<Rightarrow> f im)"

definition http2_num_threads :: "nat \<Rightarrow> ('s, 'u, 'ep) http2 \<Rightarrow> facade_error + ('s, 'u, 'ep) http2" where
  "http2_num_threads n = forward (\<lambda>im. Inr (Some (impl_num_threads n im)))"

definition http2_backlog :: "int \<Rightarrow> ('s, 'u, 'ep) http2 \<Rightarrow> facade_error + ('s, 'u, 'ep) http2" where
  "http2_backlog b = forward (\<lambda>im. Inr (Some (impl_backlog b im)))"

definition http2_tls_handshake_timeout :: "int \<Rightarrow> ('s, 'u, 'ep) http2 \<Rightarrow> facade_error + ('s, 'u, 'ep) http2" where
  "http2_tls_handshake_timeout t = forward (\<lambda>im. Inr (Some (impl_tls_handshake_timeout t im)))"

definition http2_read_timeout :: "int \<Rightarrow> ('s, 'u, 'ep) http2 \<Rightarrow> facade_error + ('s, 'u, 'ep) http2" where
  "http2_read_timeout t = forward (\<lambda>im. Inr (Some (impl_read_timeout t im)))"

definition http2_handle ::
    "string \<Rightarrow> 'u request_cb option \<Rightarrow> ('s, 'u, 'ep) http2 \<Rightarrow> facade_error + (bool \<times> ('s, 'u, 'ep) http2)" where
  "http2_handle pat f = forward (\<lambda>im. case impl_handle pat f im of (ok, im) \<Rightarrow> Inr (ok, Some im))"

definition facade_result :: "server_error + 'a \<Rightarrow> facade_error + 'a" where
  "facade_result r = (case r of Inl e \<Rightarrow> Inl (Impl_failed e) | Inr x \<Rightarrow> Inr x)"

text \<open>Both overloads of \<open>listen_and_serve\<close>; the TLS context reaches the accept loop as the flag of its events.\<close>

definition http2_listen_and_serve ::
    "'ep network \<Rightarrow> string \<Rightarrow> string \<Rightarrow> bool \<Rightarrow> ('s, 'u, 'ep) http2 \<Rightarrow> facade_error + (error_code \<times> ('s, 'u, 'ep) http2)" where
  "http2_listen_and_serve N address prt asynchronous =
     forward (\<lambda>im. facade_result (bind_s (impl_listen_and_serve N address prt asynchronous im) (\<lambda>(ec, im). Inr (ec, Some im))))"

definition http2_stop :: "('s, 'u, 'ep) http2 \<Rightarrow> facade_error + ('s, 'u, 'ep) http2" where
  "http2_stop = forward (\<lambda>im. facade_result (bind_s (impl_stop im) (\<lambda>im. Inr (Some im))))"

definition http2_join :: "('s, 'u, 'ep) http2 \<Rightarrow> facade_error + ('s, 'u, 'ep) http2" where
  "http2_join = forward (\<lambda>im. facade_result (bind_s (impl_join im) (\<lambda>im. Inr (Some im))))"

definition http2_ports :: "'ep network \<Rightarrow> ('s, 'u, 'ep) http2 \<Rightarrow> facade_error + int list" where
  "http2_ports N = forward (\<lambda>im. facade_result (impl_ports N im))"

section \<open>Settings\<close>

text \<open>The calls an application makes before it serves, and what a sequence of them amounts to.\<close>

datatype 'u setting =
    Num_threads nat
  | Backlog int
  | Tls_handshake_timeout int
  | Read_timeout int
  | Handle string "'u request_cb option"

fun apply_setting :: "'u setting \<Rightarrow> ('s, 'u, 'ep) http2 \<Rightarrow> facade_error + ('s, 'u, 'ep) http2" where
  "apply_setting (Num_threads n) h = http2_num_threads n h"
| "apply_setting (Backlog b) h = http2_backlog b h"
| "apply_setting (Tls_handshake_timeout t) h = http2_tls_handshake_timeout t h"
| "apply_setting (Read_timeout t) h = http2_read_timeout t h"
| "apply_setting (Handle pat f) h = (case http2_handle pat f h of Inl e \<Rightarrow> Inl e | Inr (ok, h) \<Rightarrow> Inr h)"

fun apply_settings :: "'u setting list \<Rightarrow> ('s, 'u, 'ep) http2 \<Rightarrow> facade_error + ('s, 'u, 'ep) http2" where
  "apply_settings [] h = Inr h"
| "apply_settings (x # xs) h = (case apply_setting x h of Inl e \<Rightarrow> Inl e | Inr h \<Rightarrow> apply_settings xs h)"

text \<open>The last value a selector finds in a list of settings, or a default.\<close>

definition last_setting :: "('u setting \<Rightarrow> 'a option) \<Rightarrow> 'a \<Rightarrow> 'u setting list \<Rightarrow> 'a" where
  "last_setting sel d xs = fold (\<lambda>x v. case sel x of Some v' \<Rightarrow> v' | None \<Rightarrow> v) xs d"

fun the_threads :: "'u setting \<Rightarrow> nat option" where
  "the_threads (Num_threads n) = Some n" | "the_threads _ = None"

fun the_backlog :: "'u setting \<Rightarrow> int option" where
  "the_backlog (Backlog b) = Some b" | "the_backlog _ = None"

fun the_tls_timeout :: "'u setting \<Rightarrow> int option" where
  "the_tls_timeout (Tls_handshake_timeout t) = Some t" | "the_tls_timeout _ = None"

fun the_read_timeout :: "'u setting \<Rightarrow> int option" where
  "the_read_timeout (Read_timeout t) = Some t" | "the_read_timeout _ = None"

fun add_handler :: "'u setting \<Rightarrow> 'u serve_mux \<Rightarrow> 'u serve_mux" where
  "add_handler (Handle pat f) m = snd (handle pat f m)" | "add_handler _ m = m"

lemma last_setting_simps [simp]:
  "last_setting sel d [] = d" "last_setting sel d (x # xs) = last_setting sel (case sel x of Some v \<Rightarrow> v | None \<Rightarrow> d) xs"
  by (simp_all add: last_setting_def)

lemma apply_settings_some:
  "apply_settings xs (Some im) = Inr (Some (im\<lparr>num_threads := last_setting the_threads (num_threads im) xs,
     im_backlog := last_setting the_backlog (im_backlog im) xs,
     im_tls_handshake_timeout := last_setting the_tls_timeout (im_tls_handshake_timeout im) xs,
     im_read_timeout := last_setting the_read_timeout (im_read_timeout im) xs,
     im_mux := fold add_handler xs (im_mux im)\<rparr>))"
proof (induction xs arbitrary: im)
  case (Cons x xs)
  show ?case
    by (cases x)
      (simp_all add: Cons.IH http2_num_threads_def http2_backlog_def http2_tls_handshake_timeout_def http2_read_timeout_def
        http2_handle_def forward_def impl_num_threads_def impl_backlog_def impl_tls_handshake_timeout_def impl_read_timeout_def
        impl_handle_def split_beta)
qed simp

section \<open>Properties\<close>





end
