(* ===== verification/Server_Output.thy ===== *)
theory Server_Output
  imports Server_Connection "HOL-Library.Sublist"
begin

text \<open>
  The output of a connection over a whole run (\<open>lib/asio_server_connection.h\<close> with \<open>on_write\<close> of
  \<open>lib/asio_server_http2_handler.h\<close>): the events of a connection as data, so that a run is a list of
  events, and the abstract pipe it implements. The library puts chunks into the pipe, the socket gets the bytes
  out of it in the same order.
\<close>

section \<open>Runs as lists of events\<close>

text \<open>Each event carries what the environment decides: the clock of the dates, the clock of the timers, the outcome.\<close>

datatype 'u conn_event =
    Read_event int int "string option"
  | Write_event int int bool
  | Posted_event int int
  | Deadline_event int
  | App_event int "'u \<Rightarrow> 'u user_prog \<times> 'u"

fun conn_enabled :: "'u conn_event \<Rightarrow> ('s, 'u) connection \<Rightarrow> bool" where
  "conn_enabled (Read_event n t bytes) c = reading c"
| "conn_enabled (Write_event n t ok) c = (in_flight c \<noteq> None)"
| "conn_enabled (Posted_event n t) c = (0 < posted (conn_handler c))"
| "conn_enabled (Deadline_event t) c = waiting c"
| "conn_enabled (App_event n f) c = True"

fun conn_exec :: "('s, 'u) server_env \<Rightarrow> 'u conn_event \<Rightarrow> ('s, 'u) connection \<Rightarrow> fault + ('s, 'u) connection" where
  "conn_exec E (Read_event n t bytes) c = read_done (E\<lparr>now := n\<rparr>) t bytes c"
| "conn_exec E (Write_event n t ok) c = write_done (E\<lparr>now := n\<rparr>) t ok c"
| "conn_exec E (Posted_event n t) c = initiate_write (E\<lparr>now := n\<rparr>) t c"
| "conn_exec E (Deadline_event t) c = Inr (handle_deadline t c)"
| "conn_exec E (App_event n f) c = bind_f (run_user (E\<lparr>now := n\<rparr>) f (conn_handler c)) (\<lambda>h. Inr (c\<lparr>conn_handler := h\<rparr>))"

lemma conn_step_events: "conn_step E c c' \<longleftrightarrow> (\<exists>e. conn_enabled e c \<and> conn_exec E e c = Inr c')"
proof
  assume "conn_step E c c'"
  then show "\<exists>e. conn_enabled e c \<and> conn_exec E e c = Inr c'"
  proof cases
    case (Read_done n t bytes) then show ?thesis by (intro exI [of _ "Read_event n t bytes"]) simp
  next
    case (Write_done n t ok) then show ?thesis by (intro exI [of _ "Write_event n t ok"]) simp
  next
    case (Posted n t) then show ?thesis by (intro exI [of _ "Posted_event n t"]) simp
  next
    case (Deadline t) then show ?thesis by (intro exI [of _ "Deadline_event t"]) simp
  next
    case (Application n f h) then show ?thesis by (intro exI [of _ "App_event n f"]) simp
  qed
next
  assume "\<exists>e. conn_enabled e c \<and> conn_exec E e c = Inr c'"
  then obtain e where "conn_enabled e c" "conn_exec E e c = Inr c'" by blast
  then show "conn_step E c c'"
    by (cases e) (auto simp: bind_f_Inr intro: conn_step.intros)
qed

section \<open>What goes into the pipe and what comes out\<close>

text \<open>The chunks the library returns while the loop fills a buffer of \<open>N\<close> bytes that holds \<open>out\<close>.\<close>

function fill_chunks :: "('h \<Rightarrow> fault + (int \<times> string \<times> 'h)) \<Rightarrow> nat \<Rightarrow> string \<Rightarrow> 'h \<Rightarrow> string list" where
  "fill_chunks send N out h =
     (case send h of
        Inl e \<Rightarrow> []
      | Inr (n, data, h') \<Rightarrow>
          if n < 0 \<or> data = [] then []
          else if length out + length data > N then [data]
          else data # fill_chunks send N (out @ data) h')"
  by auto
termination
  by (relation "measure (\<lambda>(send, N, out, h). N - length out)") (auto simp flip: length_greater_0_conv)

declare fill_chunks.simps [simp del]

definition write_chunks :: "('s, 'u) server_env \<Rightarrow> ('s, 'u) connection \<Rightarrow> string list" where
  "write_chunks E c =
     (if writing c then []
      else fill_chunks (handler_send E) outbuf_size (pending_bytes (conn_handler c))
             ((set_inside True (conn_handler c))\<lparr>pending := None\<rparr>))"

fun conn_chunks :: "('s, 'u) server_env \<Rightarrow> 'u conn_event \<Rightarrow> ('s, 'u) connection \<Rightarrow> string list" where
  "conn_chunks E (Read_event n t None) c = []"
| "conn_chunks E (Read_event n t (Some bs)) c =
     (case on_read (E\<lparr>now := n\<rparr>) bs (conn_handler c) of
        Inr (rv, h) \<Rightarrow> if rv \<noteq> 0 then [] else write_chunks (E\<lparr>now := n\<rparr>) (c\<lparr>reading := False, conn_handler := h\<rparr>)
      | Inl _ \<Rightarrow> [])"
| "conn_chunks E (Write_event n t ok) c =
     (if \<not> ok then [] else write_chunks (E\<lparr>now := n\<rparr>) (c\<lparr>in_flight := None, writing := False\<rparr>))"
| "conn_chunks E (Posted_event n t) c =
     write_chunks (E\<lparr>now := n\<rparr>)
       (c\<lparr>conn_handler := (conn_handler c)\<lparr>posted := posted (conn_handler c) - 1, write_signaled := False\<rparr>\<rparr>)"
| "conn_chunks E (Deadline_event t) c = []"
| "conn_chunks E (App_event n f) c = []"

text \<open>The bytes of the write an event starts on an open socket.\<close>

definition flight_bytes :: "('s, 'u) connection \<Rightarrow> string" where
  "flight_bytes c = (case in_flight c of Some out \<Rightarrow> out | None \<Rightarrow> [])"

definition conn_handed :: "'u conn_event \<Rightarrow> ('s, 'u) connection \<Rightarrow> ('s, 'u) connection \<Rightarrow> string" where
  "conn_handed e c c' =
     (if stopped c then []
      else case e of Write_event _ _ _ \<Rightarrow> flight_bytes c' | _ \<Rightarrow> if in_flight c = None then flight_bytes c' else [])"

text \<open>A run: the chunks of the library, the bytes for the socket, and the final state. Events that are not enabled do nothing.\<close>

fun conn_run ::
    "('s, 'u) server_env \<Rightarrow> 'u conn_event list \<Rightarrow> ('s, 'u) connection \<Rightarrow> fault + (string list \<times> string \<times> ('s, 'u) connection)" where
  "conn_run E [] c = Inr ([], [], c)"
| "conn_run E (e # es) c =
     (if \<not> conn_enabled e c then conn_run E es c
      else
        bind_f (conn_exec E e c) (\<lambda>c1.
        bind_f (conn_run E es c1) (\<lambda>(ds, out, c2).
          Inr (conn_chunks E e c @ ds, conn_handed e c c1 @ out, c2))))"

section \<open>One event\<close>

lemma fill_chunks_bytes:
  assumes "fill_loop send N out h = Inr (n, out', p, h')"
  shows "out' @ (case p of None \<Rightarrow> [] | Some d \<Rightarrow> d) = out @ concat (fill_chunks send N out h)"
  using assms
proof (induction send N out h rule: fill_loop.induct)
  case (1 send N out h)
  from "1.prems"(1) obtain m bs h1 where s: "send h = Inr (m, bs, h1)"
    by (subst (asm) fill_loop.simps) (auto split: sum.splits)
  consider "m < 0 \<or> bs = []" | "0 \<le> m" "bs \<noteq> []" "N < length out + length bs"
    | "0 \<le> m" "bs \<noteq> []" "length out + length bs \<le> N" by linarith
  then show ?case
  proof cases
    case 1
    then have "fill_chunks send N out h = []" by (simp add: fill_chunks.simps [of send N out h] s)
    with 1 "1.prems" show ?thesis by (auto simp: fill_loop_cases(2) [of send h, OF s])
  next
    case 2
    then have "fill_chunks send N out h = [bs]" by (simp add: fill_chunks.simps [of send N out h] s)
    with 2 "1.prems" show ?thesis by (auto simp: fill_loop_cases(3) [of send h, OF s])
  next
    case 3
    with "1.prems" have "fill_loop send N (out @ bs) h1 = Inr (n, out', p, h')"
      by (simp add: fill_loop_cases(4) [of send h, OF s])
    with "1.IH" [OF s refl refl] 3 show ?thesis by (simp add: fill_chunks.simps [of send N out h] s)
  qed
qed

lemma on_write_chunks:
  assumes "server_inv h" "on_write E N h = Inr ((0, out), h')" "length (pending_bytes h) \<le> N"
  shows "out @ pending_bytes h' = pending_bytes h @ concat (fill_chunks (handler_send E) N (pending_bytes h) ((set_inside True h)\<lparr>pending := None\<rparr>))"
proof -
  obtain n p h1 where f: "fill_loop (handler_send E) N (pending_bytes h) ((set_inside True h)\<lparr>pending := None\<rparr>) = Inr (n, out, p, h1)"
    and h': "h' = set_inside False (h1\<lparr>pending := p\<rparr>)"
    using assms(2,3)
    by (auto simp: on_write_def srv_guard.guarded_Inr bind_f_Inr pending_bytes_def set_inside_def Let_def
        split: if_splits prod.splits)
  have "pending_bytes h' = (case p of None \<Rightarrow> [] | Some d \<Rightarrow> d)"
    by (simp add: h' pending_bytes_def set_inside_def split: option.split)
  with fill_chunks_bytes [OF f] show ?thesis by simp
qed

text \<open>An event conveys bytes: as long as the connection runs, what was kept and what the library added is what was handed over and what is kept.\<close>

abbreviation kept :: "('s, 'u) connection \<Rightarrow> string" where
  "kept c \<equiv> pending_bytes (conn_handler c)"

definition conveys :: "('s, 'u) connection \<Rightarrow> string list \<Rightarrow> string \<Rightarrow> ('s, 'u) connection \<Rightarrow> bool" where
  "conveys c ds out c' \<longleftrightarrow> (if stopped c' then out = [] else out @ kept c' = kept c @ concat ds)"

lemma do_write_conveys:
  assumes "conn_inv c" "\<not> stopped c" "\<not> writing c" "do_write E t c = Inr c'"
  shows "conveys c (write_chunks E c) (flight_bytes c') c'"
proof -
  have none: "in_flight c = None" using assms(1,3) by (auto simp: conn_inv_def)
  from assms(3,4) obtain rv out h where w: "on_write E outbuf_size (conn_handler c) = Inr ((rv, out), h)"
    and c': "c' = (if rv \<noteq> 0 then stop (c\<lparr>conn_handler := h\<rparr>)
      else if out = [] then (if should_stop E h then stop (c\<lparr>conn_handler := h\<rparr>) else c\<lparr>conn_handler := h\<rparr>)
      else c\<lparr>conn_handler := h, writing := True, expires_at := Some (t + read_timeout c), in_flight := Some out\<rparr>)"
    by (auto simp: do_write_def bind_f_Inr Let_def split: if_splits)
  have "rv = 0 \<Longrightarrow> out @ pending_bytes h = kept c @ concat (write_chunks E c)"
    using assms(1,3) w on_write_chunks [of "conn_handler c" E outbuf_size out h] by (simp add: conn_inv_def write_chunks_def)
  then show ?thesis
    using none assms(2) by (auto simp: c' conveys_def flight_bytes_def stop_def)
qed


lemma stop_conveys [simp]: "conveys c ds [] (stop c')"
  by (simp add: conveys_def stop_def)

lemma do_write_stopped: "do_write E t c = Inr c' \<Longrightarrow> stopped c \<Longrightarrow> stopped c'"
  by (auto simp: do_write_def stop_def bind_f_Inr Let_def split: if_splits)

lemma read_stopped:
  assumes "read_done E t bytes c = Inr c'" "stopped c"
  shows "stopped c'"
proof -
  from assms(1) have "(\<exists>h. c' = stop (c\<lparr>reading := False, conn_handler := h\<rparr>)) \<or> c' = stop (c\<lparr>reading := False\<rparr>) \<or>
    (\<exists>h c2. do_write E t (c\<lparr>reading := False, conn_handler := h\<rparr>) = Inr c2 \<and> (c' = stop c2 \<or> c' = do_read t c2))"
    unfolding read_done_def by (auto simp: bind_f_Inr Let_def split: option.splits if_splits)
  then show ?thesis using assms(2) do_write_stopped by (fastforce simp: stop_def do_read_def)
qed

lemma stopped_stays:
  assumes "conn_exec E e c = Inr c'" "stopped c"
  shows "stopped c'"
proof (cases e)
  case (Read_event n t bytes)
  then show ?thesis using assms by (auto dest: read_stopped)
next
  case (Write_event n t ok)
  then show ?thesis using assms by (auto simp: write_done_def Let_def stop_def split: if_splits dest: do_write_stopped)
next
  case (Posted_event n t)
  then show ?thesis using assms by (auto simp: initiate_write_def Let_def dest: do_write_stopped)
next
  case (Deadline_event t)
  then show ?thesis using assms by (auto simp: handle_deadline_def Let_def)
qed (use assms in \<open>auto simp: bind_f_Inr\<close>)

lemma do_write_conveys_any:
  assumes "conn_inv c" "\<not> stopped c" "do_write E t c = Inr c'"
  shows "conveys c (write_chunks E c) (if in_flight c = None then flight_bytes c' else []) c'"
proof (cases "writing c")
  case True
  then have "c' = c" using assms(3) by (simp add: do_write_def)
  then show ?thesis using True assms(2) by (simp add: conveys_def write_chunks_def flight_bytes_def)
next
  case False
  then have "in_flight c = None" using assms(1) by (auto simp: conn_inv_def)
  with do_write_conveys [OF assms(1,2) False assms(3)] show ?thesis by simp
qed

lemma read_conveys:
  assumes "conn_inv c" "\<not> stopped c" "read_done (E\<lparr>now := n\<rparr>) t bytes c = Inr c'"
  shows "conveys c (conn_chunks E (Read_event n t bytes) c) (if in_flight c = None then flight_bytes c' else []) c'"
proof (cases bytes)
  case None
  then show ?thesis using assms by (auto simp: read_done_def stop_def conveys_def flight_bytes_def split: if_splits)
next
  case (Some bs)
  let ?E = "E\<lparr>now := n\<rparr>"
  from assms(3) Some obtain rv h where r: "on_read ?E bs (conn_handler c) = Inr (rv, h)"
    and rest: "if rv \<noteq> 0 then c' = stop (c\<lparr>reading := False, conn_handler := h\<rparr>)
      else \<exists>c2. do_write ?E t (c\<lparr>reading := False, conn_handler := h\<rparr>) = Inr c2
        \<and> c' = (if \<not> writing c2 \<and> should_stop ?E (conn_handler c2) then stop c2 else do_read t c2)"
    by (auto simp: read_done_def bind_f_Inr Let_def split: if_splits)
  let ?c1 = "c\<lparr>reading := False, conn_handler := h\<rparr>"
  have c1: "conn_inv ?c1" and k: "kept ?c1 = kept c"
    using on_read_safe(2) [OF _ _ r] assms(1) by (auto simp: conn_inv_def pending_bytes_cong [of h "conn_handler c"])
  show ?thesis
  proof (cases "rv = 0")
    case False
    with rest assms(2) show ?thesis by (auto simp: conveys_def stop_def flight_bytes_def)
  next
    case True
    with rest obtain c2 where w: "do_write ?E t ?c1 = Inr c2"
      and c': "c' = (if \<not> writing c2 \<and> should_stop ?E (conn_handler c2) then stop c2 else do_read t c2)" by auto
    have cv: "conveys ?c1 (write_chunks ?E ?c1) (if in_flight c = None then flight_bytes c2 else []) c2"
      using do_write_conveys_any [OF c1 _ w] assms(2) by simp
    have "\<not> writing c2 \<Longrightarrow> in_flight c = None \<Longrightarrow> flight_bytes c2 = []"
      using w by (auto simp: do_write_def bind_f_Inr flight_bytes_def stop_def Let_def split: if_splits)
    with cv k r True Some show ?thesis
      by (auto simp: c' conveys_def do_read_def stop_def flight_bytes_def split: if_splits)
  qed
qed

lemma event_conveys:
  assumes "conn_inv c" "\<not> stopped c" "conn_enabled e c" "conn_exec E e c = Inr c'"
  shows "conveys c (conn_chunks E e c) (conn_handed e c c') c'"
proof (cases e)
  case (Read_event n t bytes)
  with read_conveys [where E = E and n = n and t = t and bytes = bytes, OF assms(1,2)] assms(2,4) show ?thesis by (simp add: conn_handed_def)
next
  case (Write_event n t ok)
  let ?c1 = "c\<lparr>in_flight := None, writing := False\<rparr>"
  have "conn_inv ?c1" "\<not> stopped ?c1" using assms(1,2) by (auto simp: conn_inv_def)
  from do_write_conveys_any [OF this] Write_event assms(2,4) show ?thesis
    by (auto simp: conn_handed_def write_done_def conveys_def stop_def flight_bytes_def split: if_splits)
next
  case (Posted_event n t)
  let ?h = "conn_handler c"
  let ?c1 = "c\<lparr>conn_handler := ?h\<lparr>posted := posted ?h - 1, write_signaled := False\<rparr>\<rparr>"
  have "conn_inv ?c1" "\<not> stopped ?c1"
    using assms(1-3) Posted_event by (auto simp: conn_inv_def server_inv_def pending_bytes_def split: if_splits)
  from do_write_conveys_any [OF this, of "E\<lparr>now := n\<rparr>" t c'] Posted_event assms(2,4)
  have "conveys ?c1 (conn_chunks E e c) (conn_handed e c c') c'" by (simp add: conn_handed_def initiate_write_def Let_def)
  moreover have "kept ?c1 = kept c" by (simp add: pending_bytes_def)
  ultimately show ?thesis by (simp add: conveys_def)
next
  case (Deadline_event t)
  with assms show ?thesis
    by (auto simp: conn_handed_def conveys_def handle_deadline_def Let_def stop_def flight_bytes_def split: option.splits if_splits)
next
  case (App_event n f)
  with assms(4) obtain h where r: "run_user (E\<lparr>now := n\<rparr>) f (conn_handler c) = Inr h" and c': "c' = c\<lparr>conn_handler := h\<rparr>"
    by (auto simp: bind_f_Inr)
  have "keeps (hview (conn_handler c)) (run_user (E\<lparr>now := n\<rparr>) f (conn_handler c))"
    using assms(1) by (intro run_user_keeps) (simp_all add: conn_inv_def)
  then have "kept c' = kept c" by (simp add: r c' hview_def pending_bytes_def)
  with App_event assms(2) c' show ?thesis by (auto simp: conn_handed_def conveys_def flight_bytes_def split: option.split)
qed

section \<open>Whole runs\<close>

lemma stopped_run_silent: "conn_run E es c = Inr (ds, out, c') \<Longrightarrow> stopped c \<Longrightarrow> out = [] \<and> stopped c'"
proof (induction es arbitrary: c ds out)
  case (Cons e es)
  then show ?case
    by (fastforce simp: bind_f_Inr conn_handed_def split: if_splits dest: stopped_stays)
qed simp

lemma conn_exec_inv:
  assumes "chunks_fit E" "conn_inv c" "conn_enabled e c" "conn_exec E e c = Inr c'"
  shows "conn_inv c'"
  using conn_step_inv [OF assms(1) _ assms(2)] conn_step_events assms(3,4) by blast

lemma conn_run_inv:
  assumes "chunks_fit E"
  shows "conn_run E es c = Inr (ds, out, c') \<Longrightarrow> conn_inv c \<Longrightarrow> conn_inv c'"
  by (induction es arbitrary: c ds out) (auto simp: bind_f_Inr split: if_splits dest: conn_exec_inv [OF assms])

lemma run_conveys:
  assumes "chunks_fit E"
  shows "conn_run E es c = Inr (ds, out, c') \<Longrightarrow> conn_inv c \<Longrightarrow> \<not> stopped c \<Longrightarrow>
    prefix out (kept c @ concat ds) \<and> (\<not> stopped c' \<longrightarrow> out @ kept c' = kept c @ concat ds)"
proof (induction es arbitrary: c ds out)
  case (Cons e es)
  show ?case
  proof (cases "conn_enabled e c")
    case False
    with Cons show ?thesis by simp
  next
    case True
    with Cons.prems(1) obtain c1 ds1 out1 where x: "conn_exec E e c = Inr c1"
      and run: "conn_run E es c1 = Inr (ds1, out1, c')"
      and ds: "ds = conn_chunks E e c @ ds1" and out: "out = conn_handed e c c1 @ out1"
      by (auto simp: bind_f_Inr)
    have inv: "conn_inv c1" by (rule conn_exec_inv [OF assms Cons.prems(2) True x])
    have cv: "conveys c (conn_chunks E e c) (conn_handed e c c1) c1" by (rule event_conveys [OF Cons.prems(2,3) True x])
    show ?thesis
    proof (cases "stopped c1")
      case True
      with stopped_run_silent [OF run True] cv show ?thesis by (simp add: out conveys_def)
    next
      case False
      from Cons.IH [OF run inv False] False cv show ?thesis
        by (simp add: ds out conveys_def) (metis append_assoc same_prefix_prefix)
    qed
  qed
qed simp

section \<open>Properties\<close>

text \<open>
  C8: a connection refines a first-in first-out byte pipe. Over any sequence of events, the bytes handed to
  \<open>async_write\<close> are, in order and without loss, duplication or insertion, what was kept at the start followed by
  the chunks the library produced. While the connection is not stopped only the kept chunk, never more than the write
  buffer, is still to come; when it stops, a prefix has been handed over.
\<close>

theorem server_output_fifo:
  assumes "chunks_fit E" "conn_inv c" "\<not> stopped c" "conn_run E es c = Inr (ds, out, c')"
  shows "prefix out (kept c @ concat ds) \<and>
    (\<not> stopped c' \<longrightarrow> out @ kept c' = kept c @ concat ds \<and> length (kept c') \<le> outbuf_size)"
  using run_conveys [OF assms(1,4,2,3)] conn_run_inv [OF assms(1,4,2)] by (simp add: conn_inv_def)

definition echo_env :: "(string, unit) server_env" where
  "echo_env = \<lparr>lib = echo_lib, mux = [], user_cbs = (\<lambda>_ _ u. (Finish, u)), now = 0\<rparr>"

definition echo_conn :: "(string, unit) connection" where
  "echo_conn = do_read 0 (connection_new 1 2 (http2_handler_new echo_env [] [] ()))"

lemma echo_fit: "chunks_fit echo_env"
  by (auto simp: chunks_fit_def handler_send_def echo_env_def echo_lib_def bind_f_Inr outbuf_size_def split: list.splits)

theorem server_output_fifo_witness:
  "\<exists>ds c'. conn_run echo_env [Read_event 0 1 (Some ''ab'')] echo_conn = Inr (ds, ''ab'', c') \<and> concat ds = ''ab''"
proof -
  obtain ds c' where r: "conn_run echo_env [Read_event 0 1 (Some ''ab'')] echo_conn = Inr (ds, ''ab'', c')" "\<not> stopped c'" "kept c' = []"
    by (simp add: echo_conn_def do_read_def connection_new_def http2_handler_new_def read_done_def on_read_def guarded_def set_inside_def
       echo_env_def echo_lib_def set_session_def do_write_def on_write_def fill_loop.simps [of _ _ "[]"] fill_loop.simps [of _ _ "[_]"] fill_loop.simps [of _ _ "[_, _]"] handler_send_def outbuf_size_def
       should_stop_def conn_handed_def flight_bytes_def pending_bytes_def)
  have "kept echo_conn = []" "\<not> stopped echo_conn"
    by (simp_all add: echo_conn_def do_read_def connection_new_def pending_bytes_def http2_handler_new_def)
  moreover have "conn_inv echo_conn" by (simp add: echo_conn_def connection_new_inv)
  ultimately show ?thesis using server_output_fifo [OF echo_fit _ _ r(1)] r by auto
qed

end
