(* ===== verification/Server_Response.thy ===== *)
theory Server_Response
  imports Server_Handler
begin

text \<open>
  The contract of a server response (\<open>lib/asio_server_response_impl.cc\<close>): an abstract machine of
  two flags, the proof that the response operations of the handler refine it, and what a submitted
  response and an assembled request contain.
\<close>

section \<open>A response is submitted exactly once\<close>

text \<open>
  The life of one response: the calls the application makes on it and the notice that its
  push promise was sent. Abstractly a response is two flags, whether its head was written and whether
  it still waits for its promise; it is submitted to the library when it has a head and does not wait.
\<close>

datatype life_op = App res_op | Promise_sent

definition run_life_op ::
    "('s, 'u) server_env \<Rightarrow> int \<Rightarrow> life_op \<Rightarrow> ('s, 'u) http2_handler \<Rightarrow> fault + ('s, 'u) http2_handler" where
  "run_life_op E sid op h =
     (case op of App op \<Rightarrow> run_res_op E sid op h | Promise_sent \<Rightarrow> push_promise_was_sent E sid h)"

fun run_life ::
    "('s, 'u) server_env \<Rightarrow> int \<Rightarrow> life_op list \<Rightarrow> ('s, 'u) http2_handler \<Rightarrow> fault + ('s, 'u) http2_handler" where
  "run_life E sid [] h = Inr h"
| "run_life E sid (op # ops) h = bind_f (run_life_op E sid op h) (run_life E sid ops)"

definition abs_response :: "response_impl \<Rightarrow> bool \<times> bool" where
  "abs_response r = (rs_state r \<noteq> INITIAL, rs_pushed r \<and> \<not> rs_push_promise_sent r)"

fun abs_life_op :: "life_op \<Rightarrow> bool \<times> bool \<Rightarrow> bool \<times> bool" where
  "abs_life_op (App (Write_head _ _)) (head, waits) = (True, waits)"
| "abs_life_op (App (End_string _)) (head, waits) = (True, waits)"
| "abs_life_op (App (End_generator _)) (head, waits) = (True, waits)"
| "abs_life_op (App _) (head, waits) = (head, waits)"
| "abs_life_op Promise_sent (head, waits) = (head, False)"

definition submitted :: "bool \<times> bool \<Rightarrow> bool" where
  "submitted a \<longleftrightarrow> fst a \<and> \<not> snd a"

text \<open>\<open>obs\<close> counts the responses submitted for stream \<open>sid\<close> in the library state.\<close>

definition counts_responses :: "'s nghttp2 \<Rightarrow> int \<Rightarrow> ('s \<Rightarrow> nat) \<Rightarrow> bool" where
  "counts_responses L sid obs \<longleftrightarrow>
     (\<forall>nva prd s. obs (snd (submit_response L sid nva prd s)) = Suc (obs s)) \<and>
     (\<forall>i ec s. obs (submit_rst_stream L i ec s) = obs s) \<and>
     (\<forall>i nva s. obs (snd (lib_submit_trailer L i nva s)) = obs s) \<and>
     (\<forall>i s. obs (resume_data L i s) = obs s)"

lemma frame_signal [simp]:
  "find_stream i (signal_write h) = find_stream i h" "session (signal_write h) = session h"
  "find_stream i (h\<lparr>session := ses\<rparr>) = find_stream i h"
  "find_stream i (h\<lparr>tstamp_cached := tc, formatted_date := fd\<rparr>) = find_stream i h"
  "session (put_stream i s h) = session h"
  by (simp_all add: signal_write_def find_stream_def put_stream_def)

lemma submit_frame [simp]:
  "find_stream i (snd (start_response E sid s h)) = find_stream i h"
  "find_stream i (stream_error E sid ec h) = find_stream i h"
  "find_stream i (handler_resume E sid h) = find_stream i h"
  "find_stream i (snd (submit_trailer E sid hm h)) = find_stream i h"
  by (simp_all add: start_response_def stream_error_def handler_resume_def submit_trailer_def
      handler_http_date_def Let_def split_beta)

lemma submit_counts:
  assumes "counts_responses (lib E) sid obs"
  shows "obs (session (snd (start_response E sid s h))) = Suc (obs (session h))"
    "obs (session (stream_error E i ec h)) = obs (session h)"
    "obs (session (handler_resume E i h)) = obs (session h)"
    "obs (session (snd (submit_trailer E i hm h))) = obs (session h)"
  using assms
  by (simp_all add: counts_responses_def start_response_def stream_error_def handler_resume_def submit_trailer_def
      handler_http_date_def Let_def split_beta)

lemma upd_response_find:
  "find_stream sid h = Some s \<Longrightarrow>
     upd_response sid f h = Inr (put_stream sid (s\<lparr>strm_response := f (strm_response s)\<rparr>) h)"
  by (simp add: upd_response_def the_stream_def)

text \<open>Stream \<open>sid\<close> has response \<open>r\<close> and \<open>n\<close> responses were submitted for it.\<close>

definition has_response :: "int \<Rightarrow> ('s \<Rightarrow> nat) \<Rightarrow> response_impl \<Rightarrow> nat \<Rightarrow> ('s, 'u) http2_handler \<Rightarrow> bool" where
  "has_response sid obs r n h \<longleftrightarrow> (\<exists>s. find_stream sid h = Some s \<and> strm_response s = r) \<and> obs (session h) = n"

lemma upd_response_has:
  assumes "has_response sid obs r n h"
  obtains h' where "upd_response sid f h = Inr h'" "has_response sid obs (f r) n h'"
  using assms that upd_response_find by (fastforce simp: has_response_def)

lemma res_start_has:
  assumes "has_response sid obs r n h" "counts_responses (lib E) sid obs"
  obtains h' st where "res_start_response E sid h = Inr h'"
    "has_response sid obs (r\<lparr>rs_state := st\<rparr>) (Suc n) h'" "st \<in> {rs_state r, BODY_STARTED}"
proof -
  obtain s where s: "find_stream sid h = Some s" "strm_response s = r" "obs (session h) = n"
    using assms(1) by (auto simp: has_response_def)
  define body where "body = expect_response_body (rq_method (strm_request s)) (sint (rs_status_code r))"
  define s1 where "s1 = (if body then s else s\<lparr>strm_response := r\<lparr>rs_state := BODY_STARTED\<rparr>\<rparr>)"
  define h1 where "h1 = (if body then h else put_stream sid s1 h)"
  have f1: "find_stream sid h1 = Some s1" "obs (session h1) = n" using s by (simp_all add: h1_def s1_def)
  have r1: "strm_response s1 = r\<lparr>rs_state := if body then rs_state r else BODY_STARTED\<rparr>"
    using s by (simp add: s1_def)
  have "res_start_response E sid h =
      (case start_response E sid s1 h1 of (rv, h2) \<Rightarrow>
         if rv \<noteq> 0 then Inr (stream_error E sid NGHTTP2_INTERNAL_ERROR h2) else Inr h2)"
    using s f1 by (simp add: res_start_response_def the_stream_def upd_response_find body_def [symmetric] h1_def s1_def)
  then have "\<exists>h'. res_start_response E sid h = Inr h' \<and>
      has_response sid obs (r\<lparr>rs_state := if body then rs_state r else BODY_STARTED\<rparr>) (Suc n) h'"
    using f1 r1 submit_counts [OF assms(2)] by (auto simp: has_response_def split_beta)
  then show ?thesis using that by (metis insertCI)
qed

text \<open>The outcome of a step that takes the abstract response \<open>abs_response r\<close> to \<open>a\<close>.\<close>

definition refines_to ::
    "int \<Rightarrow> ('s \<Rightarrow> nat) \<Rightarrow> response_impl \<Rightarrow> nat \<Rightarrow> bool \<times> bool \<Rightarrow> fault + ('s, 'u) http2_handler \<Rightarrow> bool" where
  "refines_to sid obs r n a m \<longleftrightarrow>
     (\<exists>h' r'. m = Inr h' \<and> abs_response r' = a \<and> rs_pushed r' = rs_pushed r \<and>
        has_response sid obs r' (n + (if submitted a \<and> \<not> submitted (abs_response r) then 1 else 0)) h')"

lemma write_head_refines:
  assumes "has_response sid obs r n h" "counts_responses (lib E) sid obs"
  shows "refines_to sid obs r n (True, snd (abs_response r)) (write_head E sid sc hm h)"
proof (cases "rs_state r = INITIAL")
  case False
  with assms(1) show ?thesis
    by (auto simp: refines_to_def write_head_def has_response_def the_stream_def abs_response_def submitted_def)
next
  case True
  let ?f = "\<lambda>r. r\<lparr>rs_status_code := sc, rs_header := hm, rs_state := HEADER_DONE\<rparr>"
  obtain h1 where h1: "upd_response sid ?f h = Inr h1" "has_response sid obs (?f r) n h1"
    using upd_response_has [OF assms(1)] .
  have w: "write_head E sid sc hm h =
      (if rs_pushed r \<and> \<not> rs_push_promise_sent r then Inr h1 else res_start_response E sid h1)"
    using assms(1) True h1(1) by (auto simp: write_head_def has_response_def the_stream_def)
  show ?thesis
  proof (cases "rs_pushed r \<and> \<not> rs_push_promise_sent r")
    case True
    with w h1(2) show ?thesis
      by (auto simp: refines_to_def abs_response_def submitted_def intro!: exI [of _ "?f r"])
  next
    case False
    obtain h2 st where h2: "res_start_response E sid h1 = Inr h2"
      "has_response sid obs ((?f r)\<lparr>rs_state := st\<rparr>) (Suc n) h2" "st \<in> {rs_state (?f r), BODY_STARTED}"
      using res_start_has [OF h1(2) assms(2)] .
    with w False True show ?thesis
      by (auto simp: refines_to_def abs_response_def submitted_def intro!: exI [of _ "(?f r)\<lparr>rs_state := st\<rparr>"])
  qed
qed

lemma set_state_has:
  assumes "refines_to sid obs r n (True, w) m"
  shows "refines_to sid obs r n (True, w) (bind_f m (upd_response sid (\<lambda>r. r\<lparr>rs_state := BODY_STARTED\<rparr>)))"
proof -
  let ?n = "n + (if submitted (True, w) \<and> \<not> submitted (abs_response r) then 1 else 0)"
  obtain h' r' where h': "m = Inr h'" "abs_response r' = (True, w)" "rs_pushed r' = rs_pushed r" "has_response sid obs r' ?n h'"
    using assms by (auto simp: refines_to_def)
  obtain h2 where "upd_response sid (\<lambda>r. r\<lparr>rs_state := BODY_STARTED\<rparr>) h' = Inr h2"
    "has_response sid obs (r'\<lparr>rs_state := BODY_STARTED\<rparr>) ?n h2" using upd_response_has [OF h'(4)] .
  with h' show ?thesis
    unfolding refines_to_def by (intro exI [of _ h2] exI [of _ "r'\<lparr>rs_state := BODY_STARTED\<rparr>"]) (auto simp: abs_response_def)
qed

lemma end_generator_refines:
  assumes "has_response sid obs r n h" "counts_responses (lib E) sid obs"
  shows "refines_to sid obs r n (True, snd (abs_response r)) (end_generator E sid g h)"
proof (cases "rs_state r = BODY_STARTED")
  case True
  with assms(1) show ?thesis
    by (auto simp: refines_to_def end_generator_def has_response_def the_stream_def abs_response_def submitted_def)
next
  case False
  let ?f = "\<lambda>r. r\<lparr>rs_generator := g\<rparr>"
  obtain h1 where h1: "upd_response sid ?f h = Inr h1" "has_response sid obs (?f r) n h1"
    using upd_response_has [OF assms(1)] .
  have e: "end_generator E sid g h =
      bind_f (if rs_state r = INITIAL then write_head E sid (rs_status_code r) [] h1 else Inr (handler_resume E sid h1))
        (upd_response sid (\<lambda>r. r\<lparr>rs_state := BODY_STARTED\<rparr>))"
    using assms(1) False h1(1) by (auto simp: end_generator_def has_response_def the_stream_def)
  have same: "refines_to sid obs (?f r) n a m = refines_to sid obs r n a m" for a and m :: "fault + ('a, 'b) http2_handler"
    by (simp add: refines_to_def abs_response_def)
  have "refines_to sid obs r n (True, snd (abs_response r))
      (if rs_state r = INITIAL then write_head E sid (rs_status_code r) [] h1 else Inr (handler_resume E sid h1))"
  proof (cases "rs_state r = INITIAL")
    case True
    with write_head_refines [OF h1(2) assms(2)] show ?thesis unfolding same by (simp add: abs_response_def)
  next
    case no: False
    have "has_response sid obs (?f r) n (handler_resume E sid h1)"
      using h1(2) submit_counts [OF assms(2)] by (auto simp: has_response_def)
    with no show ?thesis
      by (auto simp: refines_to_def abs_response_def submitted_def intro!: exI [of _ "?f r"])
  qed
  then show ?thesis unfolding e by (rule set_state_has)
qed

lemma promise_sent_refines:
  assumes "has_response sid obs r n h" "counts_responses (lib E) sid obs" "rs_pushed r"
  shows "refines_to sid obs r n (fst (abs_response r), False) (push_promise_was_sent E sid h)"
proof (cases "rs_push_promise_sent r")
  case True
  with assms(1) show ?thesis
    by (auto simp: refines_to_def push_promise_was_sent_def has_response_def the_stream_def abs_response_def submitted_def)
next
  case False
  let ?f = "\<lambda>r. r\<lparr>rs_push_promise_sent := True\<rparr>"
  obtain h1 where h1: "upd_response sid ?f h = Inr h1" "has_response sid obs (?f r) n h1"
    using upd_response_has [OF assms(1)] .
  have w: "push_promise_was_sent E sid h = (if rs_state r = INITIAL then Inr h1 else res_start_response E sid h1)"
    using assms(1) False h1(1) by (auto simp: push_promise_was_sent_def has_response_def the_stream_def)
  show ?thesis
  proof (cases "rs_state r = INITIAL")
    case True
    with w h1(2) assms(3) show ?thesis
      by (auto simp: refines_to_def abs_response_def submitted_def intro!: exI [of _ "?f r"])
  next
    case no: False
    obtain h2 st where h2: "res_start_response E sid h1 = Inr h2"
      "has_response sid obs ((?f r)\<lparr>rs_state := st\<rparr>) (Suc n) h2" "st \<in> {rs_state (?f r), BODY_STARTED}"
      using res_start_has [OF h1(2) assms(2)] .
    with w False no assms(3) show ?thesis
      by (auto simp: refines_to_def abs_response_def submitted_def intro!: exI [of _ "(?f r)\<lparr>rs_state := st\<rparr>"])
  qed
qed

lemma run_life_op_refines:
  assumes "has_response sid obs r n h" "counts_responses (lib E) sid obs" "op = Promise_sent \<longrightarrow> rs_pushed r"
  shows "refines_to sid obs r n (abs_life_op op (abs_response r)) (run_life_op E sid op h)"
proof -
  obtain hd w where a: "abs_response r = (hd, w)" by force
  obtain s where s: "find_stream sid h = Some s" "strm_response s = r" using assms(1) by (auto simp: has_response_def)
  have stay: "refines_to sid obs r n (abs_response r) (Inr h')" if "has_response sid obs r' n h'"
      "abs_response r' = abs_response r" "rs_pushed r' = rs_pushed r" for h' :: "('a, 'b) http2_handler" and r'
    using that by (auto simp: refines_to_def)
  have lib: "has_response sid obs r n (snd (submit_trailer E sid hm h))" "has_response sid obs r n (handler_resume E sid h)"
    "has_response sid obs r n (stream_error E sid ec h)" for hm ec
    using assms(1) submit_counts [OF assms(2)] by (simp_all add: has_response_def)
  show ?thesis
  proof (cases op)
    case (App o')
    show ?thesis
    proof (cases o')
      case (On_close c)
      obtain h1 where "upd_response sid (\<lambda>r. r\<lparr>rs_close_cb := c\<rparr>) h = Inr h1" "has_response sid obs (r\<lparr>rs_close_cb := c\<rparr>) n h1"
        using upd_response_has [OF assms(1)] .
      with stay [OF this(2)] App On_close a show ?thesis
        by (simp add: run_life_op_def run_res_op_def abs_response_def)
    qed (use App a s write_head_refines [OF assms(1,2)] end_generator_refines [OF assms(1,2)] stay [OF lib(1)] stay [OF lib(2)] stay [OF lib(3)]
        in \<open>simp_all add: run_life_op_def run_res_op_def end_string_def the_stream_def\<close>)
  next
    case Promise_sent
    with promise_sent_refines [OF assms(1,2)] assms(3) a show ?thesis by (simp add: run_life_op_def)
  qed
qed

lemma abs_life_op_submitted: "submitted a \<Longrightarrow> submitted (abs_life_op op a)"
  by (cases "(op, a)" rule: abs_life_op.cases) (auto simp: submitted_def)

lemma run_life_refines:
  assumes "has_response sid obs r n h" "counts_responses (lib E) sid obs" "Promise_sent \<in> set ops \<longrightarrow> rs_pushed r"
  shows "refines_to sid obs r n (fold abs_life_op ops (abs_response r)) (run_life E sid ops h)"
  using assms(1,3)
proof (induction ops arbitrary: h r n)
  case Nil
  then show ?case by (auto simp: refines_to_def)
next
  case (Cons op ops)
  let ?a = "abs_life_op op (abs_response r)"
  have "op = Promise_sent \<longrightarrow> rs_pushed r" using Cons.prems(2) by auto
  from run_life_op_refines [OF Cons.prems(1) assms(2) this] obtain h1 r1 where h1: "run_life_op E sid op h = Inr h1"
    "abs_response r1 = ?a" "rs_pushed r1 = rs_pushed r"
    "has_response sid obs r1 (n + (if submitted ?a \<and> \<not> submitted (abs_response r) then 1 else 0)) h1"
    by (auto simp: refines_to_def)
  have mono: "submitted a \<Longrightarrow> submitted (fold abs_life_op os a)" for a os
    by (induction os arbitrary: a) (simp_all add: abs_life_op_submitted)
  let ?b = "fold abs_life_op ops ?a"
  have "Promise_sent \<in> set ops \<longrightarrow> rs_pushed r1" using Cons.prems(2) h1(3) by auto
  from Cons.IH [OF h1(4) this] obtain h2 r2 where h2: "run_life E sid ops h1 = Inr h2" "abs_response r2 = ?b" "rs_pushed r2 = rs_pushed r"
    "has_response sid obs r2 (n + (if submitted ?a \<and> \<not> submitted (abs_response r) then 1 else 0) +
       (if submitted ?b \<and> \<not> submitted ?a then 1 else 0)) h2"
    by (auto simp: refines_to_def h1)
  have "(if submitted ?a \<and> \<not> submitted (abs_response r) then 1 else 0) + (if submitted ?b \<and> \<not> submitted ?a then 1 else 0) =
      (if submitted ?b \<and> \<not> submitted (abs_response r) then 1 else 0 :: nat)"
    using mono [of ?a ops] abs_life_op_submitted [of "abs_response r" op] by (cases "submitted (abs_response r)"; cases "submitted ?a") simp_all
  with h2(4) have "has_response sid obs r2 (n + (if submitted ?b \<and> \<not> submitted (abs_response r) then 1 else 0)) h2"
    by (simp only: add.assoc)
  with h2 h1(1) show ?case unfolding refines_to_def by (intro exI [of _ h2] exI [of _ r2]) simp
qed

section \<open>What is sent and what is received\<close>

lemma handler_http_date_now: "server_inv h \<Longrightarrow> fst (handler_http_date E h) = http_date (now E)"
  by (simp add: handler_http_date_def server_inv_def)

definition recv_headers :: "(string \<times> string \<times> u8) list \<Rightarrow> request_impl \<Rightarrow> request_impl" where
  "recv_headers hs req = fold (\<lambda>(name, val, flags) r. fst (recv_header name val flags r)) hs req"

definition plain_name :: "string \<Rightarrow> bool" where
  "plain_name name \<longleftrightarrow> lookup_token name \<notin> {Some HD__METHOD, Some HD__SCHEME, Some HD__AUTHORITY, Some HD__PATH, Some HD_HOST}"

definition field_of :: "string \<times> string \<times> u8 \<Rightarrow> string \<times> header_value" where
  "field_of f = (case f of (name, val, flags) \<Rightarrow>
     (name, \<lparr>hvalue = val, sensitive = flags AND NGHTTP2_NV_FLAG_NO_INDEX \<noteq> 0\<rparr>))"

lemma field_of_simp [simp]:
  "field_of (name, val, flags) = (name, \<lparr>hvalue = val, sensitive = flags AND NGHTTP2_NV_FLAG_NO_INDEX \<noteq> 0\<rparr>)"
  by (simp add: field_of_def)

lemma recv_plain:
  assumes "plain_name name"
  shows "recv_header name val flags req =
    (if header_buffer_size req + length name + length val > 65536 then (req, False)
     else (store_header name val flags req, True))"
  using assms by (auto simp: recv_header_def plain_name_def Let_def split: option.split hd_token.split)

lemma recv_plain_headers:
  assumes "\<forall>(name, val, flags) \<in> set hs. plain_name name"
    "header_buffer_size req + sum_list (map (\<lambda>(name, val, flags). length name + length val) hs) \<le> 65536"
  shows "recv_headers hs req = req\<lparr>rq_header := fold (\<lambda>(k, v). hm_emplace k v) (map field_of hs) (rq_header req),
    header_buffer_size := header_buffer_size req + sum_list (map (\<lambda>(name, val, flags). length name + length val) hs)\<rparr>"
  using assms
proof (induction hs arbitrary: req)
  case (Cons f hs)
  obtain name val flags where f: "f = (name, val, flags)" by (cases f) auto
  have r: "recv_header name val flags req = (store_header name val flags req, True)"
    using Cons.prems by (simp add: f recv_plain)
  have "recv_headers (f # hs) req = recv_headers hs (store_header name val flags req)"
    by (simp add: recv_headers_def f r)
  also have "\<dots> = (store_header name val flags req)\<lparr>rq_header := fold (\<lambda>(k, v). hm_emplace k v) (map field_of hs) (rq_header (store_header name val flags req)),
    header_buffer_size := header_buffer_size (store_header name val flags req) + sum_list (map (\<lambda>(name, val, flags). length name + length val) hs)\<rparr>"
    using Cons.prems by (intro Cons.IH) (auto simp: f store_header_def update_header_buffer_size_def)
  finally show ?case by (simp add: f store_header_def update_header_buffer_size_def Let_def add.assoc)
qed (simp add: recv_headers_def)

lemma recv_pseudo:
  "recv_header '':method'' val flags req = (req\<lparr>rq_method := val\<rparr>, True)"
  "recv_header '':scheme'' val flags req = (req\<lparr>rq_uri := (rq_uri req)\<lparr>uri_scheme := val\<rparr>\<rparr>, True)"
  "recv_header '':authority'' val flags req = (req\<lparr>rq_uri := (rq_uri req)\<lparr>uri_host := val\<rparr>\<rparr>, True)"
  "recv_header '':path'' val flags req = (req\<lparr>rq_uri := split_path (rq_uri req) val\<rparr>, True)"
proof -
  have "lookup_token '':method'' = Some HD__METHOD" "lookup_token '':scheme'' = Some HD__SCHEME"
    "lookup_token '':authority'' = Some HD__AUTHORITY" "lookup_token '':path'' = Some HD__PATH" by code_simp+
  then show "recv_header '':method'' val flags req = (req\<lparr>rq_method := val\<rparr>, True)"
    "recv_header '':scheme'' val flags req = (req\<lparr>rq_uri := (rq_uri req)\<lparr>uri_scheme := val\<rparr>\<rparr>, True)"
    "recv_header '':authority'' val flags req = (req\<lparr>rq_uri := (rq_uri req)\<lparr>uri_host := val\<rparr>\<rparr>, True)"
    "recv_header '':path'' val flags req = (req\<lparr>rq_uri := split_path (rq_uri req) val\<rparr>, True)"
    by (simp_all add: recv_header_def)
qed

section \<open>Properties\<close>

text \<open>
  C7: whatever sequence of calls the application makes on a response, and whenever the
  notice arrives that its push promise was sent, the response is handed to the library at most once,
  and exactly once if its head was written and, for a pushed response, the promise was sent. The
  operations of the response refine the abstract machine of two flags.
\<close>

theorem response_submitted_once:
  assumes "find_stream sid h = Some s" "counts_responses (lib E) sid obs"
    "rs_state (strm_response s) = INITIAL" "\<not> rs_push_promise_sent (strm_response s)"
    "Promise_sent \<in> set ops \<longrightarrow> rs_pushed (strm_response s)"
  shows "\<exists>h' s'. run_life E sid ops h = Inr h' \<and> find_stream sid h' = Some s' \<and>
    abs_response (strm_response s') = fold abs_life_op ops (False, rs_pushed (strm_response s)) \<and>
    obs (session h') = obs (session h) +
      (if submitted (fold abs_life_op ops (False, rs_pushed (strm_response s))) then 1 else 0)"
proof -
  have "has_response sid obs (strm_response s) (obs (session h)) h" using assms(1) by (simp add: has_response_def)
  moreover have "abs_response (strm_response s) = (False, rs_pushed (strm_response s))"
    using assms(3,4) by (simp add: abs_response_def)
  ultimately show ?thesis
    using run_life_refines [of sid obs "strm_response s" "obs (session h)" h E ops] assms(2,5)
    by (auto simp: refines_to_def has_response_def submitted_def)
qed

theorem response_submitted_once_witness:
  "\<exists>h'. run_life demo_env 1 [App (Write_head 200 []), App (End_string ''a''), App (Write_head 404 [])] demo_handler = Inr h' \<and>
     session h' = 1"
proof -
  have c: "counts_responses (lib demo_env) 1 (\<lambda>n. n)" by (simp add: counts_responses_def demo_env_def counting_lib_def)
  from response_submitted_once [OF demo_handler_facts(4) c, of "[App (Write_head 200 []), App (End_string ''a''), App (Write_head 404 [])]"]
  show ?thesis by (auto simp: stream_new_def response_impl_new_def submitted_def)
qed

text \<open>
  The fields submitted for a response are the status in decimal, the current date in the
  format of HTTP, and then exactly the application's header fields in the order of the header map,
  each with its sensitivity.
\<close>

theorem response_fields:
  assumes "server_inv h"
  shows "response_nva res (fst (handler_http_date E h)) =
    [make_nv_ls '':status'' (utos (unat (rs_status_code res))), make_nv_ls ''date'' (http_date (now E))] @
    map (\<lambda>(k, v). make_nv k (hvalue v) (sensitive v)) (rs_header res)"
  by (simp add: response_nva_def handler_http_date_now [OF assms] header_nva_def)

theorem response_fields_witness:
  "response_nva response_impl_new (fst (handler_http_date demo_env demo_handler)) =
    [make_nv_ls '':status'' (utos 200), make_nv_ls ''date'' (http_date 0)]"
  using response_fields [OF demo_handler_facts(1), of response_impl_new demo_env]
  by (simp add: demo_env_def response_impl_new_def)

text \<open>
  From the header block of a request the handler assembles exactly that request: the
  method, the scheme, the authority, the path split at its first question mark and decoded, and every
  other field in the header map, values of one name in the order they came in, as long as the fields
  take at most 64 KiB.
\<close>

theorem request_assembled:
  assumes "\<forall>(name, val, flags) \<in> set hs. plain_name name"
    "sum_list (map (\<lambda>(name, val, flags). length name + length val) hs) \<le> 65536"
  shows "let req = recv_headers ([('':method'', m, f1), ('':scheme'', sch, f2), ('':authority'', auth, f3), ('':path'', p, f4)] @ hs)
           request_impl_new
    in rq_method req = m \<and> uri_scheme (rq_uri req) = sch \<and> uri_host (rq_uri req) = auth \<and>
       raw_path (rq_uri req) = takeWhile (\<lambda>c. c \<noteq> CHR ''?'') p \<and>
       uri_path (rq_uri req) = percent_decode (raw_path (rq_uri req)) \<and>
       hm_range k (rq_header req) = map snd (filter (\<lambda>(k', v). k' = k) (map field_of hs))"
proof -
  let ?q = "request_impl_new\<lparr>rq_method := m,
    rq_uri := split_path (uri_ref_init\<lparr>uri_scheme := sch, uri_host := auth\<rparr>) p\<rparr>"
  have "recv_headers ([('':method'', m, f1), ('':scheme'', sch, f2), ('':authority'', auth, f3), ('':path'', p, f4)] @ hs)
      request_impl_new = recv_headers hs ?q"
    by (simp add: recv_headers_def recv_pseudo request_impl_new_def)
  also have "\<dots> = ?q\<lparr>rq_header := fold (\<lambda>(k, v). hm_emplace k v) (map field_of hs) [],
      header_buffer_size := sum_list (map (\<lambda>(name, val, flags). length name + length val) hs)\<rparr>"
    using recv_plain_headers [OF assms(1), of ?q] assms(2) by (simp add: request_impl_new_def)
  finally show ?thesis
    using hm.range_fold [OF hm.inv_empty, of k "map field_of hs"]
    by (simp add: split_path_def Let_def hm.range_empty)
qed

theorem request_assembled_witness:
  "rq_method (recv_headers ([('':method'', ''GET'', 0), ('':scheme'', ''http'', 0), ('':authority'', ''h'', 0), ('':path'', ''/a'', 0)] @
     [(''accept'', ''x'', 0)]) request_impl_new) = ''GET''"
proof -
  have "plain_name ''accept''" by code_simp
  then show ?thesis
    using request_assembled [of "[(''accept'', ''x'', 0)]" "''GET''" 0 "''http''" 0 "''h''" 0 "''/a''" 0]
    by (simp add: Let_def)
qed

end
