(* ===== verification/Client_Data.thy ===== *)
theory Client_Data
  imports Nghttp2 Ordered_Map "HOL-Library.Signed_Division"
begin

text \<open>
  The client's request, response and stream objects (\<open>lib/asio_client_request_impl.*\<close>,
  \<open>lib/asio_client_response_impl.*\<close>, \<open>lib/asio_client_stream.*\<close>) and the application programs
  that use them. As on the server, a stream is referred to by its id and an application callback is a
  number whose behaviour is a parameter.
\<close>

type_synonym client_cb = nat

record c_request =
  cq_header :: header_map
  cq_response_cb :: "client_cb option"
  cq_push_request_cb :: "client_cb option"
  cq_close_cb :: "client_cb option"
  cq_generator :: "generator_cb option"
  cq_uri :: uri_ref
  cq_method :: string
  cq_header_buffer_size :: nat

definition c_request_new :: c_request where
  "c_request_new = \<lparr>cq_header = [], cq_response_cb = None, cq_push_request_cb = None, cq_close_cb = None,
     cq_generator = None, cq_uri = uri_ref_init, cq_method = [], cq_header_buffer_size = 0\<rparr>"

record c_response =
  cp_data_cb :: "client_cb option"
  cp_header :: header_map
  cp_content_length :: int
  cp_header_buffer_size :: nat
  cp_status_code :: int

definition c_response_new :: c_response where
  "c_response_new = \<lparr>cp_data_cb = None, cp_header = [], cp_content_length = -1, cp_header_buffer_size = 0,
     cp_status_code = 0\<rparr>"

record c_stream =
  cs_request :: c_request
  cs_response :: c_response

definition c_stream_new :: c_stream where
  "c_stream_new = \<lparr>cs_request = c_request_new, cs_response = c_response_new\<rparr>"

definition expect_final_response :: "c_stream \<Rightarrow> bool" where
  "expect_final_response s \<longleftrightarrow> cp_status_code (cs_response s) sdiv 100 = 1"

text \<open>\<open>status_code(int)\<close> takes the \<open>int64_t\<close> result of \<open>parse_uint\<close>.\<close>

definition set_status_code :: "int \<Rightarrow> c_response \<Rightarrow> c_response" where
  "set_status_code v res = res\<lparr>cp_status_code := sint (word_of_int v :: 32 word)\<rparr>"

definition call_on_read :: "c_request \<Rightarrow> nat \<Rightarrow> u32 \<Rightarrow> (int \<times> string \<times> u32) \<times> c_request" where
  "call_on_read req len flags =
     (case cq_generator req of
        Some g \<Rightarrow> (case gen_call g len flags of (r, g') \<Rightarrow> (r, req\<lparr>cq_generator := Some g'\<rparr>))
      | None \<Rightarrow> ((0, [], flags OR NGHTTP2_DATA_FLAG_EOF), req))"

section \<open>Priorities\<close>

text \<open>\<open>priority_spec\<close>: the default constructor makes the sentinel that stands for no priority.\<close>

record priority_spec =
  spec :: nghttp2_priority_spec
  spec_valid :: bool

definition priority_spec_default :: priority_spec where
  "priority_spec_default = \<lparr>spec = \<lparr>prio_stream_id = 0, prio_weight = 0, prio_exclusive = False\<rparr>, spec_valid = False\<rparr>"

definition priority_spec_new :: "int \<Rightarrow> int \<Rightarrow> bool \<Rightarrow> priority_spec" where
  "priority_spec_new sid weight exclusive =
     \<lparr>spec = \<lparr>prio_stream_id = sid, prio_weight = weight, prio_exclusive = exclusive\<rparr>, spec_valid = True\<rparr>"

definition priority_get :: "priority_spec \<Rightarrow> nghttp2_priority_spec option" where
  "priority_get prio = (if \<not> spec_valid prio then None else Some (spec prio))"

section \<open>Application programs\<close>

datatype req_op =
    On_response "client_cb option"
  | On_push "client_cb option"
  | On_request_close "client_cb option"
  | On_response_data "client_cb option"
  | Request_trailer header_map
  | Request_cancel u32
  | Request_resume

text \<open>The getters of a request and its response.\<close>

record c_response_view =
  cv_status_code :: int
  cv_content_length :: int
  cv_header :: header_map

definition view_c_response :: "c_response \<Rightarrow> c_response_view" where
  "view_c_response r = \<lparr>cv_status_code = cp_status_code r, cv_content_length = cp_content_length r, cv_header = cp_header r\<rparr>"

record c_request_view =
  cv_uri :: uri_ref
  cv_method :: string
  cv_request_header :: header_map

definition view_c_request :: "c_request \<Rightarrow> c_request_view" where
  "view_c_request r = \<lparr>cv_uri = cq_uri r, cv_method = cq_method r, cv_request_header = cq_header r\<rparr>"

text \<open>As on the server, the application reads the getters together and may keep what they return in its own state.\<close>

datatype 'u client_prog =
    Client_done
  | Request_op int req_op "'u client_prog"
  | Submit string string "generator_cb option" header_map priority_spec "error_code \<Rightarrow> int option \<Rightarrow> 'u client_prog"
  | Shutdown "'u client_prog"
  | Look_request int "c_request_view \<Rightarrow> c_response_view \<Rightarrow> 'u client_prog"
  | Set_client_state "'u \<Rightarrow> 'u" "'u client_prog"

datatype client_arg =
    Response_arrived int | Pushed_request int | Response_data string | Request_closed u32 | Session_error error_code | Connected

lemma client_prog_induct [case_names Client_done Request_op Submit Shutdown Look_request Set_client_state]:
  assumes "P Client_done" "\<And>sid op k. P k \<Longrightarrow> P (Request_op sid op k)"
    "\<And>meth uri g hm prio k. (\<And>ec r. P (k ec r)) \<Longrightarrow> P (Submit meth uri g hm prio k)" "\<And>k. P k \<Longrightarrow> P (Shutdown k)"
    "\<And>sid k. (\<And>q r. P (k q r)) \<Longrightarrow> P (Look_request sid k)" "\<And>f k. P k \<Longrightarrow> P (Set_client_state f k)"
  shows "P p"
proof (induction p)
  case (Submit meth uri g hm prio k)
  show ?case by (rule assms(3)) (blast intro: Submit)
next
  case (Look_request sid k)
  show ?case by (rule assms(5)) (blast intro: Look_request)
qed (auto intro: assms)

end
