(* ===== verification/Client_Session.thy ===== *)
theory Client_Session
  imports Client_Data Url_Parser
begin

text \<open>
  \<open>lib/asio_client_session_impl.*\<close>: the client session, with its stream table, request submission,
  the callbacks of the library, reading and writing, the ping and deadline timers and shutdown.
\<close>

section \<open>State\<close>

text \<open>
  \<open>wbuf\<close> is the used part of \<open>wb_\<close> (\<open>wblen_\<close> its length), \<open>data_pending\<close> the bytes kept for the next
  write, \<open>held\<close> the stream objects that a local \<open>unique_ptr\<close> owns: in \<open>submit\<close> before the table owns
  it, in the close callback after the table gave it up. \<open>c_reading\<close> and \<open>c_in_flight\<close> are the
  outstanding socket operations, \<open>ping_at\<close> and \<open>expires_at\<close> the timers.
\<close>

record ('s, 'u) session_impl =
  c_streams :: "(int, c_stream) omap"
  held :: "(int, c_stream) omap"
  c_session :: 's
  wbuf :: string
  data_pending :: "string option"
  c_writing :: bool
  c_inside_callback :: bool
  c_stopped :: bool
  connect_cb :: "client_cb option"
  error_cb :: "client_cb option"
  c_read_timeout :: int
  connect_timeout :: int
  c_reading :: bool
  c_in_flight :: "string option"
  c_expires_at :: "int option"
  c_waiting :: bool
  ping_at :: "int option"
  c_app :: 'u

text \<open>
  What a session works with: the library, the application's callbacks, \<open>inet_pton\<close>, and
  the clock of its timers.
\<close>

record ('s, 'u) client_env =
  c_lib :: "'s nghttp2"
  client_cbs :: "client_cb \<Rightarrow> client_arg \<Rightarrow> 'u \<Rightarrow> 'u client_prog \<times> 'u"
  inet_pton :: inet_pton
  clock :: int

definition wb_size :: nat where
  "wb_size = 64 * 1024"

definition session_impl_new :: "int \<Rightarrow> 's \<Rightarrow> 'u \<Rightarrow> ('s, 'u) session_impl" where
  "session_impl_new timeout null_session u =
     \<lparr>c_streams = [], held = [], c_session = null_session, wbuf = [], data_pending = None, c_writing = False,
      c_inside_callback = False, c_stopped = False, connect_cb = None, error_cb = None, c_read_timeout = 60,
      connect_timeout = timeout, c_reading = False, c_in_flight = None, c_expires_at = None, c_waiting = False,
      ping_at = None, c_app = u\<rparr>"

section \<open>Streams and timers\<close>

definition find_c_stream :: "int \<Rightarrow> ('s, 'u) session_impl \<Rightarrow> c_stream option" where
  "find_c_stream sid c = om_find sid (c_streams c)"

definition start_ping :: "('s, 'u) client_env \<Rightarrow> ('s, 'u) session_impl \<Rightarrow> ('s, 'u) session_impl" where
  "start_ping E c = c\<lparr>ping_at := Some (clock E + 30)\<rparr>"

definition pop_stream ::
    "('s, 'u) client_env \<Rightarrow> int \<Rightarrow> ('s, 'u) session_impl \<Rightarrow> c_stream option \<times> ('s, 'u) session_impl" where
  "pop_stream E sid c =
     (case om_find sid (c_streams c) of
        None \<Rightarrow> (None, c)
      | Some s \<Rightarrow>
          (let c = c\<lparr>c_streams := om_erase sid (c_streams c)\<rparr>
           in (Some s, if c_streams c = [] then start_ping E c else c)))"

definition emplace_stream :: "int \<Rightarrow> c_stream \<Rightarrow> ('s, 'u) session_impl \<Rightarrow> fault + ('s, 'u) session_impl" where
  "emplace_stream sid s c =
     (case om_emplace sid s (c_streams c) of (m, inserted) \<Rightarrow>
        if inserted then Inr (c\<lparr>c_streams := m, ping_at := None\<rparr>) else Inl Duplicate_stream)"

definition create_push_stream :: "int \<Rightarrow> ('s, 'u) session_impl \<Rightarrow> fault + ('s, 'u) session_impl" where
  "create_push_stream sid c = emplace_stream sid c_stream_new c"

text \<open>Access through a stream pointer: the object is in the table or held by a local owner.\<close>

definition the_c_stream :: "int \<Rightarrow> ('s, 'u) session_impl \<Rightarrow> fault + c_stream" where
  "the_c_stream sid c =
     (case om_find sid (c_streams c) of
        Some s \<Rightarrow> Inr s
      | None \<Rightarrow> (case om_find sid (held c) of Some s \<Rightarrow> Inr s | None \<Rightarrow> Inl Dangling_stream))"

definition put_c_stream :: "int \<Rightarrow> c_stream \<Rightarrow> ('s, 'u) session_impl \<Rightarrow> ('s, 'u) session_impl" where
  "put_c_stream sid s c =
     (if om_find sid (c_streams c) \<noteq> None then c\<lparr>c_streams := om_insert sid s (c_streams c)\<rparr>
      else c\<lparr>held := om_insert sid s (held c)\<rparr>)"

definition upd_c_request ::
    "int \<Rightarrow> (c_request \<Rightarrow> c_request) \<Rightarrow> ('s, 'u) session_impl \<Rightarrow> fault + ('s, 'u) session_impl" where
  "upd_c_request sid f c =
     bind_f (the_c_stream sid c) (\<lambda>s. Inr (put_c_stream sid (s\<lparr>cs_request := f (cs_request s)\<rparr>) c))"

definition upd_c_response ::
    "int \<Rightarrow> (c_response \<Rightarrow> c_response) \<Rightarrow> ('s, 'u) session_impl \<Rightarrow> fault + ('s, 'u) session_impl" where
  "upd_c_response sid f c =
     bind_f (the_c_stream sid c) (\<lambda>s. Inr (put_c_stream sid (s\<lparr>cs_response := f (cs_response s)\<rparr>) c))"

definition c_stop :: "('s, 'u) session_impl \<Rightarrow> ('s, 'u) session_impl" where
  "c_stop c = (if c_stopped c then c else c\<lparr>ping_at := None, c_stopped := True\<rparr>)"

definition c_should_stop :: "('s, 'u) client_env \<Rightarrow> ('s, 'u) session_impl \<Rightarrow> bool" where
  "c_should_stop E c \<longleftrightarrow>
     \<not> c_writing c \<and> \<not> want_read (c_lib E) (c_session c) \<and> \<not> want_write (c_lib E) (c_session c)"

section \<open>Calls of the application\<close>

text \<open>
  \<open>signal_write\<close> flushes unless a callback is active; \<open>dw\<close> is the flush. Code that runs inside a
  callback is given the flush \<open>no_flush\<close>, which must never be reached there.
\<close>

definition c_signal_write ::
    "(('s, 'u) session_impl \<Rightarrow> fault + ('s, 'u) session_impl) \<Rightarrow> ('s, 'u) session_impl \<Rightarrow> fault + ('s, 'u) session_impl" where
  "c_signal_write dw c = (if \<not> c_inside_callback c then dw c else Inr c)"

definition no_flush :: "('s, 'u) session_impl \<Rightarrow> fault + ('s, 'u) session_impl" where
  "no_flush c = Inl Reentered"

definition c_header_nva :: "header_map \<Rightarrow> nghttp2_nv list" where
  "c_header_nva hm = map (\<lambda>(k, v). make_nv k (hvalue v) (sensitive v)) hm"

definition c_write_trailer ::
    "(('s, 'u) session_impl \<Rightarrow> fault + ('s, 'u) session_impl) \<Rightarrow> ('s, 'u) client_env \<Rightarrow> int \<Rightarrow> header_map
     \<Rightarrow> ('s, 'u) session_impl \<Rightarrow> fault + ('s, 'u) session_impl" where
  "c_write_trailer dw E sid hm c =
     (case lib_submit_trailer (c_lib E) sid (c_header_nva hm) (c_session c) of (rv, ses) \<Rightarrow>
        let c = c\<lparr>c_session := ses\<rparr> in if rv \<noteq> 0 then Inr c else c_signal_write dw c)"

definition c_cancel ::
    "(('s, 'u) session_impl \<Rightarrow> fault + ('s, 'u) session_impl) \<Rightarrow> ('s, 'u) client_env \<Rightarrow> int \<Rightarrow> u32
     \<Rightarrow> ('s, 'u) session_impl \<Rightarrow> fault + ('s, 'u) session_impl" where
  "c_cancel dw E sid ec c =
     (if c_stopped c then Inr c
      else c_signal_write dw (c\<lparr>c_session := submit_rst_stream (c_lib E) sid ec (c_session c)\<rparr>))"

definition c_resume ::
    "(('s, 'u) session_impl \<Rightarrow> fault + ('s, 'u) session_impl) \<Rightarrow> ('s, 'u) client_env \<Rightarrow> int
     \<Rightarrow> ('s, 'u) session_impl \<Rightarrow> fault + ('s, 'u) session_impl" where
  "c_resume dw E sid c =
     (if c_stopped c then Inr c
      else c_signal_write dw (c\<lparr>c_session := resume_data (c_lib E) sid (c_session c)\<rparr>))"

definition c_shutdown ::
    "(('s, 'u) session_impl \<Rightarrow> fault + ('s, 'u) session_impl) \<Rightarrow> ('s, 'u) client_env
     \<Rightarrow> ('s, 'u) session_impl \<Rightarrow> fault + ('s, 'u) session_impl" where
  "c_shutdown dw E c =
     (if c_stopped c then Inr c
      else c_signal_write dw (c\<lparr>c_session := terminate_session (c_lib E) (c_session c)\<rparr>))"

text \<open>The URI of a request, and its fields, from the parsed URL.\<close>

definition request_uri :: "('s, 'u) client_env \<Rightarrow> http_parser_url \<Rightarrow> string \<Rightarrow> uri_ref" where
  "request_uri E u uri =
     (let h0 = copy_url_component [] u UF_HOST uri;
          h1 = (if ipv6_numeric_addr (inet_pton E) h0 then ''['' @ h0 @ '']'' else h0);
          h2 = (if has_field u UF_PORT then h1 @ '':'' @ utos (unat (port u)) else h1);
          rp = copy_url_component [] u UF_PATH uri;
          rp = (if rp = [] then ''/'' else rp)
      in \<lparr>uri_scheme = copy_url_component [] u UF_SCHEMA uri, uri_host = h2, uri_path = percent_decode rp,
          raw_path = rp, raw_query = copy_url_component [] u UF_QUERY uri, uri_fragment = []\<rparr>)"

definition request_nva :: "string \<Rightarrow> http_parser_url \<Rightarrow> uri_ref \<Rightarrow> header_map \<Rightarrow> nghttp2_nv list" where
  "request_nva meth u uref hm =
     (let p = (if has_field u UF_QUERY then raw_path uref @ ''?'' @ raw_query uref else raw_path uref)
      in [make_nv_ls '':method'' meth, make_nv_ls '':scheme'' (uri_scheme uref), make_nv_ls '':path'' p,
          make_nv_ls '':authority'' (uri_host uref)] @ c_header_nva hm)"

definition submit ::
    "(('s, 'u) session_impl \<Rightarrow> fault + ('s, 'u) session_impl) \<Rightarrow> ('s, 'u) client_env \<Rightarrow> string \<Rightarrow> string
     \<Rightarrow> generator_cb option \<Rightarrow> header_map \<Rightarrow> priority_spec \<Rightarrow> ('s, 'u) session_impl
     \<Rightarrow> fault + (error_code \<times> int option \<times> ('s, 'u) session_impl)" where
  "submit dw E meth uri g hm prio c =
     (if c_stopped c then Inr (make_error_code (int (unat NGHTTP2_INTERNAL_ERROR)), None, c)
      else case http_parser_parse_url uri False http_parser_url_init of
        None \<Rightarrow> Inr (invalid_argument, None, c)
      | Some u \<Rightarrow>
          if \<not> has_field u UF_SCHEMA \<or> \<not> has_field u UF_HOST then Inr (invalid_argument, None, c)
          else
            (let uref = request_uri E u uri;
                 s = c_stream_new\<lparr>cs_request := c_request_new\<lparr>cq_uri := uref, cq_header := hm, cq_generator := g\<rparr>\<rparr>;
                 (rv, ses) = submit_request (c_lib E) (priority_get prio) (request_nva meth u uref hm) (g \<noteq> None) (c_session c);
                 c = c\<lparr>c_session := ses\<rparr>
             in if rv < 0 then Inr (make_error_code rv, None, c)
                else
                  bind_f (c_signal_write dw (c\<lparr>held := om_insert rv s (held c)\<rparr>)) (\<lambda>c.
                  let s' = (case om_find rv (held c) of Some s' \<Rightarrow> s' | None \<Rightarrow> s) in
                  bind_f (emplace_stream rv s' (c\<lparr>held := om_erase rv (held c)\<rparr>)) (\<lambda>c.
                    Inr (ec_clear, Some rv, c)))))"

definition run_req_op ::
    "(('s, 'u) session_impl \<Rightarrow> fault + ('s, 'u) session_impl) \<Rightarrow> ('s, 'u) client_env \<Rightarrow> int \<Rightarrow> req_op
     \<Rightarrow> ('s, 'u) session_impl \<Rightarrow> fault + ('s, 'u) session_impl" where
  "run_req_op dw E sid op c =
     (case op of
        On_response cb \<Rightarrow> upd_c_request sid (\<lambda>r. r\<lparr>cq_response_cb := cb\<rparr>) c
      | On_push cb \<Rightarrow> upd_c_request sid (\<lambda>r. r\<lparr>cq_push_request_cb := cb\<rparr>) c
      | On_request_close cb \<Rightarrow> upd_c_request sid (\<lambda>r. r\<lparr>cq_close_cb := cb\<rparr>) c
      | On_response_data cb \<Rightarrow> upd_c_response sid (\<lambda>r. r\<lparr>cp_data_cb := cb\<rparr>) c
      | Request_trailer hm \<Rightarrow> bind_f (the_c_stream sid c) (\<lambda>_. c_write_trailer dw E sid hm c)
      | Request_cancel ec \<Rightarrow> bind_f (the_c_stream sid c) (\<lambda>_. c_cancel dw E sid ec c)
      | Request_resume \<Rightarrow> bind_f (the_c_stream sid c) (\<lambda>_. c_resume dw E sid c))"

primrec run_client ::
    "(('s, 'u) session_impl \<Rightarrow> fault + ('s, 'u) session_impl) \<Rightarrow> ('s, 'u) client_env \<Rightarrow> 'u client_prog
     \<Rightarrow> ('s, 'u) session_impl \<Rightarrow> fault + ('s, 'u) session_impl" where
  "run_client dw E Client_done c = Inr c"
| "run_client dw E (Request_op sid op k) c = bind_f (run_req_op dw E sid op c) (run_client dw E k)"
| "run_client dw E (Submit meth uri g hm prio k) c =
     bind_f (submit dw E meth uri g hm prio c) (\<lambda>(ec, r, c'). run_client dw E (k ec r) c')"
| "run_client dw E (Shutdown k) c = bind_f (c_shutdown dw E c) (run_client dw E k)"
| "run_client dw E (Look_request sid k) c = bind_f (the_c_stream sid c) (\<lambda>s. run_client dw E (k (view_c_request (cs_request s)) (view_c_response (cs_response s))) c)"
| "run_client dw E (Set_client_state f k) c = run_client dw E k (c\<lparr>c_app := f (c_app c)\<rparr>)"

definition run_client_cb ::
    "(('s, 'u) session_impl \<Rightarrow> fault + ('s, 'u) session_impl) \<Rightarrow> ('s, 'u) client_env \<Rightarrow> client_cb option \<Rightarrow> client_arg
     \<Rightarrow> ('s, 'u) session_impl \<Rightarrow> fault + ('s, 'u) session_impl" where
  "run_client_cb dw E cb arg c =
     (case cb of
        None \<Rightarrow> Inr c
      | Some f \<Rightarrow> (case client_cbs E f arg (c_app c) of (p, u) \<Rightarrow> run_client dw E p (c\<lparr>c_app := u\<rparr>)))"

definition call_error_cb ::
    "(('s, 'u) session_impl \<Rightarrow> fault + ('s, 'u) session_impl) \<Rightarrow> ('s, 'u) client_env \<Rightarrow> error_code
     \<Rightarrow> ('s, 'u) session_impl \<Rightarrow> fault + ('s, 'u) session_impl" where
  "call_error_cb dw E ec c = (if c_stopped c then Inr c else run_client_cb dw E (error_cb c) (Session_error ec) c)"

section \<open>Callbacks of the library\<close>

definition store_request_header :: "string \<Rightarrow> string \<Rightarrow> u8 \<Rightarrow> c_request \<Rightarrow> c_request" where
  "store_request_header name val flags req =
     req\<lparr>cq_header_buffer_size := cq_header_buffer_size req + (length name + length val),
       cq_header := hm_emplace name \<lparr>hvalue = val, sensitive = flags AND NGHTTP2_NV_FLAG_NO_INDEX \<noteq> 0\<rparr> (cq_header req)\<rparr>"

definition store_response_header :: "string \<Rightarrow> string \<Rightarrow> u8 \<Rightarrow> c_response \<Rightarrow> c_response" where
  "store_response_header name val flags res =
     res\<lparr>cp_header_buffer_size := cp_header_buffer_size res + (length name + length val),
       cp_content_length := (if lookup_token name = Some HD_CONTENT_LENGTH then parse_uint val else cp_content_length res),
       cp_header := hm_emplace name \<lparr>hvalue = val, sensitive = flags AND NGHTTP2_NV_FLAG_NO_INDEX \<noteq> 0\<rparr> (cp_header res)\<rparr>"

definition recv_response_header :: "string \<Rightarrow> string \<Rightarrow> u8 \<Rightarrow> c_response \<Rightarrow> c_response \<times> bool" where
  "recv_response_header name val flags res =
     (if lookup_token name = Some HD__STATUS then (set_status_code (parse_uint val) res, True)
      else if cp_header_buffer_size res + length name + length val > 65536 then (res, False)
      else (store_response_header name val flags res, True))"

definition recv_push_header :: "string \<Rightarrow> string \<Rightarrow> u8 \<Rightarrow> c_request \<Rightarrow> c_request \<times> bool" where
  "recv_push_header name val flags req =
     (let uref = cq_uri req;
          add = (\<lambda>req. if cq_header_buffer_size req + length name + length val > 65536 then (req, False)
                       else (store_request_header name val flags req, True))
      in case lookup_token name of
           Some HD__METHOD \<Rightarrow> (req\<lparr>cq_method := val\<rparr>, True)
         | Some HD__SCHEME \<Rightarrow> (req\<lparr>cq_uri := uref\<lparr>uri_scheme := val\<rparr>\<rparr>, True)
         | Some HD__PATH \<Rightarrow> (req\<lparr>cq_uri := split_path uref val\<rparr>, True)
         | Some HD__AUTHORITY \<Rightarrow> (req\<lparr>cq_uri := uref\<lparr>uri_host := val\<rparr>\<rparr>, True)
         | Some HD_HOST \<Rightarrow> add (if uri_host uref = [] then req\<lparr>cq_uri := uref\<lparr>uri_host := val\<rparr>\<rparr> else req)
         | _ \<Rightarrow> add req)"

definition c_on_begin_headers_callback ::
    "nghttp2_frame \<Rightarrow> ('s, 'u) session_impl \<Rightarrow> fault + ('s, 'u) session_impl" where
  "c_on_begin_headers_callback fr c =
     (if hd_type fr \<noteq> PUSH_PROMISE then Inr c else create_push_stream (promised_stream_id fr) c)"

text \<open>Both limits reset the stream the frame arrived on.\<close>

definition reset_frame_stream ::
    "('s, 'u) client_env \<Rightarrow> nghttp2_frame \<Rightarrow> bool \<Rightarrow> ('s, 'u) session_impl \<Rightarrow> ('s, 'u) session_impl" where
  "reset_frame_stream E fr ok c =
     (if ok then c
      else c\<lparr>c_session := submit_rst_stream (c_lib E) (hd_stream_id fr) NGHTTP2_INTERNAL_ERROR (c_session c)\<rparr>)"

definition c_on_header_callback ::
    "('s, 'u) client_env \<Rightarrow> nghttp2_frame \<Rightarrow> string \<Rightarrow> string \<Rightarrow> u8 \<Rightarrow> ('s, 'u) session_impl \<Rightarrow> fault + ('s, 'u) session_impl" where
  "c_on_header_callback E fr name val flags c =
     (case hd_type fr of
        HEADERS \<Rightarrow>
          (case find_c_stream (hd_stream_id fr) c of
             None \<Rightarrow> Inr c
           | Some s \<Rightarrow>
               if headers_cat fr = HCAT_HEADERS \<and> \<not> expect_final_response s then Inr c
               else
                 (case recv_response_header name val flags (cs_response s) of (res, ok) \<Rightarrow>
                    Inr (reset_frame_stream E fr ok (put_c_stream (hd_stream_id fr) (s\<lparr>cs_response := res\<rparr>) c))))
      | PUSH_PROMISE \<Rightarrow>
          (case find_c_stream (promised_stream_id fr) c of
             None \<Rightarrow> Inr c
           | Some s \<Rightarrow>
               (case recv_push_header name val flags (cs_request s) of (req, ok) \<Rightarrow>
                  Inr (reset_frame_stream E fr ok (put_c_stream (promised_stream_id fr) (s\<lparr>cs_request := req\<rparr>) c))))
      | _ \<Rightarrow> Inr c)"

definition c_end_stream :: "nghttp2_frame \<Rightarrow> bool" where
  "c_end_stream fr \<longleftrightarrow> hd_flags fr AND NGHTTP2_FLAG_END_STREAM \<noteq> 0"

definition c_call_on_data ::
    "('s, 'u) client_env \<Rightarrow> int \<Rightarrow> string \<Rightarrow> ('s, 'u) session_impl \<Rightarrow> fault + ('s, 'u) session_impl" where
  "c_call_on_data E sid data c =
     bind_f (the_c_stream sid c) (\<lambda>s. run_client_cb no_flush E (cp_data_cb (cs_response s)) (Response_data data) c)"

definition c_on_frame_recv_callback ::
    "('s, 'u) client_env \<Rightarrow> nghttp2_frame \<Rightarrow> ('s, 'u) session_impl \<Rightarrow> fault + ('s, 'u) session_impl" where
  "c_on_frame_recv_callback E fr c =
     (let sid = hd_stream_id fr in
      case find_c_stream sid c of
        None \<Rightarrow> Inr c
      | Some s \<Rightarrow>
          (case hd_type fr of
             DATA \<Rightarrow> if c_end_stream fr then c_call_on_data E sid [] c else Inr c
           | HEADERS \<Rightarrow>
               if headers_cat fr = HCAT_HEADERS \<and> \<not> expect_final_response s then Inr c
               else if expect_final_response s then Inr c
               else
                 bind_f (run_client_cb no_flush E (cq_response_cb (cs_request s)) (Response_arrived sid) c) (\<lambda>c.
                   if c_end_stream fr then c_call_on_data E sid [] c else Inr c)
           | PUSH_PROMISE \<Rightarrow>
               (case find_c_stream (promised_stream_id fr) c of
                  None \<Rightarrow> Inr c
                | Some ps \<Rightarrow>
                    run_client_cb no_flush E (cq_push_request_cb (cs_request s)) (Pushed_request (promised_stream_id fr)) c)
           | _ \<Rightarrow> Inr c))"

definition c_on_data_chunk_recv_callback ::
    "('s, 'u) client_env \<Rightarrow> int \<Rightarrow> string \<Rightarrow> ('s, 'u) session_impl \<Rightarrow> fault + ('s, 'u) session_impl" where
  "c_on_data_chunk_recv_callback E sid data c =
     (case find_c_stream sid c of None \<Rightarrow> Inr c | Some s \<Rightarrow> c_call_on_data E sid data c)"

definition c_on_stream_close_callback ::
    "('s, 'u) client_env \<Rightarrow> int \<Rightarrow> u32 \<Rightarrow> ('s, 'u) session_impl \<Rightarrow> fault + ('s, 'u) session_impl" where
  "c_on_stream_close_callback E sid ec c =
     (case pop_stream E sid c of
        (None, c) \<Rightarrow> Inr c
      | (Some s, c) \<Rightarrow>
          bind_f (run_client_cb no_flush E (cq_close_cb (cs_request s)) (Request_closed ec)
                    (c\<lparr>held := om_insert sid s (held c)\<rparr>)) (\<lambda>c.
            Inr (c\<lparr>held := om_erase sid (held c)\<rparr>)))"

definition c_read_callback ::
    "int \<Rightarrow> nat \<Rightarrow> u32 \<Rightarrow> ('s, 'u) session_impl \<Rightarrow> fault + (answer \<times> ('s, 'u) session_impl)" where
  "c_read_callback sid len flags c =
     bind_f (the_c_stream sid c) (\<lambda>s.
       case call_on_read (cs_request s) len flags of ((n, bytes, flags'), req) \<Rightarrow>
         Inr (Read_result n bytes flags', put_c_stream sid (s\<lparr>cs_request := req\<rparr>) c))"

definition c_dispatch ::
    "('s, 'u) client_env \<Rightarrow> event \<Rightarrow> ('s, 'u) session_impl \<Rightarrow> fault + (answer \<times> ('s, 'u) session_impl)" where
  "c_dispatch E ev c =
     (let zero = (\<lambda>m. bind_f m (\<lambda>c'. Inr (Code 0, c'))) in
      case ev of
        On_begin_headers fr \<Rightarrow> zero (c_on_begin_headers_callback fr c)
      | On_header fr name val flags \<Rightarrow> zero (c_on_header_callback E fr name val flags c)
      | On_frame_recv fr \<Rightarrow> zero (c_on_frame_recv_callback E fr c)
      | On_data_chunk_recv sid data \<Rightarrow> zero (c_on_data_chunk_recv_callback E sid data c)
      | On_stream_close sid ec \<Rightarrow> zero (c_on_stream_close_callback E sid ec c)
      | Read_data sid len flags \<Rightarrow> c_read_callback sid len flags c
      | _ \<Rightarrow> Inr (Code 0, c))"

section \<open>Reading and writing\<close>

definition set_c_session :: "'s \<Rightarrow> ('s, 'u) session_impl \<Rightarrow> ('s, 'u) session_impl" where
  "set_c_session s c = c\<lparr>c_session := s\<rparr>"

definition set_c_inside :: "bool \<Rightarrow> ('s, 'u) session_impl \<Rightarrow> ('s, 'u) session_impl" where
  "set_c_inside b c = c\<lparr>c_inside_callback := b\<rparr>"

definition client_send ::
    "('s, 'u) client_env \<Rightarrow> ('s, 'u) session_impl \<Rightarrow> fault + (int \<times> string \<times> ('s, 'u) session_impl)" where
  "client_send E c = run_lib (c_dispatch E) c_session set_c_session (mem_send (c_lib E) (c_session c)) c"

text \<open>The guarded block of \<open>do_write\<close>: \<open>True\<close> is the early return after an error.\<close>

definition fill_wb ::
    "('s, 'u) client_env \<Rightarrow> ('s, 'u) session_impl \<Rightarrow> fault + (bool \<times> ('s, 'u) session_impl)" where
  "fill_wb E =
     guarded c_inside_callback set_c_inside (\<lambda>c.
       bind_f (fill_loop (client_send E) wb_size (wbuf c) c) (\<lambda>(n, out, p, c).
         let c = c\<lparr>wbuf := out\<rparr> in
         if n < 0 then bind_f (call_error_cb no_flush E (make_error_code n) c) (\<lambda>c. Inr (True, c_stop c))
         else Inr (False, case p of Some d \<Rightarrow> c\<lparr>data_pending := Some d\<rparr> | None \<Rightarrow> c)))"

definition c_do_write ::
    "('s, 'u) client_env \<Rightarrow> ('s, 'u) session_impl \<Rightarrow> fault + ('s, 'u) session_impl" where
  "c_do_write E c =
     (if c_stopped c \<or> c_writing c then Inr c
      else
        let out = wbuf c @ (case data_pending c of Some d \<Rightarrow> d | None \<Rightarrow> []) in
        if length out > wb_size then Inl Buffer_overrun
        else
          bind_f (fill_wb E (c\<lparr>wbuf := out, data_pending := None\<rparr>)) (\<lambda>(failed, c).
            if failed then Inr c
            else if wbuf c = [] then Inr (if c_should_stop E c then c_stop c else c)
            else Inr (c\<lparr>c_writing := True, c_expires_at := Some (clock E + c_read_timeout c), c_in_flight := Some (wbuf c)\<rparr>)))"

definition c_do_read :: "('s, 'u) client_env \<Rightarrow> ('s, 'u) session_impl \<Rightarrow> ('s, 'u) session_impl" where
  "c_do_read E c =
     (if c_stopped c then c else c\<lparr>c_expires_at := Some (clock E + c_read_timeout c), c_reading := True\<rparr>)"

text \<open>The completion handler of the read; \<open>Inl\<close> is the error of the read.\<close>

definition recv_bytes ::
    "('s, 'u) client_env \<Rightarrow> string \<Rightarrow> ('s, 'u) session_impl \<Rightarrow> fault + (bool \<times> ('s, 'u) session_impl)" where
  "recv_bytes E bs =
     guarded c_inside_callback set_c_inside (\<lambda>c.
       bind_f (run_lib (c_dispatch E) c_session set_c_session (mem_recv (c_lib E) bs (c_session c)) c) (\<lambda>(rv, _, c).
         if rv \<noteq> int (length bs) then
           bind_f (call_error_cb no_flush E (make_error_code (if rv < 0 then rv else NGHTTP2_ERR_PROTO)) c) (\<lambda>c.
             Inr (True, c_stop c))
         else Inr (False, c)))"

definition c_read_done ::
    "('s, 'u) client_env \<Rightarrow> error_code + string \<Rightarrow> ('s, 'u) session_impl \<Rightarrow> fault + ('s, 'u) session_impl" where
  "c_read_done E r c =
     (let c = c\<lparr>c_reading := False\<rparr> in
      case r of
        Inl ec \<Rightarrow>
          bind_f (if \<not> c_should_stop E c then call_error_cb (c_do_write E) E ec c else Inr c) (\<lambda>c. Inr (c_stop c))
      | Inr bs \<Rightarrow>
          bind_f (recv_bytes E bs c) (\<lambda>(failed, c).
            if failed then Inr c
            else
              bind_f (c_do_write E c) (\<lambda>c.
                if c_should_stop E c then Inr (c_stop c) else Inr (c_do_read E c))))"

definition c_write_done ::
    "('s, 'u) client_env \<Rightarrow> error_code option \<Rightarrow> ('s, 'u) session_impl \<Rightarrow> fault + ('s, 'u) session_impl" where
  "c_write_done E err c =
     (let c = c\<lparr>c_in_flight := None\<rparr> in
      case err of
        Some ec \<Rightarrow> bind_f (call_error_cb (c_do_write E) E ec c) (\<lambda>c. Inr (c_stop c))
      | None \<Rightarrow> c_do_write E (c\<lparr>wbuf := [], c_writing := False\<rparr>))"

section \<open>Connecting and timers\<close>

text \<open>\<open>boost::asio::error::timed_out\<close> is \<open>ETIMEDOUT\<close>.\<close>

definition timed_out :: error_code where
  "timed_out = \<lparr>ec_value = 110, ec_category = system_category\<rparr>"

definition c_handle_deadline ::
    "('s, 'u) client_env \<Rightarrow> ('s, 'u) session_impl \<Rightarrow> fault + ('s, 'u) session_impl" where
  "c_handle_deadline E c =
     (let c = c\<lparr>c_waiting := False\<rparr> in
      if c_stopped c then Inr c
      else case c_expires_at c of
        Some t \<Rightarrow>
          if t \<le> clock E then
            bind_f (call_error_cb (c_do_write E) E timed_out c) (\<lambda>c. Inr ((c_stop c)\<lparr>c_expires_at := None\<rparr>))
          else Inr (c\<lparr>c_waiting := True\<rparr>)
      | None \<Rightarrow> Inr (c\<lparr>c_waiting := True\<rparr>))"

definition handle_ping ::
    "('s, 'u) client_env \<Rightarrow> bool \<Rightarrow> ('s, 'u) session_impl \<Rightarrow> fault + ('s, 'u) session_impl" where
  "handle_ping E aborted c =
     (if c_stopped c \<or> aborted \<or> c_streams c \<noteq> [] then Inr c
      else
        bind_f (c_signal_write (c_do_write E) (c\<lparr>c_session := submit_ping (c_lib E) (c_session c)\<rparr>)) (\<lambda>c.
          Inr (start_ping E c)))"

definition setup_session ::
    "('s, 'u) client_env \<Rightarrow> ('s, 'u) session_impl \<Rightarrow> fault + (bool \<times> ('s, 'u) session_impl)" where
  "setup_session E c =
     (case session_new (c_lib E) of (rv, ses) \<Rightarrow>
        if rv \<noteq> 0 then bind_f (call_error_cb (c_do_write E) E (make_error_code rv) c) (\<lambda>c. Inr (False, c))
        else
          (let window_size = 256 * 1024 * 1024 :: nat
           in Inr (True, c\<lparr>c_session := set_local_window_size (c_lib E) window_size
                               (submit_settings (c_lib E) [(3, 100), (4, window_size)] ses)\<rparr>)))"

definition connected ::
    "('s, 'u) client_env \<Rightarrow> ('s, 'u) session_impl \<Rightarrow> fault + ('s, 'u) session_impl" where
  "connected E c =
     bind_f (setup_session E c) (\<lambda>(ok, c).
       if \<not> ok then Inr c
       else
         bind_f (c_do_write E c) (\<lambda>c.
           let c = start_ping E (c_do_read E c)
           in run_client_cb (c_do_write E) E (connect_cb c) Connected c))"

definition not_connected ::
    "('s, 'u) client_env \<Rightarrow> error_code \<Rightarrow> ('s, 'u) session_impl \<Rightarrow> fault + ('s, 'u) session_impl" where
  "not_connected E ec c = bind_f (call_error_cb (c_do_write E) E ec c) (\<lambda>c. Inr (c_stop c))"

definition start_resolve :: "('s, 'u) client_env \<Rightarrow> ('s, 'u) session_impl \<Rightarrow> ('s, 'u) session_impl" where
  "start_resolve E c = c\<lparr>c_expires_at := Some (clock E + connect_timeout c), c_waiting := True\<rparr>"

text \<open>The destructor reports an internal error to every stream that is left.\<close>

fun close_all_requests ::
    "('s, 'u) client_env \<Rightarrow> (int \<times> c_stream) list \<Rightarrow> ('s, 'u) session_impl \<Rightarrow> fault + ('s, 'u) session_impl" where
  "close_all_requests E [] c = Inr c"
| "close_all_requests E ((sid, s) # ss) c =
     bind_f (run_client_cb (c_do_write E) E (cq_close_cb (cs_request s)) (Request_closed NGHTTP2_INTERNAL_ERROR) c)
       (close_all_requests E ss)"

definition session_impl_delete ::
    "('s, 'u) client_env \<Rightarrow> ('s, 'u) session_impl \<Rightarrow> fault + ('s, 'u) session_impl" where
  "session_impl_delete E c = close_all_requests E (c_streams c) c"

end
