(* ===== verification/Client_Safety.thy ===== *)
theory Client_Safety
  imports Client_Session
begin

text \<open>
  The invariant of the client session and its preservation. The operations of the application are
  treated once, in a locale over the condition they keep and the flush they call; it is interpreted
  for code that runs inside a callback of the library, where no flush may happen, and for code that runs
  outside, where the flush is \<open>do_write\<close>.
\<close>

section \<open>The invariant\<close>

definition c_header_bytes :: "header_map \<Rightarrow> nat" where
  "c_header_bytes m = sum_list (map (\<lambda>(k, v). length k + length (hvalue v)) m)"

definition c_stream_ok :: "c_stream \<Rightarrow> bool" where
  "c_stream_ok s \<longleftrightarrow>
     cq_header_buffer_size (cs_request s) \<le> 65536 \<and>
     cp_header_buffer_size (cs_response s) \<le> 65536 \<and> hm_ok (cp_header (cs_response s)) \<and>
     cp_header_buffer_size (cs_response s) = c_header_bytes (cp_header (cs_response s)) \<and>
     - 1 \<le> cp_content_length (cs_response s)"

definition table_ok :: "(int, c_stream) omap \<Rightarrow> bool" where
  "table_ok m \<longleftrightarrow> om_ok m \<and> om.all_entries (\<lambda>_. c_stream_ok) m"

lemma table_ok_ops:
  "table_ok []"
  "table_ok m \<Longrightarrow> c_stream_ok s \<Longrightarrow> table_ok (om_insert sid s m)"
  "table_ok m \<Longrightarrow> c_stream_ok s \<Longrightarrow> table_ok (fst (om_emplace sid s m))"
  "table_ok m \<Longrightarrow> table_ok (om_erase sid m)"
  "table_ok m \<Longrightarrow> om_find sid m = Some s \<Longrightarrow> c_stream_ok s"
  by (auto simp: table_ok_def om.all_entries_empty om.all_entries_put om.all_entries_emplace om.inv_emplace
      om.all_entries_erase) (auto simp: om.all_entries_def)

definition expected_faults :: "fault set" where
  "expected_faults = {Duplicate_stream, Dangling_stream}"

definition yields :: "('c \<Rightarrow> bool) \<Rightarrow> fault + 'c \<Rightarrow> bool" where
  "yields J m \<longleftrightarrow> (case m of Inl e \<Rightarrow> e \<in> expected_faults | Inr c \<Rightarrow> J c)"

lemma yields_simps [simp]: "yields J (Inr c) = J c" "yields J (Inl e) = (e \<in> expected_faults)"
  by (simp_all add: yields_def)

lemma expected_faults_simps [simp]: "Duplicate_stream \<in> expected_faults" "Dangling_stream \<in> expected_faults"
  by (simp_all add: expected_faults_def)

lemma yields_bind: "yields J m \<Longrightarrow> (\<And>c. m = Inr c \<Longrightarrow> J c \<Longrightarrow> yields K (f c)) \<Longrightarrow> yields K (bind_f m f)"
  by (cases m) simp_all

lemma bind_f_assoc: "bind_f (bind_f m f) g = bind_f m (\<lambda>x. bind_f (f x) g)"
  by (cases m) simp_all

lemma yields_if: "(b \<Longrightarrow> yields J m) \<Longrightarrow> (\<not> b \<Longrightarrow> yields J m') \<Longrightarrow> yields J (if b then m else m')"
  by simp

lemma c_stream_new_ok: "c_stream_ok c_stream_new"
  by (simp add: c_stream_ok_def c_stream_new_def c_request_new_def c_response_new_def hm_ok_def c_header_bytes_def)

section \<open>Operations of the application\<close>

text \<open>The calls of the library that an operation of the session makes outside of reading and writing.\<close>

inductive lib_submits :: "'s nghttp2 \<Rightarrow> 's \<Rightarrow> 's \<Rightarrow> bool" for L s where
  Rst: "lib_submits L s (submit_rst_stream L sid ec s)"
| Resume: "lib_submits L s (resume_data L sid s)"
| Terminate: "lib_submits L s (terminate_session L s)"
| Ping: "lib_submits L s (submit_ping L s)"
| Trailer: "lib_submits L s (snd (lib_submit_trailer L sid nva s))"
| Request: "lib_submits L s (snd (submit_request L prio nva body s))"

locale client_ops =
  fixes E :: "('s, 'u) client_env"
    and J :: "('s, 'u) session_impl \<Rightarrow> bool"
    and dw :: "('s, 'u) session_impl \<Rightarrow> fault + ('s, 'u) session_impl"
  assumes J_tables: "J c \<Longrightarrow> table_ok (c_streams c) \<and> table_ok (held c)"
    and J_streams: "J c \<Longrightarrow> table_ok m \<Longrightarrow> J (c\<lparr>c_streams := m\<rparr>)"
    and J_held: "J c \<Longrightarrow> table_ok m \<Longrightarrow> J (c\<lparr>held := m\<rparr>)"
    and J_session: "J c \<Longrightarrow> lib_submits (c_lib E) (c_session c) ses \<Longrightarrow> J (c\<lparr>c_session := ses\<rparr>)"
    and J_app: "J c \<Longrightarrow> J (c\<lparr>c_app := u\<rparr>)"
    and J_ping: "J c \<Longrightarrow> J (c\<lparr>ping_at := p\<rparr>)"
    and J_flush: "J c \<Longrightarrow> \<not> c_inside_callback c \<Longrightarrow> yields J (dw c)"
begin

lemma the_c_stream_ok:
  assumes "J c" "\<And>s. c_stream_ok s \<Longrightarrow> the_c_stream sid c = Inr s \<Longrightarrow> yields K (f s)"
  shows "yields K (bind_f (the_c_stream sid c) f)"
  using assms J_tables [OF assms(1)] table_ok_ops(5)
  by (cases "the_c_stream sid c") (auto simp: the_c_stream_def split: option.splits)

lemma put_c_stream_J: "J c \<Longrightarrow> c_stream_ok s \<Longrightarrow> J (put_c_stream sid s c)"
  using J_tables [of c] by (auto simp: put_c_stream_def intro!: J_streams J_held table_ok_ops)

lemma upd_c_request_J:
  assumes "J c" "\<And>r. cq_header_buffer_size (f r) = cq_header_buffer_size r"
  shows "yields J (upd_c_request sid f c)"
  unfolding upd_c_request_def using assms
  by (auto intro!: the_c_stream_ok [OF assms(1)] put_c_stream_J simp: c_stream_ok_def)

lemma upd_c_response_J:
  assumes "J c" "\<And>r. cp_header_buffer_size (f r) = cp_header_buffer_size r \<and> cp_header (f r) = cp_header r \<and>
    cp_content_length (f r) = cp_content_length r"
  shows "yields J (upd_c_response sid f c)"
  unfolding upd_c_response_def using assms
  by (auto intro!: the_c_stream_ok [OF assms(1)] put_c_stream_J simp: c_stream_ok_def)

lemma signal_J: "J c \<Longrightarrow> yields J (c_signal_write dw c)"
  by (simp add: c_signal_write_def J_flush)

lemma emplace_J: "J c \<Longrightarrow> c_stream_ok s \<Longrightarrow> yields J (emplace_stream sid s c)"
  using J_tables [of c] J_ping [OF J_streams]
  by (simp add: emplace_stream_def split_beta table_ok_ops)

lemma submit_J:
  assumes "J c" "\<And>ec r c'. J c' \<Longrightarrow> yields K (f ec r c')"
  shows "yields K (bind_f (submit dw E meth uri g hm prio c) (\<lambda>(ec, r, c'). f ec r c'))"
proof (cases "http_parser_parse_url uri False http_parser_url_init")
  case (Some u)
  define uref where "uref = request_uri E u uri"
  define s where "s = c_stream_new\<lparr>cs_request := c_request_new\<lparr>cq_uri := uref, cq_header := hm, cq_generator := g\<rparr>\<rparr>"
  obtain rv ses where rv: "submit_request (c_lib E) (priority_get prio) (request_nva meth u uref hm) (g \<noteq> None) (c_session c) = (rv, ses)" by force
  let ?c = "c\<lparr>c_session := ses\<rparr>"
  have J1: "J ?c" by (rule J_session [OF assms(1)]) (metis rv snd_conv lib_submits.Request)
  have s: "c_stream_ok s" using c_stream_new_ok by (simp add: s_def c_stream_ok_def c_request_new_def)
  have tail: "yields K (bind_f (emplace_stream rv (case om_find rv (held c2) of Some s' \<Rightarrow> s' | None \<Rightarrow> s)
      (c2\<lparr>held := om_erase rv (held c2)\<rparr>)) (f ec_clear (Some rv)))" if "J c2" for c2
    using J_tables [OF that] s
    by (intro yields_bind [OF emplace_J] J_held [OF that] assms(2)) (auto simp: table_ok_ops split: option.split)
  have flush: "yields K (bind_f (c_signal_write dw (?c\<lparr>held := om_insert rv s (held c)\<rparr>)) (\<lambda>c.
      bind_f (emplace_stream rv (case om_find rv (held c) of Some s' \<Rightarrow> s' | None \<Rightarrow> s)
        (c\<lparr>held := om_erase rv (held c)\<rparr>)) (f ec_clear (Some rv))))"
    using J_tables [OF assms(1)] s by (intro yields_bind [OF signal_J] J_held [OF J1] tail) (auto simp: table_ok_ops)
  show ?thesis
    using assms J1 flush [unfolded s_def uref_def] rv [unfolded uref_def]
    by (simp add: submit_def Some bind_f_assoc Let_def)
qed (use assms in \<open>simp add: submit_def\<close>)

lemma run_req_op_J: "J c \<Longrightarrow> yields J (run_req_op dw E sid op c)"
  by (cases op)
    (auto simp: run_req_op_def c_write_trailer_def c_cancel_def c_resume_def split_beta Let_def
      intro!: upd_c_request_J upd_c_response_J the_c_stream_ok signal_J J_session intro: lib_submits.intros)

lemma run_client_J: "J c \<Longrightarrow> yields J (run_client dw E p c)"
proof (induction p arbitrary: c rule: client_prog_induct)
  case (Request_op sid op k)
  then show ?case by (auto intro!: yields_bind run_req_op_J)
next
  case (Submit meth uri g hm prio k)
  then show ?case by (simp only: run_client.simps) (rule submit_J)
next
  case (Shutdown k)
  then show ?case by (auto simp: c_shutdown_def intro!: yields_bind signal_J J_session intro: lib_submits.intros)
next
  case (Look_request sid k)
  then show ?case by (auto intro!: the_c_stream_ok)
qed (auto intro: J_app)

lemma run_client_cb_J: "J c \<Longrightarrow> yields J (run_client_cb dw E cb arg c)"
  by (auto simp: run_client_cb_def split_beta intro!: run_client_J J_app split: option.split)

lemma call_error_cb_J: "J c \<Longrightarrow> yields J (call_error_cb dw E ec c)"
  by (simp add: call_error_cb_def run_client_cb_J)

end

section \<open>Inside a callback\<close>

lemma c_hm_bytes: "c_header_bytes (hm_emplace k v m) = length k + length (hvalue v) + c_header_bytes m"
  by (induction m) (auto simp: c_header_bytes_def)

lemma recv_response_header_ok:
  "c_stream_ok s \<Longrightarrow> c_stream_ok (s\<lparr>cs_response := fst (recv_response_header name val flags (cs_response s))\<rparr>)"
  using parse_uint_range [of val]
  by (auto simp: c_stream_ok_def recv_response_header_def set_status_code_def store_response_header_def c_hm_bytes hm_emplace_ok)

lemma recv_push_header_ok:
  "c_stream_ok s \<Longrightarrow> c_stream_ok (s\<lparr>cs_request := fst (recv_push_header name val flags (cs_request s))\<rparr>)"
  by (auto simp: c_stream_ok_def recv_push_header_def store_request_header_def Let_def split: option.split hd_token.split)

text \<open>What every operation keeps inside a callback, where no flush may happen, every callback of the library keeps.\<close>

locale client_callbacks = client_ops E J no_flush
  for E :: "('s, 'u) client_env" and J :: "('s, 'u) session_impl \<Rightarrow> bool"
begin

lemma reset_J: "J c \<Longrightarrow> J (reset_frame_stream E fr ok c)"
  by (simp add: reset_frame_stream_def J_session lib_submits.Rst)

lemma find_ok: "J c \<Longrightarrow> find_c_stream sid c = Some s \<Longrightarrow> c_stream_ok s"
  using J_tables [of c] by (auto simp: find_c_stream_def dest: table_ok_ops(5))

lemma c_on_header_J:
  assumes "J c"
  shows "yields J (c_on_header_callback E fr name val flags c)"
  using assms find_ok [OF assms] recv_response_header_ok recv_push_header_ok
  by (auto simp: c_on_header_callback_def split_beta intro!: reset_J put_c_stream_J
      split: frame_type.split option.split)

lemma c_call_on_data_J: "J c \<Longrightarrow> yields J (c_call_on_data E sid data c)"
  unfolding c_call_on_data_def by (auto intro!: the_c_stream_ok run_client_cb_J)

lemma c_on_frame_recv_J:
  assumes "J c"
  shows "yields J (c_on_frame_recv_callback E fr c)"
  using assms
  by (auto simp: c_on_frame_recv_callback_def Let_def intro!: yields_bind [OF run_client_cb_J] run_client_cb_J
      c_call_on_data_J split: frame_type.split option.split)

lemma c_on_stream_close_J:
  assumes "J c"
  shows "yields J (c_on_stream_close_callback E sid ec c)"
proof (cases "om_find sid (c_streams c)")
  case (Some s)
  obtain c1 where p: "pop_stream E sid c = (Some s, c1)" using Some by (simp add: pop_stream_def Let_def)
  have s: "c_stream_ok s" using J_tables [OF assms] Some by (auto dest: table_ok_ops(5))
  have J1: "J c1"
    using assms J_tables [OF assms] Some p
    by (auto simp: pop_stream_def start_ping_def Let_def intro!: J_ping J_streams table_ok_ops)
  have "yields J (bind_f (run_client_cb no_flush E (cq_close_cb (cs_request s)) (Request_closed ec)
      (c1\<lparr>held := om_insert sid s (held c1)\<rparr>)) (\<lambda>c. Inr (c\<lparr>held := om_erase sid (held c)\<rparr>)))"
  proof (rule yields_bind [OF run_client_cb_J])
    show "J (c1\<lparr>held := om_insert sid s (held c1)\<rparr>)"
      using J1 J_tables [OF J1] s by (intro J_held) (auto simp: table_ok_ops)
    fix c2 assume "J c2"
    then show "yields J (Inr (c2\<lparr>held := om_erase sid (held c2)\<rparr>))"
      using J_tables [of c2] by (auto intro!: J_held table_ok_ops)
  qed
  then show ?thesis unfolding c_on_stream_close_callback_def p by simp
qed (use assms in \<open>simp add: c_on_stream_close_callback_def pop_stream_def\<close>)

lemma c_read_callback_J:
  assumes "J c"
  shows "yields J (bind_f (c_read_callback sid len flags c) (\<lambda>(a, c'). Inr c'))"
proof -
  have "cq_header_buffer_size (snd (call_on_read r len flags)) = cq_header_buffer_size r" for r
    by (simp add: call_on_read_def split_beta split: option.split)
  then show ?thesis
    unfolding c_read_callback_def bind_f_assoc using assms
    by (auto simp: split_beta c_stream_ok_def intro!: the_c_stream_ok put_c_stream_J)
qed

lemma c_dispatch_J:
  assumes "J c"
  shows "yields J (bind_f (c_dispatch E ev c) (\<lambda>(a, c'). Inr c'))"
proof -
  have zero: "yields J (bind_f (bind_f m (\<lambda>c'. Inr (Code 0, c'))) (\<lambda>(a, c'). Inr c')) = yields J m"
    for J :: "('s, 'u) session_impl \<Rightarrow> bool" and m by (cases m) simp_all
  show ?thesis
    using assms c_read_callback_J [OF assms]
    by (cases ev) (auto simp: c_dispatch_def zero c_on_begin_headers_callback_def create_push_stream_def
        c_on_data_chunk_recv_callback_def c_stream_new_ok
        intro!: emplace_J c_on_header_J c_on_frame_recv_J c_call_on_data_J c_on_stream_close_J
        split: option.split)
qed

end

text \<open>What no callback changes: the flag, the write buffer and the state of the socket operations.\<close>

definition cview :: "('s, 'u) session_impl \<Rightarrow> bool \<times> string \<times> string option \<times> bool \<times> bool \<times> string option \<times> bool" where
  "cview c = (c_inside_callback c, wbuf c, data_pending c, c_writing c, c_stopped c, c_in_flight c, c_reading c)"

definition client_inside ::
    "string \<times> string option \<times> bool \<times> bool \<times> string option \<times> bool \<Rightarrow> ('s, 'u) session_impl \<Rightarrow> bool" where
  "client_inside v c \<longleftrightarrow> table_ok (c_streams c) \<and> table_ok (held c) \<and> cview c = (True, v)"

interpretation ins: client_callbacks E "client_inside v" for E v
  by unfold_locales (auto simp: client_inside_def cview_def)

interpretation cli: callback_object "c_dispatch E" c_session set_c_session "client_inside v" "- expected_faults" for E v
proof
  fix c :: "('a, 'b) session_impl" and ev a c' s e
  assume inv: "client_inside v c"
  note k = ins.c_dispatch_J [OF inv, of E ev]
  show "client_inside v c'" if "c_dispatch E ev c = Inr (a, c')" using k that by simp
  show "client_inside v (set_c_session s c)" using inv by (simp add: set_c_session_def client_inside_def cview_def)
  show "e \<notin> - expected_faults" if "c_dispatch E ev c = Inl e" using k that by simp
qed

interpretation cli_guard: callback_guard c_inside_callback set_c_inside
  by unfold_locales (simp add: set_c_inside_def)

section \<open>Outside of callbacks\<close>

definition c_pending_bytes :: "('s, 'u) session_impl \<Rightarrow> string" where
  "c_pending_bytes c = (case data_pending c of Some d \<Rightarrow> d | None \<Rightarrow> [])"

definition client_inv :: "('s, 'u) session_impl \<Rightarrow> bool" where
  "client_inv c \<longleftrightarrow>
     table_ok (c_streams c) \<and> table_ok (held c) \<and> \<not> c_inside_callback c \<and>
     (\<not> c_writing c \<and> \<not> c_stopped c \<longrightarrow> wbuf c = []) \<and>
     length (c_pending_bytes c) \<le> wb_size \<and> length (wbuf c) \<le> wb_size \<and>
     (\<forall>out. c_in_flight c = Some out \<longrightarrow> c_writing c \<and> out = wbuf c \<and> out \<noteq> [])"

definition c_chunks_fit :: "('s, 'u) client_env \<Rightarrow> bool" where
  "c_chunks_fit E \<longleftrightarrow> (\<forall>t c n bs c'. client_send (E\<lparr>clock := t\<rparr>) c = Inr (n, bs, c') \<longrightarrow> length bs \<le> wb_size)"

lemma c_chunks_fit_clock [simp]: "c_chunks_fit E \<Longrightarrow> c_chunks_fit (E\<lparr>clock := t\<rparr>)"
  by (simp add: c_chunks_fit_def)

lemma c_chunks_fitD: "c_chunks_fit E \<Longrightarrow> client_send E c = Inr (n, bs, c') \<Longrightarrow> length bs \<le> wb_size"
proof -
  have "E\<lparr>clock := clock E\<rparr> = E" by simp
  then show "c_chunks_fit E \<Longrightarrow> client_send E c = Inr (n, bs, c') \<Longrightarrow> length bs \<le> wb_size"
    unfolding c_chunks_fit_def by metis
qed

lemma client_inv_frame [simp]:
  "client_inv (c\<lparr>c_reading := b\<rparr>) = client_inv c" "client_inv (c\<lparr>c_expires_at := d\<rparr>) = client_inv c"
  "client_inv (c\<lparr>c_waiting := b\<rparr>) = client_inv c" "client_inv (c\<lparr>ping_at := p\<rparr>) = client_inv c"
  "client_inv (c\<lparr>c_session := s\<rparr>) = client_inv c" "client_inv (c\<lparr>c_app := u\<rparr>) = client_inv c"
  by (simp_all add: client_inv_def c_pending_bytes_def)

lemma client_inv_stop [simp]: "client_inv c \<Longrightarrow> client_inv (c_stop c)"
  by (auto simp: client_inv_def c_stop_def c_pending_bytes_def)

text \<open>What the guarded fill of the write buffer leaves behind.\<close>

definition filled :: "('s, 'u) client_env \<Rightarrow> ('s, 'u) session_impl \<Rightarrow> bool \<times> ('s, 'u) session_impl \<Rightarrow> bool" where
  "filled E c r \<longleftrightarrow>
     (case r of (failed, c') \<Rightarrow>
        table_ok (c_streams c') \<and> table_ok (held c') \<and> \<not> c_inside_callback c' \<and>
        length (wbuf c') \<le> wb_size \<and> length (c_pending_bytes c') \<le> wb_size \<and> c_in_flight c' = c_in_flight c \<and>
        c_reading c' = c_reading c \<and> c_writing c' = c_writing c \<and> (if failed then c_stopped c' else c_stopped c' = c_stopped c) \<and>
        (\<not> failed \<longrightarrow> (\<exists>ds c1. sends (client_send E) (set_c_inside True c) ds c1 \<and>
           wbuf c' @ c_pending_bytes c' = wbuf c @ concat ds)))"

lemma fill_wb_ok:
  assumes "table_ok (c_streams c)" "table_ok (held c)" "\<not> c_inside_callback c" "data_pending c = None"
    "length (wbuf c) \<le> wb_size" "c_chunks_fit E"
  shows "yields (filled E c) (fill_wb E c)"
proof -
  let ?v = "(wbuf c, None, c_writing c, c_stopped c, c_in_flight c, c_reading c)"
  let ?c = "set_c_inside True c"
  let ?fill = "fill_loop (client_send E) wb_size (wbuf ?c) ?c"
  have inv: "client_inside ?v ?c" using assms by (simp add: client_inside_def cview_def set_c_inside_def)
  have send: "client_send E = (\<lambda>c. run_lib (c_dispatch E) c_session set_c_session (mem_send (c_lib E) (c_session c)) c)"
    by (simp add: fun_eq_iff client_send_def)
  note fill = cli.fill_run_lib [OF inv, of E "mem_send (c_lib E)" wb_size "wbuf ?c", folded send]
  show ?thesis
  proof (cases ?fill)
    case (Inl e)
    with assms(3) fill(2) show ?thesis by (simp add: fill_wb_def guarded_def)
  next
    case (Inr r)
    obtain n out p c1 where r: "r = (n, out, p, c1)" by (cases r) auto
    with Inr have f: "?fill = Inr (n, out, p, c1)" by simp
    have c1: "client_inside ?v c1" by (rule fill(1) [OF f])
    have len: "length (wbuf ?c) \<le> wb_size" using assms(5) by (simp add: set_c_inside_def)
    from fill_loop_sends [OF f len] obtain ds c2 where ds: "length out \<le> wb_size" "sends (client_send E) ?c ds c2"
      "out @ (case p of None \<Rightarrow> [] | Some d \<Rightarrow> d) = wbuf c @ concat ds" "\<And>d. p = Some d \<Longrightarrow> d \<in> set ds \<and> n = 0"
      "n < 0 \<Longrightarrow> p = None"
      by (auto simp: set_c_inside_def split: option.splits)
    have "\<forall>d \<in> set ds. length d \<le> wb_size"
      using ds(2) by (rule sends_bounded) (rule c_chunks_fitD [OF assms(6)])
    with ds(4) have pl: "\<And>d. p = Some d \<Longrightarrow> length d \<le> wb_size" by blast
    show ?thesis
    proof (cases "n < 0")
      case False
      have "fill_wb E c = Inr (False, set_c_inside False (case p of Some d \<Rightarrow> c1\<lparr>wbuf := out, data_pending := Some d\<rparr> | None \<Rightarrow> c1\<lparr>wbuf := out\<rparr>))"
        using f False assms(3) c1
        by (auto simp: fill_wb_def guarded_def client_inside_def cview_def Let_def split: option.split)
      with c1 ds pl show ?thesis
        by (auto simp: filled_def client_inside_def cview_def set_c_inside_def c_pending_bytes_def split: option.split)
    next
      case True
      have c1': "client_inside (out, None, c_writing c, c_stopped c, c_in_flight c, c_reading c) (c1\<lparr>wbuf := out\<rparr>)"
        using c1 by (simp add: client_inside_def cview_def)
      note e = ins.call_error_cb_J [OF c1', of E "make_error_code n"]
      have w: "fill_wb E c = (case call_error_cb no_flush E (make_error_code n) (c1\<lparr>wbuf := out\<rparr>) of
          Inl e \<Rightarrow> Inl e
        | Inr c3 \<Rightarrow> if c_inside_callback (c_stop c3) then Inr (True, set_c_inside False (c_stop c3)) else Inl Guard_assert)"
        using f True assms(3) by (simp add: fill_wb_def guarded_def bind_f_assoc Let_def split: sum.split)
      show ?thesis
        using e ds(1) unfolding w
        by (cases "call_error_cb no_flush E (make_error_code n) (c1\<lparr>wbuf := out\<rparr>)")
          (auto simp: filled_def client_inside_def cview_def set_c_inside_def c_stop_def c_pending_bytes_def)
    qed
  qed
qed

lemma c_do_write_idle:
  assumes "client_inv c" "\<not> c_stopped c" "\<not> c_writing c"
  shows "c_do_write E c = bind_f (fill_wb E (c\<lparr>wbuf := c_pending_bytes c, data_pending := None\<rparr>)) (\<lambda>(failed, c).
            if failed then Inr c
            else if wbuf c = [] then Inr (if c_should_stop E c then c_stop c else c)
            else Inr (c\<lparr>c_writing := True, c_expires_at := Some (clock E + c_read_timeout c), c_in_flight := Some (wbuf c)\<rparr>))"
proof -
  have "wbuf c = []" "length (c_pending_bytes c) \<le> wb_size" using assms by (auto simp: client_inv_def)
  with assms(2,3) show ?thesis by (auto simp: c_do_write_def c_pending_bytes_def Let_def)
qed

lemma c_do_write_inv:
  fixes c :: "('a, 'b) session_impl"
  assumes "c_chunks_fit E" "client_inv c"
  shows "yields client_inv (c_do_write E c)"
proof (cases "c_stopped c \<or> c_writing c")
  case False
  let ?c = "c\<lparr>wbuf := c_pending_bytes c, data_pending := None\<rparr>"
  have c: "wbuf c = []" "c_in_flight c = None" "length (c_pending_bytes c) \<le> wb_size"
    using assms(2) False by (auto simp: client_inv_def)
  have "yields client_inv (bind_f (fill_wb E ?c) (\<lambda>(failed, c).
      if failed then Inr c
      else if wbuf c = [] then Inr (if c_should_stop E c then c_stop c else c)
      else Inr (c\<lparr>c_writing := True, c_expires_at := Some (clock E + c_read_timeout c), c_in_flight := Some (wbuf c)\<rparr>)))"
  proof (rule yields_bind [OF fill_wb_ok])
    fix x :: "bool \<times> ('a, 'b) session_impl"
    assume x: "filled E ?c x"
    obtain failed c2 where x2: "x = (failed, c2)" by force
    with x c have "failed \<or> wbuf c2 = [] \<Longrightarrow> client_inv c2"
      by (auto simp: client_inv_def filled_def)
    moreover have "wbuf c2 \<noteq> [] \<Longrightarrow> client_inv (c2\<lparr>c_writing := True, c_expires_at := Some t, c_in_flight := Some (wbuf c2)\<rparr>)" for t
      using x x2 c by (auto simp: client_inv_def filled_def c_pending_bytes_def)
    ultimately show "yields client_inv (case x of (failed, c) \<Rightarrow>
      if failed then Inr c
      else if wbuf c = [] then Inr (if c_should_stop E c then c_stop c else c)
      else Inr (c\<lparr>c_writing := True, c_expires_at := Some (clock E + c_read_timeout c), c_in_flight := Some (wbuf c)\<rparr>))"
      by (simp add: x2)
  qed (use assms c in \<open>auto simp: client_inv_def\<close>)
  with c_do_write_idle [OF assms(2), of E] False show ?thesis by simp
qed (use assms in \<open>auto simp: c_do_write_def\<close>)

lemma outside_ops:
  assumes "c_chunks_fit E"
  shows "client_ops E client_inv (c_do_write E)"
proof
  fix c :: "('a, 'b) session_impl"
  assume "client_inv c"
  then show "yields client_inv (c_do_write E c)" by (rule c_do_write_inv [OF assms])
qed (auto simp: client_inv_def c_pending_bytes_def)

section \<open>Events\<close>

lemma recv_bytes_inv:
  assumes "client_inv c"
  shows "yields (\<lambda>(failed, c'). client_inv c') (recv_bytes E bs c)"
proof -
  let ?v = "(wbuf c, data_pending c, c_writing c, c_stopped c, c_in_flight c, c_reading c)"
  let ?c = "set_c_inside True c"
  let ?run = "run_lib (c_dispatch E) c_session set_c_session (mem_recv (c_lib E) bs (c_session ?c)) ?c"
  have out: "\<not> c_inside_callback c" using assms by (simp add: client_inv_def)
  have inv: "client_inside ?v ?c" using assms by (simp add: client_inside_def cview_def set_c_inside_def client_inv_def)
  have leave: "client_inv (set_c_inside False c')" "client_inv (set_c_inside False (c_stop c'))" if "client_inside ?v c'" for c' :: "('a, 'b) session_impl"
    using that assms by (auto simp: client_inside_def cview_def set_c_inside_def client_inv_def c_pending_bytes_def c_stop_def)
  show ?thesis
  proof (cases ?run)
    case (Inl e)
    with out cli.run_lib_fault [OF inv Inl] show ?thesis by (simp add: recv_bytes_def guarded_def)
  next
    case (Inr r)
    obtain rv d c1 where r: "r = (rv, d, c1)" by (cases r) auto
    with Inr have f: "?run = Inr (rv, d, c1)" by simp
    have c1: "client_inside ?v c1" by (rule cli.run_lib_inv [OF inv f])
    show ?thesis
    proof (cases "rv = int (length bs)")
      case True
      with f out c1 leave(1) [OF c1] show ?thesis
        by (simp add: recv_bytes_def guarded_def) (simp add: client_inside_def cview_def)
    next
      case False
      let ?e = "call_error_cb no_flush E (make_error_code (if rv < 0 then rv else NGHTTP2_ERR_PROTO)) c1"
      have w: "recv_bytes E bs c = (case ?e of Inl e \<Rightarrow> Inl e
        | Inr c3 \<Rightarrow> if c_inside_callback (c_stop c3) then Inr (True, set_c_inside False (c_stop c3)) else Inl Guard_assert)"
        using f False out by (simp add: recv_bytes_def guarded_def bind_f_assoc split: sum.split)
      show ?thesis
        using ins.call_error_cb_J [OF c1, of E "make_error_code (if rv < 0 then rv else NGHTTP2_ERR_PROTO)"] leave(2) unfolding w
        by (cases ?e) (auto simp: client_inside_def cview_def c_stop_def)
    qed
  qed
qed

lemma c_do_read_inv [simp]: "client_inv c \<Longrightarrow> client_inv (c_do_read E c)"
  by (simp add: c_do_read_def)

lemma start_ping_inv [simp]: "client_inv (start_ping E c) = client_inv c"
  by (simp add: start_ping_def)

lemma yields_bind_pair:
  "yields (\<lambda>(b, c). J c) m \<Longrightarrow> (\<And>b c. J c \<Longrightarrow> yields K (f b c)) \<Longrightarrow> yields K (bind_f m (\<lambda>(b, c). f b c))"
  by (cases m) auto

lemma c_read_done_inv:
  assumes "c_chunks_fit E" "client_inv c"
  shows "yields client_inv (c_read_done E r c)"
proof (cases r)
  case (Inl ec)
  with assms client_ops.call_error_cb_J [OF outside_ops [OF assms(1)]] show ?thesis
    by (auto simp: c_read_done_def Let_def intro!: yields_bind [where J = client_inv])
next
  case (Inr bs)
  have "yields client_inv (bind_f (recv_bytes E bs (c\<lparr>c_reading := False\<rparr>)) (\<lambda>(failed, c).
            if failed then Inr c
            else
              bind_f (c_do_write E c) (\<lambda>c.
                if c_should_stop E c then Inr (c_stop c) else Inr (c_do_read E c))))"
    using assms c_do_write_inv [OF assms(1)]
    by (intro yields_bind_pair [where J = client_inv] recv_bytes_inv yields_if yields_bind [where J = client_inv]) simp_all
  with Inr show ?thesis by (simp add: c_read_done_def)
qed

lemma c_write_done_inv:
  assumes "c_chunks_fit E" "client_inv c" "c_in_flight c \<noteq> None"
  shows "yields client_inv (c_write_done E err c)"
proof -
  have "client_inv (c\<lparr>c_in_flight := None\<rparr>)" "client_inv (c\<lparr>c_in_flight := None, wbuf := [], c_writing := False\<rparr>)"
    using assms(2) by (auto simp: client_inv_def c_pending_bytes_def)
  with client_ops.call_error_cb_J [OF outside_ops [OF assms(1)]] c_do_write_inv [OF assms(1)] show ?thesis
    by (auto simp: c_write_done_def Let_def intro!: yields_bind [where J = client_inv] split: option.split)
qed

lemma c_handle_deadline_inv:
  assumes "c_chunks_fit E" "client_inv c"
  shows "yields client_inv (c_handle_deadline E c)"
  using assms client_ops.call_error_cb_J [OF outside_ops [OF assms(1)]]
  by (auto simp: c_handle_deadline_def Let_def intro!: yields_bind [where J = client_inv] split: option.split)

lemma handle_ping_inv:
  assumes "c_chunks_fit E" "client_inv c"
  shows "yields client_inv (handle_ping E aborted c)"
  using assms client_ops.signal_J [OF outside_ops [OF assms(1)]]
  by (auto simp: handle_ping_def intro!: yields_bind [where J = client_inv])

lemma connected_inv:
  assumes "c_chunks_fit E" "client_inv c"
  shows "yields client_inv (connected E c)"
proof -
  have su: "yields (\<lambda>(ok, c). client_inv c) (setup_session E c)"
    using assms client_ops.call_error_cb_J [OF outside_ops [OF assms(1)]]
    by (auto simp: setup_session_def split_beta Let_def intro!: yields_bind [where J = client_inv])
  show ?thesis
    unfolding connected_def Let_def using client_ops.run_client_cb_J [OF outside_ops [OF assms(1)]] c_do_write_inv [OF assms(1)]
    by (intro yields_bind_pair [OF su] yields_if yields_bind [where J = client_inv]) simp_all
qed

text \<open>
  What can happen to a session: completions of its socket operations, timers, the result of the
  connection attempt, and calls of the application outside of callbacks.
\<close>

inductive client_step :: "('s, 'u) client_env \<Rightarrow> ('s, 'u) session_impl \<Rightarrow> fault + ('s, 'u) session_impl \<Rightarrow> bool" for E where
  Read: "c_reading c \<Longrightarrow> client_step E c (c_read_done (E\<lparr>clock := t\<rparr>) r c)"
| Written: "c_in_flight c \<noteq> None \<Longrightarrow> client_step E c (c_write_done (E\<lparr>clock := t\<rparr>) err c)"
| Deadline: "c_waiting c \<Longrightarrow> client_step E c (c_handle_deadline (E\<lparr>clock := t\<rparr>) c)"
| Ping: "client_step E c (handle_ping (E\<lparr>clock := t\<rparr>) aborted c)"
| Connect: "client_step E c (connected (E\<lparr>clock := t\<rparr>) c)"
| Connect_failed: "client_step E c (not_connected (E\<lparr>clock := t\<rparr>) ec c)"
| Application: "client_step E c (run_client (c_do_write (E\<lparr>clock := t\<rparr>)) (E\<lparr>clock := t\<rparr>) p c)"

inductive_cases client_stepE: "client_step E c r"

inductive client_reachable :: "('s, 'u) client_env \<Rightarrow> ('s, 'u) session_impl \<Rightarrow> fault + ('s, 'u) session_impl \<Rightarrow> bool" for E where
  Initial: "client_reachable E c (Inr c)"
| Step: "client_reachable E c (Inr c') \<Longrightarrow> client_step E c' r \<Longrightarrow> client_reachable E c r"

lemma client_step_inv:
  assumes "c_chunks_fit E" "client_step E c r" "client_inv c"
  shows "yields client_inv r"
  using assms(2)
proof cases
  case (Written t err)
  with c_write_done_inv assms(1,3) c_chunks_fit_clock show ?thesis by blast
next
  case (Connect_failed t ec)
  with assms client_ops.call_error_cb_J [OF outside_ops [of "E\<lparr>clock := t\<rparr>"]] show ?thesis
    by (auto simp: not_connected_def intro!: yields_bind [where J = client_inv])
next
  case (Application t p)
  with assms client_ops.run_client_J [OF outside_ops [of "E\<lparr>clock := t\<rparr>"]] show ?thesis by simp
next
  case (Read t r')
  with assms show ?thesis by (simp add: c_read_done_inv)
next
  case (Deadline t)
  with assms show ?thesis by (simp add: c_handle_deadline_inv)
next
  case (Ping t aborted)
  with assms show ?thesis by (simp add: handle_ping_inv)
next
  case (Connect t)
  with assms show ?thesis by (simp add: connected_inv)
qed

section \<open>A small instance\<close>

definition quiet_lib :: "nat nghttp2" where
  "quiet_lib = \<lparr>submit_rst_stream = (\<lambda>_ _ n. n), submit_response = (\<lambda>_ _ _ n. (0, n)),
     submit_request = (\<lambda>_ _ _ n. (int (2 * n + 1), n + 1)), lib_submit_trailer = (\<lambda>_ _ n. (0, n)), submit_push_promise = (\<lambda>_ _ n. (2, n)),
     submit_settings = (\<lambda>_ n. n), set_local_window_size = (\<lambda>_ n. n), submit_ping = (\<lambda>n. n), terminate_session = (\<lambda>n. n),
     resume_data = (\<lambda>_ n. n), want_read = (\<lambda>_. True), want_write = (\<lambda>_. True), session_new = (0, 0),
     mem_recv = (\<lambda>bs n. Returned (int (length bs)) [] n), mem_send = (\<lambda>n. Returned 0 [] n)\<rparr>"

definition demo_client_env :: "(nat, unit) client_env" where
  "demo_client_env = \<lparr>c_lib = quiet_lib, client_cbs = (\<lambda>_ _ u. (Client_done, u)), inet_pton = (\<lambda>_ _. 0), clock = 0\<rparr>"

definition demo_session :: "(nat, unit) session_impl" where
  "demo_session = session_impl_new 60 0 ()"

lemma demo_client_facts:
  "client_inv demo_session" "c_chunks_fit demo_client_env" "\<not> c_stopped demo_session" "\<not> c_writing demo_session"
  "client_send demo_client_env c = Inr (0, [], c)" "\<not> c_inside_callback demo_session"
  by (auto simp: demo_session_def session_impl_new_def client_inv_def table_ok_ops c_pending_bytes_def c_chunks_fit_def
      client_send_def demo_client_env_def quiet_lib_def set_c_session_def)

section \<open>Properties\<close>



text \<open>
  A stopped session stays inert: flushing, reading, timers, cancelling, resuming and shutting
  down change nothing, no error is reported any more, and a new request is refused with an error.
\<close>

theorem stopped_session_inert:
  assumes "c_stopped c"
  shows "c_do_write E c = Inr c \<and> c_do_read E c = c \<and> c_stop c = c \<and> handle_ping E aborted c = Inr c \<and>
    c_cancel dw E sid ec c = Inr c \<and> c_resume dw E sid c = Inr c \<and> c_shutdown dw E c = Inr c \<and>
    call_error_cb dw E err c = Inr c \<and>
    submit dw E meth uri g hm prio c = Inr (make_error_code 2, None, c)"
  using assms
  by (simp add: c_do_write_def c_do_read_def c_stop_def handle_ping_def c_cancel_def c_resume_def c_shutdown_def
      call_error_cb_def submit_def NGHTTP2_INTERNAL_ERROR_def)

theorem stopped_session_inert_witness:
  "c_do_write demo_client_env (c_stop demo_session) = Inr (c_stop demo_session)"
proof -
  have "c_stopped (c_stop demo_session)" by (simp add: c_stop_def)
  from stopped_session_inert [OF this] show ?thesis by simp
qed

end
