(* ===== verification/Header_Blocks.thy ===== *)
theory Header_Blocks
  imports Server_Response Client_Safety
begin

text \<open>
  Header blocks as the library delivers them: the begin of a frame, its fields one by one, and the end of the
  frame. What the server's handler (\<open>lib/asio_server_http2_handler.cc\<close>) and the client's session
  (\<open>lib/asio_client_session_impl.cc\<close>) make of a block in one call that receives bytes.
\<close>

section \<open>Runs that make a given list of calls\<close>

text \<open>
  A call of the library that makes the callbacks \<open>evs\<close> in this order, whatever session state the callbacks leave, as long
  as they answer zero, and returns \<open>n\<close>.
\<close>

inductive makes :: "int \<Rightarrow> event list \<Rightarrow> 's lib_run \<Rightarrow> bool" for n where
  Ends: "makes n [] (Returned n bs s)"
| Calls: "(\<And>s'. makes n evs (k (Code 0) s')) \<Longrightarrow> makes n (ev # evs) (Callback ev s k)"

inductive_cases makes_NilE: "makes n [] r"
inductive_cases makes_ConsE: "makes n (ev # evs) r"

primrec script :: "int \<Rightarrow> event list \<Rightarrow> 's \<Rightarrow> 's lib_run" where
  "script n [] s = Returned n [] s"
| "script n (ev # evs) s = Callback ev s (\<lambda>_ s'. script n evs s')"

lemma script_makes: "makes n evs (script n evs s)"
  by (induction evs arbitrary: s) (auto intro: makes.intros)

definition header_block :: "nghttp2_frame \<Rightarrow> (string \<times> string \<times> u8) list \<Rightarrow> event list" where
  "header_block fr hs = On_begin_headers fr # map (\<lambda>(name, val, flags). On_header fr name val flags) hs @ [On_frame_recv fr]"

text \<open>After the last call only the state of the library is stored.\<close>

lemma makes_last:
  assumes "makes n [ev] r"
  shows "\<exists>x k d g. r = Callback ev x k \<and> (\<forall>x'. k (Code 0) x' = Returned n (d x') (g x'))"
proof -
  from assms obtain x k where r: "r = Callback ev x k" and "\<forall>x'. makes n [] (k (Code 0) x')" by (auto elim: makes_ConsE)
  then have "\<forall>x'. \<exists>bs s. k (Code 0) x' = Returned n bs s" by (meson makes_NilE)
  then have "\<exists>d g. \<forall>x'. k (Code 0) x' = Returned n (d x') (g x')" by metis
  with r show ?thesis by blast
qed

text \<open>
  The fields of a block, for any object: \<open>st q x\<close> is the object with \<open>q\<close> for what it collects and \<open>x\<close> for the state of the
  library, and every field callback advances \<open>q\<close> by \<open>upd\<close>.
\<close>

lemma run_lib_fields:
  assumes "makes n (map (\<lambda>(name, val, flags). On_header fr name val flags) hs @ evs) r"
    and store: "\<And>q x x'. store x' (st q x) = st q x'" and load: "\<And>q x. load (st q x) = x"
    and step: "\<And>name val flags q x. \<exists>x'. disp (On_header fr name val flags) (st q x) = Inr (Code 0, st (upd name val flags q) x')"
  shows "\<exists>x' r'. makes n evs r' \<and>
    run_lib disp load store r (st q x) = run_lib disp load store r' (st (fold (\<lambda>(name, val, flags) q. upd name val flags q) hs q) x')"
  using assms(1)
proof (induction hs arbitrary: r q x)
  case (Cons f hs)
  obtain name val flags where f: "f = (name, val, flags)" by (cases f) auto
  from Cons.prems obtain x0 k where r: "r = Callback (On_header fr name val flags) x0 k"
    and k: "\<And>x'. makes n (map (\<lambda>(name, val, flags). On_header fr name val flags) hs @ evs) (k (Code 0) x')"
    by (auto simp: f elim: makes_ConsE)
  obtain x1 where "disp (On_header fr name val flags) (st q x0) = Inr (Code 0, st (upd name val flags q) x1)" using step by blast
  then have "run_lib disp load store r (st q x) = run_lib disp load store (k (Code 0) x1) (st (upd name val flags q) x1)"
    by (simp add: r store load)
  with Cons.IH [OF k, of x1 "upd name val flags q" x1] show ?case by (simp add: f)
qed auto

section \<open>The server\<close>

lemma put_stream_session:
  "(put_stream sid s h)\<lparr>session := x\<rparr> = put_stream sid s (h\<lparr>session := x\<rparr>)" "session (put_stream sid s h) = session h"
  by (cases h, simp_all add: put_stream_def)

lemma server_fields:
  assumes "makes n (map (\<lambda>(name, val, flags). On_header fr name val flags) hs @ evs) r"
    "hd_type fr = HEADERS" "headers_cat fr = HCAT_REQUEST"
  shows "\<exists>x' r'. makes n evs r' \<and>
    run_lib (dispatch E) session set_session r (put_stream (hd_stream_id fr) s (h\<lparr>session := x\<rparr>)) =
    run_lib (dispatch E) session set_session r'
      (put_stream (hd_stream_id fr) (s\<lparr>strm_request := recv_headers hs (strm_request s)\<rparr>) (h\<lparr>session := x'\<rparr>))"
proof -
  let ?sid = "hd_stream_id fr"
  let ?st = "\<lambda>q x. put_stream ?sid (s\<lparr>strm_request := q\<rparr>) (h\<lparr>session := x\<rparr>)"
  have "\<exists>x'. dispatch E (On_header fr name val flags) (?st q x) = Inr (Code 0, ?st (fst (recv_header name val flags q)) x')"
    for name val flags q x
    using assms(2,3)
    by (cases "recv_header name val flags q") (auto simp: dispatch_def on_header_callback_def put_stream_session Let_def)
  from run_lib_fields [where st = ?st and store = set_session and load = session and disp = "dispatch E" and q = "strm_request s"
      and upd = "\<lambda>name val flags q. fst (recv_header name val flags q)", OF assms(1) _ _ this]
  show ?thesis by (simp add: put_stream_session set_session_def recv_headers_def)
qed

lemma stream_new_parts [simp]: "strm_request stream_new = request_impl_new" "strm_response stream_new = response_impl_new"
  by (simp_all add: stream_new_def)

lemma put_stream_endpoint: "remote_endpoint (put_stream i s h) = remote_endpoint h"
  by (simp add: put_stream_def)

lemma server_block:
  assumes "makes n (header_block fr hs) (mem_recv (lib E) bytes (session h))" "0 \<le> n" "server_inv h" "\<not> inside_callback h"
    "hd_type fr = HEADERS" "headers_cat fr = HCAT_REQUEST" "find_stream (hd_stream_id fr) h = None"
    "req = (recv_headers hs request_impl_new)\<lparr>remote_ep := remote_endpoint h\<rparr>" "handler req (mux E) = Inr f"
  shows "\<exists>x g. on_read E bytes h =
    bind_f (run_user E (f req (hd_stream_id fr))
        (put_stream (hd_stream_id fr) (stream_new\<lparr>strm_request := req\<rparr>) (h\<lparr>session := x, inside_callback := True\<rparr>))) (\<lambda>h2.
    bind_f (if end_stream fr then call_on_data E (hd_stream_id fr) [] h2 else Inr h2) (\<lambda>h3.
      Inr (0, h3\<lparr>session := g (session h3), inside_callback := False\<rparr>)))"
proof -
  let ?sid = "hd_stream_id fr" and ?r = "mem_recv (lib E) bytes (session h)" and ?h = "set_inside True h"
  from assms(1) obtain x0 k where r: "?r = Callback (On_begin_headers fr) x0 k"
    and k: "\<And>x'. makes n (map (\<lambda>(name, val, flags). On_header fr name val flags) hs @ [On_frame_recv fr]) (k (Code 0) x')"
    by (auto simp: header_block_def elim: makes_ConsE)
  have "run_lib (dispatch E) session set_session ?r ?h =
      run_lib (dispatch E) session set_session (k (Code 0) x0) (put_stream ?sid stream_new (?h\<lparr>session := x0\<rparr>))"
    using assms(5-7)
    by (simp add: r dispatch_def on_begin_headers_callback_def create_stream_put set_session_def set_inside_def)
      (simp add: put_stream_def find_stream_def)
  with server_fields [OF k [of x0] assms(5,6), where E = E and s = stream_new and h = ?h and x = x0] obtain x1 r1 where
    r1: "makes n [On_frame_recv fr] r1" and
    run: "run_lib (dispatch E) session set_session ?r ?h = run_lib (dispatch E) session set_session r1
      (put_stream ?sid (stream_new\<lparr>strm_request := recv_headers hs request_impl_new\<rparr>) (?h\<lparr>session := x1\<rparr>))"
    by auto
  from makes_last [OF r1] obtain x2 k2 d g where r1': "r1 = Callback (On_frame_recv fr) x2 k2"
    and k2: "\<And>x'. k2 (Code 0) x' = Returned n (d x') (g x')" by blast
  let ?h1 = "put_stream ?sid (stream_new\<lparr>strm_request := req\<rparr>) (h\<lparr>session := x2, inside_callback := True\<rparr>)"
  let ?app = "bind_f (run_user E (f req ?sid) ?h1) (\<lambda>h2. if end_stream fr then call_on_data E ?sid [] h2 else Inr h2)"
  have recv: "on_frame_recv_callback E fr (put_stream ?sid (stream_new\<lparr>strm_request := recv_headers hs request_impl_new\<rparr>)
      (h\<lparr>session := x2, inside_callback := True\<rparr>)) = ?app"
    using assms(5,6,9)
    by (simp add: on_frame_recv_callback_def Let_def call_on_request_def put_stream_endpoint flip: assms(8))
  have lib: "run_lib (dispatch E) session set_session ?r ?h =
      bind_f ?app (\<lambda>h3. Inr (n, d (session h3), h3\<lparr>session := g (session h3)\<rparr>))"
  proof -
    have "set_session x2 (put_stream ?sid s (?h\<lparr>session := x1\<rparr>)) = put_stream ?sid s (h\<lparr>session := x2, inside_callback := True\<rparr>)" for s
      by (cases h) (simp add: set_session_def put_stream_def set_inside_def)
    then show ?thesis unfolding run r1' by (simp add: dispatch_def recv bind_f_assoc k2 set_session_def)
  qed
  have "inside_callback h3" if "?app = Inr h3" for h3
    using srv.run_lib_inv [OF server_inside_enter [OF assms(3)] lib [unfolded that bind_f_simps]]
    by (simp add: server_inside_def hview_def)
  then have "on_read E bytes h = bind_f ?app (\<lambda>h3. Inr (0, h3\<lparr>session := g (session h3), inside_callback := False\<rparr>))"
    using assms(2,4) lib by (cases ?app) (simp_all add: on_read_def guarded_def set_inside_def)
  then show ?thesis unfolding bind_f_assoc by blast
qed

section \<open>The client\<close>

definition recv_response_headers :: "(string \<times> string \<times> u8) list \<Rightarrow> c_response \<Rightarrow> c_response" where
  "recv_response_headers hs res = fold (\<lambda>(name, val, flags) r. fst (recv_response_header name val flags r)) hs res"

text \<open>The session inside a callback, with a stream in the table and a state of the library.\<close>

definition inside_with :: "int \<Rightarrow> c_stream \<Rightarrow> 's \<Rightarrow> ('s, 'u) session_impl \<Rightarrow> ('s, 'u) session_impl" where
  "inside_with sid s x c = c\<lparr>c_streams := om_insert sid s (c_streams c), c_session := x, c_inside_callback := True\<rparr>"

lemma inside_with_simps [simp]:
  "set_c_session x' (inside_with sid s x c) = inside_with sid s x' c" "c_session (inside_with sid s x c) = x"
  "find_c_stream i (inside_with sid s x c) = (if i = sid then Some s else find_c_stream i c)"
  "put_c_stream sid s' (inside_with sid s x c) = inside_with sid s' x c"
  by (simp_all add: inside_with_def set_c_session_def find_c_stream_def put_c_stream_def)

lemma reset_inside_with:
  "\<exists>x'. reset_frame_stream E fr ok (inside_with sid s x c) = inside_with sid s x' c"
  by (auto simp: reset_frame_stream_def simp flip: set_c_session_def)

lemma om_insert_same: "om_ok m \<Longrightarrow> om_find k m = Some v \<Longrightarrow> om_insert k v m = m"
  by (induction m) (auto simp: om_find_def split: if_splits dest!: map_of_SomeD, force)

lemma client_fields:
  assumes "makes n (map (\<lambda>(name, val, flags). On_header fr name val flags) hs @ evs) r"
    "hd_type fr = HEADERS" "headers_cat fr \<noteq> HCAT_HEADERS"
  shows "\<exists>x' r'. makes n evs r' \<and>
    run_lib (c_dispatch E) c_session set_c_session r (inside_with (hd_stream_id fr) s x c) =
    run_lib (c_dispatch E) c_session set_c_session r'
      (inside_with (hd_stream_id fr) (s\<lparr>cs_response := recv_response_headers hs (cs_response s)\<rparr>) x' c)"
proof -
  let ?st = "\<lambda>q x. inside_with (hd_stream_id fr) (s\<lparr>cs_response := q\<rparr>) x c"
  have "\<exists>x'. c_dispatch E (On_header fr name val flags) (?st q x) = Inr (Code 0, ?st (fst (recv_response_header name val flags q)) x')"
    for name val flags q x
    using assms(2,3) by (cases "recv_response_header name val flags q") (simp add: c_dispatch_def c_on_header_callback_def, use reset_inside_with in metis)
  from run_lib_fields [where st = ?st and store = set_c_session and load = c_session and disp = "c_dispatch E" and q = "cs_response s"
      and upd = "\<lambda>name val flags q. fst (recv_response_header name val flags q)", OF assms(1) _ _ this]
  show ?thesis by (simp add: recv_response_headers_def)
qed

text \<open>The end of the frame is the last call: the result is what the frame callback does, with the callback flag cleared.\<close>

lemma client_last:
  assumes "run_lib (c_dispatch E) c_session set_c_session (mem_recv (c_lib E) bs (c_session c)) (set_c_inside True c) =
      run_lib (c_dispatch E) c_session set_c_session r (inside_with sid s x c1)"
    "makes (int (length bs)) [On_frame_recv fr] r" "client_inv c"
  shows "\<exists>x g. recv_bytes E bs c = bind_f (c_on_frame_recv_callback E fr (inside_with sid s x c1)) (\<lambda>c3.
    Inr (False, c3\<lparr>c_session := g (c_session c3), c_inside_callback := False\<rparr>))"
proof -
  from makes_last [OF assms(2)] obtain x2 k2 d g where r: "r = Callback (On_frame_recv fr) x2 k2"
    and k2: "\<And>x'. k2 (Code 0) x' = Returned (int (length bs)) (d x') (g x')" by blast
  let ?app = "c_on_frame_recv_callback E fr (inside_with sid s x2 c1)" and ?c = "set_c_inside True c"
  let ?v = "(wbuf c, data_pending c, c_writing c, c_stopped c, c_in_flight c, c_reading c)"
  have lib: "run_lib (c_dispatch E) c_session set_c_session (mem_recv (c_lib E) bs (c_session c)) ?c =
      bind_f ?app (\<lambda>c3. Inr (int (length bs), d (c_session c3), set_c_session (g (c_session c3)) c3))"
    unfolding assms(1) r by (simp add: c_dispatch_def bind_f_assoc k2)
  have inv: "client_inside ?v ?c" using assms(3) by (simp add: client_inside_def cview_def set_c_inside_def client_inv_def)
  have "c_inside_callback c3" if "?app = Inr c3" for c3
    using cli.run_lib_inv [OF inv lib [unfolded that bind_f_simps]]
    by (simp add: client_inside_def cview_def set_c_session_def)
  then have "recv_bytes E bs c = bind_f ?app (\<lambda>c3. Inr (False, c3\<lparr>c_session := g (c_session c3), c_inside_callback := False\<rparr>))"
    using assms(3) lib
    by (cases ?app) (simp_all add: recv_bytes_def guarded_def client_inv_def set_c_inside_def set_c_session_def)
  then show ?thesis by blast
qed

lemma client_block:
  assumes "makes (int (length bs)) (header_block fr hs) (mem_recv (c_lib E) bs (c_session c))" "client_inv c"
    "hd_type fr = HEADERS" "headers_cat fr \<noteq> HCAT_HEADERS" "find_c_stream (hd_stream_id fr) c = Some s"
    "s' = s\<lparr>cs_response := recv_response_headers hs (cs_response s)\<rparr>"
  shows "\<exists>x g. recv_bytes E bs c =
    bind_f (if expect_final_response s' then Inr (inside_with (hd_stream_id fr) s' x c)
      else
        bind_f (run_client_cb no_flush E (cq_response_cb (cs_request s)) (Response_arrived (hd_stream_id fr))
            (inside_with (hd_stream_id fr) s' x c)) (\<lambda>c2.
          if c_end_stream fr then c_call_on_data E (hd_stream_id fr) [] c2 else Inr c2)) (\<lambda>c3.
      Inr (False, c3\<lparr>c_session := g (c_session c3), c_inside_callback := False\<rparr>))"
proof -
  let ?sid = "hd_stream_id fr" and ?r = "mem_recv (c_lib E) bs (c_session c)" and ?c = "set_c_inside True c"
  let ?run = "run_lib (c_dispatch E) c_session set_c_session"
  from assms(1) obtain x0 k where r: "?r = Callback (On_begin_headers fr) x0 k"
    and k: "\<And>x'. makes (int (length bs)) (map (\<lambda>(name, val, flags). On_header fr name val flags) hs @ [On_frame_recv fr]) (k (Code 0) x')"
    by (auto simp: header_block_def elim: makes_ConsE)
  have "om_insert ?sid s (c_streams c) = c_streams c"
    using assms(2,5) by (intro om_insert_same) (auto simp: client_inv_def table_ok_def find_c_stream_def)
  then have "set_c_session x0 ?c = inside_with ?sid s x0 c" by (simp add: inside_with_def set_c_session_def set_c_inside_def)
  then have "?run ?r ?c = ?run (k (Code 0) x0) (inside_with ?sid s x0 c)"
    using assms(3) by (simp add: r c_dispatch_def c_on_begin_headers_callback_def)
  with client_fields [OF k [of x0] assms(3,4), where E = E and s = s and c = c and x = x0] obtain x1 r1 where
    r1: "makes (int (length bs)) [On_frame_recv fr] r1" and run: "?run ?r ?c = ?run r1 (inside_with ?sid s' x1 c)"
    unfolding assms(6) by metis
  have "c_on_frame_recv_callback E fr (inside_with ?sid s' x c) =
      (if expect_final_response s' then Inr (inside_with ?sid s' x c)
       else bind_f (run_client_cb no_flush E (cq_response_cb (cs_request s)) (Response_arrived ?sid) (inside_with ?sid s' x c)) (\<lambda>c2.
         if c_end_stream fr then c_call_on_data E ?sid [] c2 else Inr c2))" for x
    using assms(3,4) by (simp add: c_on_frame_recv_callback_def Let_def) (simp add: assms(6))
  with client_last [OF run r1 assms(2)] show ?thesis by simp
qed

text \<open>A push promise: the promised stream is made, its request collects the fields, and the request's push callback runs.\<close>

definition recv_push_headers :: "(string \<times> string \<times> u8) list \<Rightarrow> c_request \<Rightarrow> c_request" where
  "recv_push_headers hs req = fold (\<lambda>(name, val, flags) r. fst (recv_push_header name val flags r)) hs req"

lemma push_fields:
  assumes "makes n (map (\<lambda>(name, val, flags). On_header fr name val flags) hs @ evs) r" "hd_type fr = PUSH_PROMISE"
  shows "\<exists>x' r'. makes n evs r' \<and>
    run_lib (c_dispatch E) c_session set_c_session r (inside_with (promised_stream_id fr) s x c) =
    run_lib (c_dispatch E) c_session set_c_session r'
      (inside_with (promised_stream_id fr) (s\<lparr>cs_request := recv_push_headers hs (cs_request s)\<rparr>) x' c)"
proof -
  let ?st = "\<lambda>q x. inside_with (promised_stream_id fr) (s\<lparr>cs_request := q\<rparr>) x c"
  have "\<exists>x'. c_dispatch E (On_header fr name val flags) (?st q x) = Inr (Code 0, ?st (fst (recv_push_header name val flags q)) x')"
    for name val flags q x
    using assms(2) by (cases "recv_push_header name val flags q") (simp add: c_dispatch_def c_on_header_callback_def, use reset_inside_with in metis)
  from run_lib_fields [where st = ?st and store = set_c_session and load = c_session and disp = "c_dispatch E" and q = "cs_request s"
      and upd = "\<lambda>name val flags q. fst (recv_push_header name val flags q)", OF assms(1) _ _ this]
  show ?thesis by (simp add: recv_push_headers_def)
qed

lemma push_block:
  assumes "makes (int (length bs)) (header_block fr hs) (mem_recv (c_lib E) bs (c_session c))" "client_inv c"
    "hd_type fr = PUSH_PROMISE" "find_c_stream (hd_stream_id fr) c = Some s" "find_c_stream (promised_stream_id fr) c = None"
    "ps = c_stream_new\<lparr>cs_request := recv_push_headers hs c_request_new\<rparr>"
  shows "\<exists>x g. recv_bytes E bs c =
    bind_f (run_client_cb no_flush E (cq_push_request_cb (cs_request s)) (Pushed_request (promised_stream_id fr))
        (inside_with (promised_stream_id fr) ps x (c\<lparr>ping_at := None\<rparr>))) (\<lambda>c3.
      Inr (False, c3\<lparr>c_session := g (c_session c3), c_inside_callback := False\<rparr>))"
proof -
  let ?pid = "promised_stream_id fr" and ?r = "mem_recv (c_lib E) bs (c_session c)" and ?c = "set_c_inside True c"
  let ?run = "run_lib (c_dispatch E) c_session set_c_session" and ?c1 = "c\<lparr>ping_at := None\<rparr>"
  from assms(1) obtain x0 k where r: "?r = Callback (On_begin_headers fr) x0 k"
    and k: "\<And>x'. makes (int (length bs)) (map (\<lambda>(name, val, flags). On_header fr name val flags) hs @ [On_frame_recv fr]) (k (Code 0) x')"
    by (auto simp: header_block_def elim: makes_ConsE)
  have "create_push_stream ?pid (set_c_session x0 ?c) = Inr (inside_with ?pid c_stream_new x0 ?c1)"
    using assms(5)
    by (cases c) (simp add: create_push_stream_def emplace_stream_def om_emplace_def find_c_stream_def inside_with_def set_c_session_def set_c_inside_def)
  then have "?run ?r ?c = ?run (k (Code 0) x0) (inside_with ?pid c_stream_new x0 ?c1)"
    using assms(3) by (simp add: r c_dispatch_def c_on_begin_headers_callback_def)
  moreover have "cs_request c_stream_new = c_request_new" by (simp add: c_stream_new_def)
  ultimately obtain x1 r1 where
    r1: "makes (int (length bs)) [On_frame_recv fr] r1" and run: "?run ?r ?c = ?run r1 (inside_with ?pid ps x1 ?c1)"
    using push_fields [OF k [of x0] assms(3), where E = E and s = c_stream_new and c = ?c1 and x = x0] unfolding assms(6) by metis
  have "find_c_stream i ?c1 = find_c_stream i c" for i by (simp add: find_c_stream_def)
  moreover have "hd_stream_id fr \<noteq> ?pid" using assms(4,5) by auto
  ultimately have "c_on_frame_recv_callback E fr (inside_with ?pid ps x ?c1) =
      run_client_cb no_flush E (cq_push_request_cb (cs_request s)) (Pushed_request ?pid) (inside_with ?pid ps x ?c1)" for x
    using assms(3,4) by (simp add: c_on_frame_recv_callback_def Let_def)
  with client_last [OF run r1 assms(2)] show ?thesis by simp
qed

section \<open>A small instance\<close>

text \<open>A library that answers received bytes with the given callbacks.\<close>

definition block_lib :: "event list \<Rightarrow> nat nghttp2" where
  "block_lib evs = counting_lib\<lparr>mem_recv := (\<lambda>bs s. script (int (length bs)) evs s)\<rparr>"

lemma block_lib_makes: "makes (int (length bs)) evs (mem_recv (block_lib evs) bs s)"
  by (simp add: block_lib_def script_makes)

end
