(* ===== verification/Stream_Close.thy ===== *)
theory Stream_Close
  imports Header_Blocks
begin

text \<open>
  The end of a stream on both sides (\<open>on_stream_close_callback\<close> of \<open>lib/asio_server_http2_handler.cc\<close> and
  \<open>lib/asio_client_session_impl.cc\<close>), callbacks for streams that are not in the table, and the limit on the
  fields of a push promise.
\<close>

section \<open>Callbacks that concern a stream\<close>

text \<open>The stream a callback of the library looks up, if any.\<close>

fun concerns :: "int \<Rightarrow> event \<Rightarrow> bool" where
  "concerns sid (On_header fr name val flags) = ((if hd_type fr = PUSH_PROMISE then promised_stream_id fr else hd_stream_id fr) = sid)"
| "concerns sid (On_frame_recv fr) = (hd_stream_id fr = sid)"
| "concerns sid (On_data_chunk_recv i data) = (i = sid)"
| "concerns sid (On_stream_close i ec) = (i = sid)"
| "concerns sid (On_frame_send fr) = (hd_type fr = PUSH_PROMISE \<and> promised_stream_id fr = sid)"
| "concerns sid ev = False"

lemma server_unknown_stream:
  assumes "find_stream sid h = None" "concerns sid ev"
  shows "dispatch E ev h = Inr (Code 0, h)"
  using assms
  by (cases ev) (auto simp: dispatch_def on_header_callback_def on_frame_recv_callback_def on_data_chunk_recv_callback_def
      on_stream_close_callback_def on_frame_send_callback_def Let_def split: if_splits)

lemma client_unknown_stream:
  assumes "find_c_stream sid c = None" "concerns sid ev"
  shows "c_dispatch E ev c = Inr (Code 0, c)"
proof (cases ev)
  case (On_stream_close i ec)
  with assms have "pop_stream E sid c = (None, c)" by (simp add: pop_stream_def find_c_stream_def)
  with On_stream_close assms(2) show ?thesis by (simp add: c_dispatch_def c_on_stream_close_callback_def)
qed (use assms in \<open>auto simp: c_dispatch_def c_on_header_callback_def c_on_frame_recv_callback_def c_on_data_chunk_recv_callback_def
      Let_def split: if_splits frame_type.split\<close>)

lemma find_close_stream: "find_stream sid (close_stream sid h) = None"
  by (simp add: find_stream_def close_stream_def)

section \<open>Properties\<close>



text \<open>
  C28: the client ignores everything the library reports about a stream that is not in its table (one that was never
  opened, or was closed): header fields and the end of header blocks, data, push promise fields for an unknown
  promised stream, and a second close leave the session as it is and run no application code.
\<close>

theorem client_ignores_unknown_streams:
  assumes "find_c_stream sid c = None" "\<forall>ev \<in> set evs. concerns sid ev"
  shows "foldl (\<lambda>m ev. bind_f m (\<lambda>c. bind_f (c_dispatch E ev c) (\<lambda>(a, c). Inr c))) (Inr c) evs = Inr c"
  using assms(2) by (induction evs) (simp_all add: client_unknown_stream [OF assms(1)])

theorem client_ignores_unknown_streams_witness:
  "bind_f (c_dispatch demo_client_env (On_stream_close 1 7) demo_session) (\<lambda>(a, c). Inr c) = Inr demo_session"
proof -
  have "find_c_stream 1 demo_session = None" by (simp add: find_c_stream_def demo_session_def session_impl_new_def)
  from client_ignores_unknown_streams [OF this, of "[On_stream_close 1 7]"] show ?thesis by simp
qed

text \<open>
  C37: when the fields of a push promise exceed 64 KiB, the client resets the stream the promise arrived on, that is its own
  request, and not the promised stream: the promised stream stays in the table as it is, without the field, and no reset
  is submitted for it.
\<close>

theorem push_limit_resets_request:
  assumes "hd_type fr = PUSH_PROMISE" "find_c_stream (promised_stream_id fr) c = Some s" "om_ok (c_streams c)"
    "lookup_token name \<notin> {Some HD__METHOD, Some HD__SCHEME, Some HD__PATH, Some HD__AUTHORITY, Some HD_HOST}"
    "65536 < cq_header_buffer_size (cs_request s) + length name + length val"
  shows "c_on_header_callback E fr name val flags c =
    Inr (c\<lparr>c_session := submit_rst_stream (c_lib E) (hd_stream_id fr) NGHTTP2_INTERNAL_ERROR (c_session c)\<rparr>)"
proof -
  have "recv_push_header name val flags (cs_request s) = (cs_request s, False)"
    using assms(4,5) by (auto simp: recv_push_header_def Let_def split: option.split hd_token.split)
  moreover have "put_c_stream (promised_stream_id fr) s c = c"
    using assms(2,3) by (simp add: put_c_stream_def find_c_stream_def om_insert_same)
  ultimately show ?thesis
    using assms(1,2) by (simp add: c_on_header_callback_def reset_frame_stream_def)
qed

definition full_push :: c_stream where
  "full_push = c_stream_new\<lparr>cs_request := c_request_new\<lparr>cq_header_buffer_size := 65536\<rparr>\<rparr>"

theorem push_limit_resets_request_witness:
  "let fr = \<lparr>hd_type = PUSH_PROMISE, hd_stream_id = 1, hd_flags = 0, headers_cat = HCAT_REQUEST, promised_stream_id = 2\<rparr>;
       E = demo_client_env\<lparr>c_lib := quiet_lib\<lparr>submit_rst_stream := (\<lambda>sid _ _. nat sid)\<rparr>\<rparr>
   in c_on_header_callback E fr ''accept'' ''x'' 0 (demo_session\<lparr>c_streams := [(2, full_push)]\<rparr>) =
        Inr (demo_session\<lparr>c_streams := [(2, full_push)], c_session := 1\<rparr>)"
proof -
  let ?c = "demo_session\<lparr>c_streams := [(2, full_push)]\<rparr>"
  let ?fr = "\<lparr>hd_type = PUSH_PROMISE, hd_stream_id = 1, hd_flags = 0, headers_cat = HCAT_REQUEST, promised_stream_id = 2\<rparr>"
  have n: "lookup_token ''accept'' \<notin> {Some HD__METHOD, Some HD__SCHEME, Some HD__PATH, Some HD__AUTHORITY, Some HD_HOST}"
    by (simp add: lookup_token_iff)
  have s: "find_c_stream (promised_stream_id ?fr) ?c = Some full_push" "om_ok (c_streams ?c)"
    "65536 < cq_header_buffer_size (cs_request full_push) + length ''accept'' + length ''x''"
    by (simp_all add: find_c_stream_def om_find_def full_push_def)
  show ?thesis
    unfolding Let_def using push_limit_resets_request [OF _ s(1,2) n s(3)] by simp
qed

end
