(* ===== verification/Client_Connect.thy ===== *)
theory Client_Connect
  imports Client_Safety
begin

text \<open>
  \<open>lib/asio_client_session.cc\<close>, \<open>lib/asio_client_session_tcp_impl.*\<close> and \<open>lib/asio_client_session_tls_impl.*\<close>:
  a client session from its construction to the established connection, over TCP and over TLS. Name
  resolution, connecting and the handshake are outstanding operations; their results are events.
\<close>

section \<open>State\<close>

datatype transport = Tcp | Tls

text \<open>
  What a session waits for: the resolver, the connection to one of the endpoints, the TLS handshake with
  an endpoint; \<open>Established\<close> when \<open>connected\<close> ran, \<open>Gave_up\<close> when the attempt is over without it.
\<close>

datatype 'ep connect_phase = Resolving | Connecting "'ep list" | Tls_handshake 'ep | Established 'ep | Gave_up

text \<open>\<open>cn_proto\<close> is the protocol the TLS library reported when the handshake completed.\<close>

record ('s, 'u, 'ep) connecting =
  cn_phase :: "'ep connect_phase"
  cn_proto :: "string option"
  cn_session :: "('s, 'u) session_impl"

section \<open>Operations\<close>

text \<open>The constructors of the facade: make the session of the transport and start resolving; 60 seconds by default.\<close>

definition session_new_timeout :: "('s, 'u) client_env \<Rightarrow> int \<Rightarrow> 's \<Rightarrow> 'u \<Rightarrow> ('s, 'u, 'ep) connecting" where
  "session_new_timeout E timeout null_session u =
     \<lparr>cn_phase = Resolving, cn_proto = None, cn_session = start_resolve E (session_impl_new timeout null_session u)\<rparr>"

definition session_new_default :: "('s, 'u) client_env \<Rightarrow> 's \<Rightarrow> 'u \<Rightarrow> ('s, 'u, 'ep) connecting" where
  "session_new_default E = session_new_timeout E 60"

text \<open>
  The constructors with a local endpoint open the socket, set \<open>reuse_address\<close> and bind; each of the three throws its error
  code, and then there is no session.
\<close>

record 'lep local_socket =
  sock_open :: "'lep \<Rightarrow> error_code"
  sock_reuse_address :: "'lep \<Rightarrow> error_code"
  sock_bind :: "'lep \<Rightarrow> error_code"

definition bind_local :: "'lep local_socket \<Rightarrow> 'lep \<Rightarrow> error_code option" where
  "bind_local L ep =
     (if ec_failed (sock_open L ep) then Some (sock_open L ep)
      else if ec_failed (sock_reuse_address L ep) then Some (sock_reuse_address L ep)
      else if ec_failed (sock_bind L ep) then Some (sock_bind L ep)
      else None)"

definition session_new_local_timeout ::
    "('s, 'u) client_env \<Rightarrow> 'lep local_socket \<Rightarrow> 'lep \<Rightarrow> int \<Rightarrow> 's \<Rightarrow> 'u \<Rightarrow> error_code + ('s, 'u, 'ep) connecting" where
  "session_new_local_timeout E L ep timeout null_session u =
     (case bind_local L ep of Some ec \<Rightarrow> Inl ec | None \<Rightarrow> Inr (session_new_timeout E timeout null_session u))"

definition session_new_local ::
    "('s, 'u) client_env \<Rightarrow> 'lep local_socket \<Rightarrow> 'lep \<Rightarrow> 's \<Rightarrow> 'u \<Rightarrow> error_code + ('s, 'u, 'ep) connecting" where
  "session_new_local E L ep = session_new_local_timeout E L ep 60"

definition on_connect :: "client_cb option \<Rightarrow> ('s, 'u) session_impl \<Rightarrow> ('s, 'u) session_impl" where
  "on_connect f c = c\<lparr>connect_cb := f\<rparr>"

definition on_error :: "client_cb option \<Rightarrow> ('s, 'u) session_impl \<Rightarrow> ('s, 'u) session_impl" where
  "on_error f c = c\<lparr>error_cb := f\<rparr>"

definition set_read_timeout :: "int \<Rightarrow> ('s, 'u) session_impl \<Rightarrow> ('s, 'u) session_impl" where
  "set_read_timeout t c = c\<lparr>c_read_timeout := t\<rparr>"

text \<open>Over TCP only the first endpoint is tried, over TLS all of them in turn.\<close>

definition start_connect :: "transport \<Rightarrow> 'ep list \<Rightarrow> ('s, 'u, 'ep) connecting \<Rightarrow> ('s, 'u, 'ep) connecting" where
  "start_connect tr eps k = k\<lparr>cn_phase := Connecting (case tr of Tcp \<Rightarrow> take 1 eps | Tls \<Rightarrow> eps)\<rparr>"

definition fail_connect ::
    "('s, 'u) client_env \<Rightarrow> error_code \<Rightarrow> ('s, 'u, 'ep) connecting \<Rightarrow> fault + ('s, 'u, 'ep) connecting" where
  "fail_connect E ec k = bind_f (not_connected E ec (cn_session k)) (\<lambda>c. Inr (k\<lparr>cn_phase := Gave_up, cn_session := c\<rparr>))"

definition establish ::
    "('s, 'u) client_env \<Rightarrow> 'ep \<Rightarrow> ('s, 'u, 'ep) connecting \<Rightarrow> fault + ('s, 'u, 'ep) connecting" where
  "establish E ep k = bind_f (connected E (cn_session k)) (\<lambda>c. Inr (k\<lparr>cn_phase := Established ep, cn_session := c\<rparr>))"

definition resolve_done ::
    "('s, 'u) client_env \<Rightarrow> transport \<Rightarrow> error_code + 'ep list \<Rightarrow> ('s, 'u, 'ep) connecting \<Rightarrow> fault + ('s, 'u, 'ep) connecting" where
  "resolve_done E tr r k = (case r of Inl ec \<Rightarrow> fail_connect E ec k | Inr eps \<Rightarrow> Inr (start_connect tr eps k))"

definition connect_done ::
    "('s, 'u) client_env \<Rightarrow> transport \<Rightarrow> error_code + 'ep \<Rightarrow> ('s, 'u, 'ep) connecting \<Rightarrow> fault + ('s, 'u, 'ep) connecting" where
  "connect_done E tr r k =
     (if c_stopped (cn_session k) then Inr (k\<lparr>cn_phase := Gave_up\<rparr>)
      else case r of
        Inl ec \<Rightarrow> fail_connect E ec k
      | Inr ep \<Rightarrow> (case tr of Tcp \<Rightarrow> establish E ep k | Tls \<Rightarrow> Inr (k\<lparr>cn_phase := Tls_handshake ep\<rparr>)))"

definition client_handshake_done ::
    "('s, 'u) client_env \<Rightarrow> 'ep \<Rightarrow> error_code + (string option \<times> string option) \<Rightarrow> ('s, 'u, 'ep) connecting
     \<Rightarrow> fault + ('s, 'u, 'ep) connecting" where
  "client_handshake_done E ep r k =
     (if c_stopped (cn_session k) then Inr (k\<lparr>cn_phase := Gave_up\<rparr>)
      else case r of
        Inl ec \<Rightarrow> fail_connect E ec k
      | Inr (npn, alpn) \<Rightarrow>
          (let k = k\<lparr>cn_proto := (case npn of Some p \<Rightarrow> Some p | None \<Rightarrow> alpn)\<rparr> in
           if \<not> tls_h2_negotiated npn alpn
           then fail_connect E (make_asio_error_code NGHTTP2_ASIO_ERR_TLS_NO_APP_PROTO_NEGOTIATED) k
           else establish E ep k))"

section \<open>Events\<close>

definition on_session ::
    "(('s, 'u) session_impl \<Rightarrow> fault + ('s, 'u) session_impl) \<Rightarrow> ('s, 'u, 'ep) connecting \<Rightarrow> fault + ('s, 'u, 'ep) connecting" where
  "on_session f k = bind_f (f (cn_session k)) (\<lambda>c. Inr (k\<lparr>cn_session := c\<rparr>))"

definition is_established :: "('s, 'u, 'ep) connecting \<Rightarrow> bool" where
  "is_established k \<longleftrightarrow> (case cn_phase k of Established _ \<Rightarrow> True | _ \<Rightarrow> False)"

text \<open>
  The application may set its callbacks and timeouts at any time; its other calls need the library's session,
  which exists once the connection is established, and do nothing harmful once the session is stopped.
\<close>

inductive connect_step ::
    "('s, 'u) client_env \<Rightarrow> transport \<Rightarrow> ('s, 'u, 'ep) connecting \<Rightarrow> fault + ('s, 'u, 'ep) connecting \<Rightarrow> bool" for E tr where
  Resolved: "cn_phase k = Resolving \<Longrightarrow> connect_step E tr k (resolve_done (E\<lparr>clock := t\<rparr>) tr r k)"
| Connect_done: "cn_phase k = Connecting eps \<Longrightarrow> (\<And>ep. r = Inr ep \<Longrightarrow> ep \<in> set eps) \<Longrightarrow>
    connect_step E tr k (connect_done (E\<lparr>clock := t\<rparr>) tr r k)"
| Handshake: "cn_phase k = Tls_handshake ep \<Longrightarrow> connect_step E tr k (client_handshake_done (E\<lparr>clock := t\<rparr>) ep r k)"
| Configure_connect: "connect_step E tr k (on_session (\<lambda>c. Inr (on_connect f c)) k)"
| Configure_error: "connect_step E tr k (on_session (\<lambda>c. Inr (on_error f c)) k)"
| Configure_timeout: "connect_step E tr k (on_session (\<lambda>c. Inr (set_read_timeout d c)) k)"
| Deadline: "c_waiting (cn_session k) \<Longrightarrow> connect_step E tr k (on_session (c_handle_deadline (E\<lparr>clock := t\<rparr>)) k)"
| Ping: "aborted \<or> ping_at (cn_session k) \<noteq> None \<Longrightarrow> connect_step E tr k (on_session (handle_ping (E\<lparr>clock := t\<rparr>) aborted) k)"
| Read: "c_reading (cn_session k) \<Longrightarrow> connect_step E tr k (on_session (c_read_done (E\<lparr>clock := t\<rparr>) rd) k)"
| Written: "c_in_flight (cn_session k) \<noteq> None \<Longrightarrow> connect_step E tr k (on_session (c_write_done (E\<lparr>clock := t\<rparr>) err) k)"
| Application: "is_established k \<or> c_stopped (cn_session k) \<Longrightarrow>
    connect_step E tr k (on_session (run_client (c_do_write (E\<lparr>clock := t\<rparr>)) (E\<lparr>clock := t\<rparr>) p) k)"

inductive connect_reachable ::
    "('s, 'u) client_env \<Rightarrow> transport \<Rightarrow> ('s, 'u, 'ep) connecting \<Rightarrow> ('s, 'u, 'ep) connecting \<Rightarrow> bool" for E tr where
  Constructed: "connect_reachable E tr k k"
| Event: "connect_reachable E tr k k' \<Longrightarrow> connect_step E tr k' (Inr k'') \<Longrightarrow> connect_reachable E tr k k''"

section \<open>Sessions that do not read\<close>

definition idle_session :: "bool \<Rightarrow> ('s, 'u) session_impl \<Rightarrow> bool" where
  "idle_session halted c \<longleftrightarrow> client_inv c \<and> \<not> c_reading c \<and> (halted \<longrightarrow> c_stopped c)"

lemma c_do_write_reading:
  assumes "c_chunks_fit E" "client_inv c" "c_do_write E c = Inr c'"
  shows "c_reading c' = c_reading c"
proof (cases "c_stopped c \<or> c_writing c")
  case False
  let ?c = "c\<lparr>wbuf := c_pending_bytes c, data_pending := None\<rparr>"
  have c: "wbuf c = []" "length (c_pending_bytes c) \<le> wb_size" using assms(2) False by (auto simp: client_inv_def)
  have f: "yields (filled E ?c) (fill_wb E ?c)"
    by (rule fill_wb_ok) (use assms(1,2) c in \<open>auto simp: client_inv_def\<close>)
  show ?thesis
    using assms(3) False f
    by (cases "fill_wb E ?c") (auto simp: c_do_write_idle [OF assms(2)] filled_def c_stop_def split: if_splits)
qed (use assms in \<open>auto simp: c_do_write_def\<close>)

lemma idle_ops:
  assumes "c_chunks_fit E"
  shows "client_ops E (idle_session halted) (c_do_write E)"
proof
  fix c :: "('a, 'b) session_impl"
  assume c: "idle_session halted c"
  show "yields (idle_session halted) (c_do_write E c)"
  proof (cases "c_stopped c")
    case True
    with c show ?thesis by (simp add: c_do_write_def)
  next
    case False
    with c c_do_write_inv [OF assms, of c] c_do_write_reading [OF assms, of c] show ?thesis
      by (cases "c_do_write E c") (auto simp: idle_session_def)
  qed
qed (auto simp: idle_session_def client_inv_def c_pending_bytes_def)

section \<open>Invariant\<close>

definition armed :: "int \<Rightarrow> ('s, 'u) session_impl \<Rightarrow> bool" where
  "armed d c \<longleftrightarrow> c_waiting c \<and> c_expires_at c = Some d \<and> c_in_flight c = None \<and> ping_at c = None \<and> c_streams c = []"

definition connect_ok :: "int \<Rightarrow> transport \<Rightarrow> ('s, 'u, 'ep) connecting \<Rightarrow> bool" where
  "connect_ok d tr k \<longleftrightarrow>
     (if is_established k then client_inv (cn_session k) \<and> (tr = Tls \<longrightarrow> (\<exists>p. cn_proto k = Some p \<and> check_h2_is_selected p))
      else idle_session (cn_phase k = Gave_up) (cn_session k) \<and> (c_stopped (cn_session k) \<or> armed d (cn_session k)))"

lemma established_simps [simp]:
  "cn_phase k = Established ep \<Longrightarrow> is_established k" "cn_phase k = Gave_up \<Longrightarrow> \<not> is_established k"
  "cn_phase k = Resolving \<Longrightarrow> \<not> is_established k" "cn_phase k = Connecting eps \<Longrightarrow> \<not> is_established k"
  "cn_phase k = Tls_handshake ep \<Longrightarrow> \<not> is_established k" "is_established (k\<lparr>cn_session := c\<rparr>) = is_established k"
  "is_established (k\<lparr>cn_proto := q\<rparr>) = is_established k"
  by (simp_all add: is_established_def)

lemma idle_weaken: "idle_session h c \<Longrightarrow> idle_session False c"
  by (simp add: idle_session_def)

lemma stop_idle [simp]: "idle_session h c \<Longrightarrow> idle_session h' (c_stop c)" "c_stopped (c_stop c)"
  using client_inv_stop [of c] by (auto simp: idle_session_def c_stop_def)

lemma fail_connect_ok:
  assumes "c_chunks_fit E" "idle_session h (cn_session k)"
  shows "yields (connect_ok d tr) (fail_connect E ec k)"
  unfolding fail_connect_def not_connected_def bind_f_assoc
  by (rule yields_bind [OF client_ops.call_error_cb_J [OF idle_ops [OF assms(1)] assms(2)]])
    (simp add: connect_ok_def)

lemma establish_ok:
  assumes "c_chunks_fit E" "client_inv (cn_session k)" "tr = Tls \<Longrightarrow> \<exists>p. cn_proto k = Some p \<and> check_h2_is_selected p"
  shows "yields (connect_ok d tr) (establish E ep k)"
  unfolding establish_def
  by (rule yields_bind [OF connected_inv [OF assms(1,2)]]) (use assms(3) in \<open>simp add: connect_ok_def\<close>)

text \<open>An event of the session keeps the invariant of an attempt that is not established if it keeps the session idle.\<close>

lemma on_session_ok:
  assumes "connect_ok d tr k"
    "is_established k \<Longrightarrow> client_inv (cn_session k) \<Longrightarrow> yields client_inv (f (cn_session k))"
    "\<not> is_established k \<Longrightarrow> idle_session (cn_phase k = Gave_up) (cn_session k) \<Longrightarrow>
       c_stopped (cn_session k) \<or> armed d (cn_session k) \<Longrightarrow>
       yields (\<lambda>c. idle_session (cn_phase k = Gave_up) c \<and> (c_stopped c \<or> armed d c)) (f (cn_session k))"
  shows "yields (connect_ok d tr) (on_session f k)"
proof (cases "is_established k")
  case True
  with assms(1) show ?thesis
    unfolding on_session_def by (intro yields_bind [OF assms(2)]) (simp_all add: connect_ok_def)
next
  case False
  with assms(1) show ?thesis
    unfolding on_session_def by (intro yields_bind [OF assms(3)]) (simp_all add: connect_ok_def)
qed

lemma armed_halted: "idle_session h c \<Longrightarrow> c_stopped c \<Longrightarrow> idle_session True c"
  by (simp add: idle_session_def)

lemma connect_ok_client_inv: "connect_ok d tr k \<Longrightarrow> client_inv (cn_session k)"
  by (auto simp: connect_ok_def idle_session_def split: if_splits)

lemma configure_ok:
  assumes "connect_ok d tr k" "\<And>c. client_inv (f c) = client_inv c" "\<And>c. c_reading (f c) = c_reading c"
    "\<And>c. c_stopped (f c) = c_stopped c" "\<And>c. armed d (f c) = armed d c"
  shows "yields (connect_ok d tr) (on_session (\<lambda>c. Inr (f c)) k)"
  by (rule on_session_ok [OF assms(1)]) (use assms(2-5) in \<open>auto simp: idle_session_def\<close>)

lemma deadline_ok:
  assumes "c_chunks_fit E" "idle_session h c" "c_stopped c \<or> armed d c"
  shows "yields (\<lambda>c. idle_session h c \<and> (c_stopped c \<or> armed d c)) (c_handle_deadline E c)"
proof (cases "c_stopped c")
  case True
  with assms(2) show ?thesis by (simp add: c_handle_deadline_def idle_session_def)
next
  case False
  let ?c = "c\<lparr>c_waiting := False\<rparr>"
  have i: "idle_session h ?c" using assms(2) by (simp add: idle_session_def)
  have a: "armed d c" using assms(3) False by simp
  show ?thesis
  proof (cases "d \<le> clock E")
    case True
    have "yields (\<lambda>c. idle_session h c \<and> (c_stopped c \<or> armed d c))
        (bind_f (call_error_cb (c_do_write E) E timed_out ?c) (\<lambda>c. Inr ((c_stop c)\<lparr>c_expires_at := None\<rparr>)))"
      by (rule yields_bind [OF client_ops.call_error_cb_J [OF idle_ops [OF assms(1)] i]])
        (use stop_idle in \<open>fastforce simp: idle_session_def\<close>)
    with True False a show ?thesis by (simp add: c_handle_deadline_def armed_def)
  next
    case F: False
    have "?c\<lparr>c_waiting := True\<rparr> = c" using a by (simp add: armed_def)
    with F False a assms(2) show ?thesis by (auto simp: c_handle_deadline_def armed_def idle_session_def)
  qed
qed

lemma written_ok:
  assumes "idle_session True c"
  shows "yields (idle_session True) (c_write_done E err c)"
  using assms
  by (auto simp: c_write_done_def Let_def call_error_cb_def c_stop_def c_do_write_def idle_session_def client_inv_def c_pending_bytes_def
      split: option.split)

lemma connect_done_ok:
  assumes "c_chunks_fit E" "connect_ok d tr k" "cn_phase k = Connecting eps"
  shows "yields (connect_ok d tr) (connect_done E tr r k)"
proof -
  from assms(2,3) have i: "idle_session False (cn_session k)" "c_stopped (cn_session k) \<or> armed d (cn_session k)"
    by (simp_all add: connect_ok_def)
  with fail_connect_ok [OF assms(1) i(1)] establish_ok [OF assms(1) connect_ok_client_inv [OF assms(2)], of tr] show ?thesis
    by (auto simp: connect_done_def connect_ok_def is_established_def idle_session_def split: sum.split transport.split)
qed

lemma client_handshake_done_ok:
  assumes "c_chunks_fit E" "connect_ok d tr k" "cn_phase k = Tls_handshake ep"
  shows "yields (connect_ok d tr) (client_handshake_done E ep r k)"
proof -
  note inv = connect_ok_client_inv [OF assms(2)]
  from assms(2,3) have i: "idle_session False (cn_session k)" by (simp add: connect_ok_def)
  have est: "yields (connect_ok d tr) (establish E ep (k\<lparr>cn_proto := (case npn of Some p \<Rightarrow> Some p | None \<Rightarrow> alpn)\<rparr>))"
    if "tls_h2_negotiated npn alpn" for npn alpn
    by (rule establish_ok [OF assms(1)]) (use that inv in \<open>auto simp: tls_h2_negotiated_def split: option.splits\<close>)
  have fail: "yields (connect_ok d tr) (fail_connect E ec (k\<lparr>cn_proto := q\<rparr>))" for ec q
    by (rule fail_connect_ok [OF assms(1), of False]) (simp add: i)
  show ?thesis
    using i est fail fail_connect_ok [OF assms(1) i]
    by (auto simp: client_handshake_done_def connect_ok_def idle_session_def Let_def split: sum.split)
qed

text \<open>While an attempt is not established, a write is in flight and the application runs only on a stopped session.\<close>

lemma stopped_event_ok:
  assumes "connect_ok d tr k" "\<not> is_established k \<Longrightarrow> c_stopped (cn_session k) \<or> \<not> armed d (cn_session k)"
    "client_inv (cn_session k) \<Longrightarrow> yields client_inv (f (cn_session k))"
    "idle_session True (cn_session k) \<Longrightarrow> yields (idle_session True) (f (cn_session k))"
  shows "yields (connect_ok d tr) (on_session f k)"
proof (rule on_session_ok [OF assms(1) _])
  assume "\<not> is_established k" "idle_session (cn_phase k = Gave_up) (cn_session k)"
    "c_stopped (cn_session k) \<or> armed d (cn_session k)"
  then have "idle_session True (cn_session k)" using assms(2) by (auto simp: idle_session_def)
  from assms(4) [OF this]
  show "yields (\<lambda>c. idle_session (cn_phase k = Gave_up) c \<and> (c_stopped c \<or> armed d c)) (f (cn_session k))"
    by (cases "f (cn_session k)") (auto simp: idle_session_def)
qed (rule assms(3))

lemma connect_step_ok:
  assumes "c_chunks_fit E" "connect_step E tr k r" "connect_ok d tr k"
  shows "yields (connect_ok d tr) r"
proof -
  have E: "c_chunks_fit (E\<lparr>clock := t\<rparr>)" for t using assms(1) by simp
  note config = on_connect_def on_error_def set_read_timeout_def client_inv_def c_pending_bytes_def armed_def
  show ?thesis
    using assms(2)
  proof cases
    case (Resolved t x)
    then have "idle_session False (cn_session k)" using assms(3) by (simp add: connect_ok_def)
    with Resolved assms(3) fail_connect_ok [OF E this] show ?thesis
      by (auto simp: resolve_done_def start_connect_def connect_ok_def is_established_def split: sum.split)
  next
    case (Connect_done eps x t)
    with connect_done_ok [OF E assms(3)] show ?thesis by simp
  next
    case (Handshake ep t x)
    with client_handshake_done_ok [OF E assms(3)] show ?thesis by simp
  next
    case (Configure_connect f)
    with configure_ok [OF assms(3), of "on_connect f"] show ?thesis by (simp add: config)
  next
    case (Configure_error f)
    with configure_ok [OF assms(3), of "on_error f"] show ?thesis by (simp add: config)
  next
    case (Configure_timeout t)
    with configure_ok [OF assms(3), of "set_read_timeout t"] show ?thesis by (simp add: config)
  next
    case (Deadline t)
    show ?thesis unfolding Deadline
      by (rule on_session_ok [OF assms(3)]) (auto intro: c_handle_deadline_inv [OF E] deadline_ok [OF E])
  next
    case (Ping aborted t)
    show ?thesis unfolding Ping(1)
    proof (rule on_session_ok [OF assms(3)])
      show "yields client_inv (handle_ping (E\<lparr>clock := t\<rparr>) aborted (cn_session k))"
        by (rule handle_ping_inv [OF E connect_ok_client_inv [OF assms(3)]])
    qed (use Ping(2) in \<open>auto simp: handle_ping_def armed_def\<close>)
  next
    case (Read t rd)
    show ?thesis unfolding Read(1)
      by (rule on_session_ok [OF assms(3)]) (use Read(2) in \<open>auto intro: c_read_done_inv [OF E] simp: idle_session_def\<close>)
  next
    case (Written t err)
    show ?thesis unfolding Written(1)
      by (rule stopped_event_ok [OF assms(3)])
        (use Written(2) in \<open>auto intro: c_write_done_inv [OF E] written_ok simp: armed_def\<close>)
  next
    case (Application t p)
    show ?thesis unfolding Application(1)
      by (rule stopped_event_ok [OF assms(3)])
        (use Application(2) in \<open>auto intro: client_ops.run_client_J [OF outside_ops [OF E]] client_ops.run_client_J [OF idle_ops [OF E]]\<close>)
  qed
qed

lemma connect_reachable_ok:
  assumes "connect_reachable E tr k k'" "c_chunks_fit E" "connect_ok d tr k"
  shows "connect_ok d tr k'"
  using assms
proof (induction rule: connect_reachable.induct)
  case (Event k k' k'')
  from connect_step_ok [OF Event.prems(1) Event.hyps(2) Event.IH [OF Event.prems]] show ?case by simp
qed

lemma session_new_ok: "connect_ok (clock E + timeout) tr (session_new_timeout E timeout s u)"
  by (auto simp: connect_ok_def session_new_timeout_def is_established_def idle_session_def start_resolve_def session_impl_new_def
      client_inv_def table_ok_ops c_pending_bytes_def armed_def)

lemma session_new_local_ok:
  "session_new_local_timeout E L ep timeout s u = Inr k \<Longrightarrow> connect_ok (clock E + timeout) tr k"
  by (auto simp: session_new_local_timeout_def session_new_ok split: option.splits)

text \<open>Completions that arrive after the session was stopped leave it as it is.\<close>

lemma stopped_completions:
  assumes "c_stopped (cn_session k)"
  shows "\<exists>k'. resolve_done E tr r k = Inr k' \<and> cn_session k' = cn_session k"
    "\<exists>k'. connect_done E tr r' k = Inr k' \<and> cn_session k' = cn_session k"
    "\<exists>k'. client_handshake_done E ep r'' k = Inr k' \<and> cn_session k' = cn_session k"
  using assms
  by (auto simp: resolve_done_def connect_done_def client_handshake_done_def fail_connect_def not_connected_def call_error_cb_def
      c_stop_def start_connect_def split: sum.split)

section \<open>Properties\<close>

text \<open>
  C19: along every run of a client session from its construction, over TCP and over TLS: no byte is read before
  the connection is established; a TLS session is established only if the handshake negotiated an HTTP/2
  protocol; an attempt that was given up leaves a stopped session; and an attempt that is still going on has its
  deadline armed at the connect timeout after construction, so it cannot hang.
\<close>

theorem client_connects_safely:
  assumes "c_chunks_fit E" "connect_reachable E tr (session_new_timeout E timeout s u) k"
  shows "(\<not> is_established k \<longrightarrow> \<not> c_reading (cn_session k)) \<and>
    (is_established k \<and> tr = Tls \<longrightarrow> (\<exists>p. cn_proto k = Some p \<and> check_h2_is_selected p)) \<and>
    (cn_phase k = Gave_up \<longrightarrow> c_stopped (cn_session k)) \<and>
    (\<not> is_established k \<and> \<not> c_stopped (cn_session k) \<longrightarrow>
       c_waiting (cn_session k) \<and> c_expires_at (cn_session k) = Some (clock E + timeout))"
  using connect_reachable_ok [OF assms(2,1) session_new_ok]
  by (auto simp: connect_ok_def idle_session_def armed_def split: if_splits)

theorem client_connects_safely_witness:
  "\<exists>k :: (nat, unit, nat) connecting. cn_phase k = Tls_handshake 7 \<and> \<not> c_reading (cn_session k) \<and>
     c_waiting (cn_session k) \<and> c_expires_at (cn_session k) = Some 60"
proof -
  let ?k = "session_new_timeout demo_client_env 60 0 () :: (nat, unit, nat) connecting"
  let ?k1 = "?k\<lparr>cn_phase := Connecting [7]\<rparr>" and ?k2 = "?k\<lparr>cn_phase := Tls_handshake 7\<rparr>"
  have "connect_step demo_client_env Tls ?k (Inr ?k1)"
    using connect_step.Resolved [of ?k demo_client_env Tls 0 "Inr [7]"]
    by (simp add: resolve_done_def start_connect_def session_new_timeout_def)
  moreover have "connect_step demo_client_env Tls ?k1 (Inr ?k2)"
    using connect_step.Connect_done [of ?k1 "[7]" "Inr 7" demo_client_env Tls 0]
    by (simp add: connect_done_def session_new_timeout_def start_resolve_def session_impl_new_def)
  ultimately have "connect_reachable demo_client_env Tls ?k ?k2"
    by (blast intro: connect_reachable.intros)
  from client_connects_safely [OF demo_client_facts(2) this] show ?thesis
    by (intro exI [of _ ?k2]) (simp add: is_established_def session_new_timeout_def start_resolve_def session_impl_new_def demo_client_env_def)
qed

text \<open>
  C20: when the deadline of an unfinished attempt passes, the error callback is told that the attempt timed
  out and, unless the application's callback faults, the session is stopped; whatever the resolver, the
  connection or the handshake report afterwards does not touch the session any more.
\<close>

theorem connect_attempt_times_out:
  assumes "connect_reachable E tr (session_new_timeout E timeout s u) k" "c_chunks_fit E"
    "\<not> is_established k" "\<not> c_stopped (cn_session k)" "clock E + timeout \<le> t"
  shows "on_session (c_handle_deadline (E\<lparr>clock := t\<rparr>)) k =
      bind_f (call_error_cb (c_do_write (E\<lparr>clock := t\<rparr>)) (E\<lparr>clock := t\<rparr>) timed_out ((cn_session k)\<lparr>c_waiting := False\<rparr>))
        (\<lambda>c. Inr (k\<lparr>cn_session := (c_stop c)\<lparr>c_expires_at := None\<rparr>\<rparr>)) \<and>
    (\<forall>k'. on_session (c_handle_deadline (E\<lparr>clock := t\<rparr>)) k = Inr k' \<longrightarrow>
      c_stopped (cn_session k') \<and>
      (\<exists>k''. resolve_done E' tr r k' = Inr k'' \<and> cn_session k'' = cn_session k') \<and>
      (\<exists>k''. connect_done E' tr r' k' = Inr k'' \<and> cn_session k'' = cn_session k') \<and>
      (\<exists>k''. client_handshake_done E' ep r'' k' = Inr k'' \<and> cn_session k'' = cn_session k'))"
proof -
  from connect_reachable_ok [OF assms(1,2) session_new_ok] assms(3,4)
  have "c_expires_at (cn_session k) = Some (clock E + timeout)" by (simp add: connect_ok_def armed_def)
  with assms(4,5) have eq: "on_session (c_handle_deadline (E\<lparr>clock := t\<rparr>)) k =
      bind_f (call_error_cb (c_do_write (E\<lparr>clock := t\<rparr>)) (E\<lparr>clock := t\<rparr>) timed_out ((cn_session k)\<lparr>c_waiting := False\<rparr>))
        (\<lambda>c. Inr (k\<lparr>cn_session := (c_stop c)\<lparr>c_expires_at := None\<rparr>\<rparr>))"
    by (simp add: on_session_def c_handle_deadline_def bind_f_assoc)
  have "c_stopped (cn_session k')" if "on_session (c_handle_deadline (E\<lparr>clock := t\<rparr>)) k = Inr k'" for k'
    using that unfolding eq by (auto simp: bind_f_def c_stop_def split: sum.splits)
  with eq show ?thesis by (intro conjI allI impI stopped_completions) simp_all
qed

theorem connect_attempt_times_out_witness:
  "\<exists>k' :: (nat, unit, nat) connecting.
     on_session (c_handle_deadline (demo_client_env\<lparr>clock := 61\<rparr>)) (session_new_timeout demo_client_env 60 0 ()) = Inr k' \<and>
     c_stopped (cn_session k')"
proof -
  let ?k = "session_new_timeout demo_client_env 60 0 () :: (nat, unit, nat) connecting"
  have k: "\<not> is_established ?k" "\<not> c_stopped (cn_session ?k)" "clock demo_client_env + 60 \<le> 61"
    by (simp_all add: is_established_def session_new_timeout_def start_resolve_def session_impl_new_def demo_client_env_def)
  note r = connect_attempt_times_out [OF connect_reachable.Constructed demo_client_facts(2) k]
  have "\<exists>k'. on_session (c_handle_deadline (demo_client_env\<lparr>clock := 61\<rparr>)) ?k = Inr k'"
    using r by (simp add: call_error_cb_def run_client_cb_def session_new_timeout_def start_resolve_def session_impl_new_def)
  then show ?thesis using r by blast
qed

end
