(* ===== verification/Client_Log.thy ===== *)
theory Client_Log
  imports Client_Safety "HOL-Library.Sublist"
begin

text \<open>
  The output of a client session over a whole run (\<open>do_write\<close>, the completion of the write and everything that flushes in
  \<open>lib/asio_client_session_impl.cc\<close>). A flush can happen inside of any call of the application, so the bytes the library hands out
  are observed at the library: \<open>logged L\<close> is the library \<open>L\<close> with a ghost log of the bytes its \<open>mem_send\<close> returned. What the
  proofs need of the log is the locale \<open>byte_log\<close>.
\<close>

section \<open>A library with a log\<close>

text \<open>A run of the library adds \<open>g n bs\<close> to the log \<open>w\<close> when it returns \<open>n\<close> and \<open>bs\<close>, and nothing before.\<close>

inductive log_run :: "('s \<Rightarrow> string) \<Rightarrow> (int \<Rightarrow> string \<Rightarrow> string) \<Rightarrow> string \<Rightarrow> 's lib_run \<Rightarrow> bool" for sent g w where
  Log_returned: "sent s = w @ g n bs \<Longrightarrow> log_run sent g w (Returned n bs s)"
| Log_callback: "sent s = w \<Longrightarrow> (\<And>a s'. sent s' = w \<Longrightarrow> log_run sent g w (k a s')) \<Longrightarrow> log_run sent g w (Callback ev s k)"

definition sent_bytes :: "int \<Rightarrow> string \<Rightarrow> string" where
  "sent_bytes n bs = (if n < 0 then [] else bs)"

definition no_bytes :: "int \<Rightarrow> string \<Rightarrow> string" where
  "no_bytes n bs = []"

locale byte_log =
  fixes L :: "'s nghttp2" and sent :: "'s \<Rightarrow> string"
  assumes log_submits: "lib_submits L s s' \<Longrightarrow> sent s' = sent s"
    and log_recv: "log_run sent no_bytes (sent s) (mem_recv L bs s)"
    and log_send: "log_run sent sent_bytes (sent s) (mem_send L s)"
    and log_new: "sent (snd (session_new L)) = []"
    and log_settings: "sent (submit_settings L ivs s) = sent s"
    and log_window: "sent (set_local_window_size L n s) = sent s"

text \<open>The log beside the state of the library; callbacks may change the state.\<close>

primrec log_tree :: "(int \<Rightarrow> string \<Rightarrow> string) \<Rightarrow> 's lib_run \<Rightarrow> string \<Rightarrow> ('s \<times> string) lib_run" where
  "log_tree g (Returned n bs s) w = Returned n bs (s, w @ g n bs)"
| "log_tree g (Callback ev s k) w = Callback ev (s, w) (\<lambda>a p. log_tree g (k a (fst p)) (snd p))"

definition logged :: "'s nghttp2 \<Rightarrow> ('s \<times> string) nghttp2" where
  "logged L = \<lparr>submit_rst_stream = (\<lambda>sid ec (s, w). (submit_rst_stream L sid ec s, w)),
     submit_response = (\<lambda>sid nva body (s, w). map_prod id (\<lambda>s. (s, w)) (submit_response L sid nva body s)),
     submit_request = (\<lambda>prio nva body (s, w). map_prod id (\<lambda>s. (s, w)) (submit_request L prio nva body s)),
     lib_submit_trailer = (\<lambda>sid nva (s, w). map_prod id (\<lambda>s. (s, w)) (lib_submit_trailer L sid nva s)),
     submit_push_promise = (\<lambda>sid nva (s, w). map_prod id (\<lambda>s. (s, w)) (submit_push_promise L sid nva s)),
     submit_settings = (\<lambda>ivs (s, w). (submit_settings L ivs s, w)),
     set_local_window_size = (\<lambda>n (s, w). (set_local_window_size L n s, w)),
     submit_ping = (\<lambda>(s, w). (submit_ping L s, w)), terminate_session = (\<lambda>(s, w). (terminate_session L s, w)),
     resume_data = (\<lambda>sid (s, w). (resume_data L sid s, w)),
     want_read = (\<lambda>(s, w). want_read L s), want_write = (\<lambda>(s, w). want_write L s),
     session_new = map_prod id (\<lambda>s. (s, [])) (session_new L),
     mem_recv = (\<lambda>bs (s, w). log_tree no_bytes (mem_recv L bs s) w),
     mem_send = (\<lambda>(s, w). log_tree sent_bytes (mem_send L s) w)\<rparr>"

lemma log_tree_run: "log_run snd g w (log_tree g r w)"
  by (induction r rule: lib_run_induct) (auto intro!: log_run.intros)

interpretation lg: byte_log "logged L" snd for L
proof
  show "snd s' = snd s" if "lib_submits (logged L) s s'" for s s' :: "'a \<times> string"
    using that by cases (auto simp: logged_def split: prod.splits)
qed (auto simp: logged_def log_tree_run split: prod.splits)

section \<open>Runs of the library\<close>

text \<open>Inside a callback: the log is \<open>w\<close>.\<close>

definition log_inside ::
    "('s \<Rightarrow> string) \<Rightarrow> string \<Rightarrow> string \<times> string option \<times> bool \<times> bool \<times> string option \<times> bool \<Rightarrow> ('s, 'u) session_impl \<Rightarrow> bool" where
  "log_inside sent w v c \<longleftrightarrow> client_inside v c \<and> sent (c_session c) = w"

context byte_log
begin

lemma log_callbacks: "c_lib E = L \<Longrightarrow> client_callbacks E (log_inside sent w v)"
  by unfold_locales (auto simp: log_inside_def client_inside_def cview_def log_submits)

lemma run_lib_log:
  assumes "c_lib E = L"
  shows "log_run sent g w r \<Longrightarrow> log_inside sent w' v c \<Longrightarrow>
    run_lib (c_dispatch E) c_session set_c_session r c = Inr (n, bs, c') \<Longrightarrow> log_inside sent (w @ g n bs) v c'"
proof (induction arbitrary: c w' rule: log_run.induct)
  case (Log_returned s n' bs')
  then show ?case by (auto simp: log_inside_def client_inside_def cview_def set_c_session_def)
next
  case (Log_callback s k ev)
  from Log_callback.prems(2) obtain a c1 where d: "c_dispatch E ev (set_c_session s c) = Inr (a, c1)"
    and r: "run_lib (c_dispatch E) c_session set_c_session (k a (c_session c1)) c1 = Inr (n, bs, c')"
    by (auto simp: bind_f_Inr)
  have "log_inside sent w v (set_c_session s c)"
    using Log_callback.prems(1) Log_callback.hyps(1) by (simp add: log_inside_def client_inside_def cview_def set_c_session_def)
  from client_callbacks.c_dispatch_J [OF log_callbacks [OF assms] this, of ev] d have c1: "log_inside sent w v c1" by simp
  then have "sent (c_session c1) = w" by (simp add: log_inside_def)
  from Log_callback.IH [OF this c1 r] show ?case .
qed

lemma client_send_log:
  assumes "c_lib E = L" "log_inside sent w v c" "client_send E c = Inr (n, bs, c')"
  shows "log_inside sent (w @ sent_bytes n bs) v c'"
proof -
  have "log_run sent sent_bytes w (mem_send (c_lib E) (c_session c))"
    using log_send [of "c_session c"] assms(1,2) by (simp add: log_inside_def)
  from run_lib_log [OF assms(1) this assms(2)] assms(3) show ?thesis by (simp add: client_send_def)
qed

lemma fill_loop_log:
  assumes "c_lib E = L"
  shows "log_inside sent w v c \<Longrightarrow> fill_loop (client_send E) N out c = Inr (n, out', p, c') \<Longrightarrow>
    \<exists>new. log_inside sent (w @ new) v c' \<and> out' @ (case p of None \<Rightarrow> [] | Some d \<Rightarrow> d) = out @ new \<and> (n < 0 \<longrightarrow> p = None)"
proof (induction "client_send E" N out c arbitrary: w rule: fill_loop.induct)
  case (1 N out c)
  from "1.prems"(2) obtain m bs c1 where s: "client_send E c = Inr (m, bs, c1)"
    by (subst (asm) fill_loop.simps) (auto split: sum.splits)
  note c1 = client_send_log [OF assms "1.prems"(1) s]
  consider "m < 0 \<or> bs = []" | "0 \<le> m" "bs \<noteq> []" "N < length out + length bs"
    | "0 \<le> m" "bs \<noteq> []" "length out + length bs \<le> N" by linarith
  then show ?case
  proof cases
    case 1
    with c1 "1.prems"(2) show ?thesis
      by (intro exI [of _ "[]"]) (auto simp: fill_loop_cases(2) [of "client_send E" c, OF s] sent_bytes_def)
  next
    case 2
    with c1 "1.prems"(2) show ?thesis
      by (intro exI [of _ bs]) (auto simp: fill_loop_cases(3) [of "client_send E" c, OF s] sent_bytes_def)
  next
    case 3
    with "1.prems"(2) have f: "fill_loop (client_send E) N (out @ bs) c1 = Inr (n, out', p, c')"
      by (simp add: fill_loop_cases(4) [of "client_send E" c, OF s])
    have m: "\<not> m < 0" "\<not> N < length out + length bs" using 3 by simp_all
    from c1 3 have "log_inside sent (w @ bs) v c1" by (simp add: sent_bytes_def)
    from "1.hyps" [OF s refl refl m(1) 3(2) m(2) this f] obtain new where "log_inside sent ((w @ bs) @ new) v c'"
      "out' @ (case p of None \<Rightarrow> [] | Some d \<Rightarrow> d) = (out @ bs) @ new" "n < 0 \<longrightarrow> p = None" by blast
    then show ?thesis by (intro exI [of _ "bs @ new"]) simp
  qed
qed

end

section \<open>Flushing\<close>

text \<open>
  Outside of callbacks: \<open>H\<close> is what the completed writes took. The log is that, the buffer being written and the bytes kept; of a
  stopped session, which may have dropped bytes, it goes on with the buffer.
\<close>

definition out_log :: "('s \<Rightarrow> string) \<Rightarrow> string \<Rightarrow> ('s, 'u) session_impl \<Rightarrow> bool" where
  "out_log sent H c \<longleftrightarrow> client_inv c \<and> prefix (H @ wbuf c) (sent (c_session c)) \<and>
     (\<not> c_stopped c \<longrightarrow> sent (c_session c) = H @ wbuf c @ c_pending_bytes c)"

lemma out_log_frame [simp]:
  "out_log sent H (c\<lparr>c_reading := b\<rparr>) = out_log sent H c" "out_log sent H (c\<lparr>c_expires_at := d\<rparr>) = out_log sent H c"
  "out_log sent H (c\<lparr>c_waiting := b\<rparr>) = out_log sent H c" "out_log sent H (c\<lparr>ping_at := p\<rparr>) = out_log sent H c"
  "out_log sent H (c\<lparr>c_app := u\<rparr>) = out_log sent H c"
  by (simp_all add: out_log_def c_pending_bytes_def)

lemma out_log_stop [simp]: "out_log sent H c \<Longrightarrow> out_log sent H (c_stop c)"
  using client_inv_stop [of c] by (auto simp: out_log_def c_stop_def)

lemma out_log_timers [simp]:
  "out_log sent H c \<Longrightarrow> out_log sent H (c_do_read E c)" "out_log sent H (start_ping E c) = out_log sent H c"
  by (simp_all add: c_do_read_def start_ping_def)

context byte_log
begin

lemma fill_wb_log:
  assumes "c_lib E = L" "table_ok (c_streams c)" "table_ok (held c)" "data_pending c = None" "fill_wb E c = Inr (failed, c')"
  shows "\<exists>new. sent (c_session c') = sent (c_session c) @ new \<and> wbuf c' @ c_pending_bytes c' = wbuf c @ new"
proof -
  let ?v = "(wbuf c, None, c_writing c, c_stopped c, c_in_flight c, c_reading c)" and ?w = "sent (c_session c)"
  have c0: "log_inside sent ?w ?v (set_c_inside True c)"
    using assms(2-4) by (simp add: log_inside_def client_inside_def cview_def set_c_inside_def)
  from assms(5) obtain n out p c1 c2 where f: "fill_loop (client_send E) wb_size (wbuf c) (set_c_inside True c) = Inr (n, out, p, c1)"
    and t: "(if n < 0 then bind_f (call_error_cb no_flush E (make_error_code n) (c1\<lparr>wbuf := out\<rparr>)) (\<lambda>c. Inr (True, c_stop c))
         else Inr (False, case p of Some d \<Rightarrow> c1\<lparr>wbuf := out, data_pending := Some d\<rparr> | None \<Rightarrow> c1\<lparr>wbuf := out\<rparr>)) = Inr (failed, c2)"
    and c': "c' = set_c_inside False c2"
    by (auto simp: fill_wb_def cli_guard.guarded_Inr bind_f_Inr Let_def set_c_inside_def cong: if_cong option.case_cong)
  from fill_loop_log [OF assms(1) c0 f] obtain new where new: "log_inside sent (?w @ new) ?v c1"
    "out @ (case p of None \<Rightarrow> [] | Some d \<Rightarrow> d) = wbuf c @ new" "n < 0 \<longrightarrow> p = None" by blast
  have "sent (c_session c2) = ?w @ new \<and> wbuf c2 @ c_pending_bytes c2 = wbuf c @ new"
  proof (cases "n < 0")
    case False
    with t new show ?thesis by (auto simp: log_inside_def client_inside_def cview_def c_pending_bytes_def split: option.splits)
  next
    case True
    from True t obtain c3 where e: "call_error_cb no_flush E (make_error_code n) (c1\<lparr>wbuf := out\<rparr>) = Inr c3" and c2: "c2 = c_stop c3"
      by (auto simp: bind_f_Inr)
    have "log_inside sent (?w @ new) (out, None, c_writing c, c_stopped c, c_in_flight c, c_reading c) (c1\<lparr>wbuf := out\<rparr>)"
      using new(1) by (simp add: log_inside_def client_inside_def cview_def)
    from client_ops.call_error_cb_J [OF client_callbacks.axioms [OF log_callbacks [OF assms(1)]] this] e
    have "log_inside sent (?w @ new) (out, None, c_writing c, c_stopped c, c_in_flight c, c_reading c) c3" by (metis yields_simps(1))
    with True new(2,3) show ?thesis by (simp add: c2 log_inside_def client_inside_def cview_def c_pending_bytes_def c_stop_def)
  qed
  then show ?thesis by (intro exI [of _ new]) (simp add: c' set_c_inside_def c_pending_bytes_def)
qed

lemma c_do_write_log:
  assumes "c_lib E = L" "c_chunks_fit E" "out_log sent H c"
  shows "yields (out_log sent H) (c_do_write E c)"
proof (cases "c_do_write E c")
  case (Inl e)
  with c_do_write_inv [OF assms(2), of c] assms(3) show ?thesis by (simp add: out_log_def)
next
  case (Inr c')
  have inv: "client_inv c" "client_inv c'" using c_do_write_inv [OF assms(2), of c] assms(3) Inr by (simp_all add: out_log_def)
  show ?thesis
  proof (cases "c_stopped c \<or> c_writing c")
    case True
    with Inr assms(3) show ?thesis by (auto simp: c_do_write_def)
  next
    case False
    let ?c = "c\<lparr>wbuf := c_pending_bytes c, data_pending := None\<rparr>"
    have c: "wbuf c = []" "table_ok (c_streams ?c)" "table_ok (held ?c)" using inv(1) False by (auto simp: client_inv_def)
    note w = c_do_write_idle [OF inv(1), of E]
    obtain failed c2 where f: "fill_wb E ?c = Inr (failed, c2)" using Inr False by (cases "fill_wb E ?c") (auto simp: w)
    then have t: "(if failed then Inr c2 else if wbuf c2 = [] then Inr (if c_should_stop E c2 then c_stop c2 else c2)
            else Inr (c2\<lparr>c_writing := True, c_expires_at := Some (clock E + c_read_timeout c2), c_in_flight := Some (wbuf c2)\<rparr>)) = Inr c'"
      using Inr False by (auto simp: w split: if_splits)
    from fill_wb_log [OF assms(1) c(2,3) _ f] obtain new where
      new: "sent (c_session c2) = sent (c_session c) @ new" "wbuf c2 @ c_pending_bytes c2 = c_pending_bytes c @ new" by auto
    have "wbuf c' = wbuf c2 \<and> c_pending_bytes c' = c_pending_bytes c2 \<and> c_session c' = c_session c2"
      using t by (auto simp: c_pending_bytes_def c_stop_def split: if_splits)
    moreover have "sent (c_session c) = H @ c_pending_bytes c" using assms(3) False c(1) by (simp add: out_log_def)
    ultimately have "sent (c_session c') = H @ wbuf c' @ c_pending_bytes c'" using new by simp
    with inv(2) Inr show ?thesis by (auto simp: out_log_def)
  qed
qed

lemma log_ops:
  fixes E :: "('s, 'u) client_env"
  assumes "c_lib E = L" "c_chunks_fit E"
  shows "client_ops E (out_log sent H) (c_do_write E)"
proof
  fix c :: "('s, 'u) session_impl"
  assume "out_log sent H c"
  then show "yields (out_log sent H) (c_do_write E c)" by (rule c_do_write_log [OF assms])
qed (auto simp: out_log_def client_inv_def c_pending_bytes_def log_submits assms(1))

section \<open>Events\<close>

lemma recv_bytes_log:
  assumes "c_lib E = L" "out_log sent H c"
  shows "yields (\<lambda>(failed, c'). out_log sent H c') (recv_bytes E bs c)"
proof (cases "recv_bytes E bs c")
  case (Inl e)
  with recv_bytes_inv [of c E bs] assms(2) show ?thesis by (simp add: out_log_def)
next
  case (Inr r)
  obtain failed c' where r: "recv_bytes E bs c = Inr (failed, c')" using Inr by (cases r) simp
  let ?v = "(wbuf c, data_pending c, c_writing c, c_stopped c, c_in_flight c, c_reading c)" and ?w = "sent (c_session c)"
  have inv: "client_inv c" "client_inv c'" using recv_bytes_inv [of c E bs] assms(2) r by (simp_all add: out_log_def)
  have c0: "log_inside sent ?w ?v (set_c_inside True c)"
    using inv(1) by (simp add: log_inside_def client_inside_def cview_def set_c_inside_def client_inv_def)
  have lr: "log_run sent no_bytes ?w (mem_recv (c_lib E) bs (c_session (set_c_inside True c)))"
    using log_recv [of "c_session c" bs] assms(1) by (simp add: set_c_inside_def)
  from r obtain n d c1 c2 where
    run: "run_lib (c_dispatch E) c_session set_c_session (mem_recv (c_lib E) bs (c_session (set_c_inside True c))) (set_c_inside True c) = Inr (n, d, c1)"
    and t: "(if n \<noteq> int (length bs) then
           bind_f (call_error_cb no_flush E (make_error_code (if n < 0 then n else NGHTTP2_ERR_PROTO)) c1) (\<lambda>c. Inr (True, c_stop c))
         else Inr (False, c1)) = Inr (failed, c2)"
    and c': "c' = set_c_inside False c2"
    by (auto simp: recv_bytes_def cli_guard.guarded_Inr bind_f_Inr)
  have c1: "log_inside sent ?w ?v c1" using run_lib_log [OF assms(1) lr c0 run] by (simp add: no_bytes_def)
  have "\<exists>c3. log_inside sent ?w ?v c3 \<and> (c2 = c3 \<or> c2 = c_stop c3)"
  proof (cases "n = int (length bs)")
    case True
    with t c1 show ?thesis by auto
  next
    case False
    with t obtain c3 where e: "call_error_cb no_flush E (make_error_code (if n < 0 then n else NGHTTP2_ERR_PROTO)) c1 = Inr c3"
      and c2: "c2 = c_stop c3" by (auto simp: bind_f_Inr)
    from client_ops.call_error_cb_J [OF client_callbacks.axioms [OF log_callbacks [OF assms(1)]] c1] e
    have "log_inside sent ?w ?v c3" by (metis yields_simps(1))
    with c2 show ?thesis by blast
  qed
  then have "wbuf c' = wbuf c \<and> c_pending_bytes c' = c_pending_bytes c \<and> sent (c_session c') = ?w \<and> (c_stopped c \<longrightarrow> c_stopped c')"
    by (auto simp: c' log_inside_def client_inside_def cview_def set_c_inside_def c_stop_def c_pending_bytes_def)
  with inv(2) assms(2) r show ?thesis by (auto simp: out_log_def)
qed

lemma c_read_done_log:
  assumes "c_lib E = L" "c_chunks_fit E" "out_log sent H c"
  shows "yields (out_log sent H) (c_read_done E r c)"
proof (cases r)
  case (Inl ec)
  with assms client_ops.call_error_cb_J [OF log_ops [OF assms(1,2)]] show ?thesis
    by (auto simp: c_read_done_def Let_def intro!: yields_bind [where J = "out_log sent H"])
next
  case (Inr bs)
  have "yields (out_log sent H) (bind_f (recv_bytes E bs (c\<lparr>c_reading := False\<rparr>)) (\<lambda>(failed, c).
            if failed then Inr c
            else
              bind_f (c_do_write E c) (\<lambda>c.
                if c_should_stop E c then Inr (c_stop c) else Inr (c_do_read E c))))"
    using assms c_do_write_log [OF assms(1,2)]
    by (intro yields_bind_pair [where J = "out_log sent H"] recv_bytes_log yields_if yields_bind [where J = "out_log sent H"]) simp_all
  with Inr show ?thesis by (simp add: c_read_done_def)
qed

text \<open>A completed write moves the buffer to what was written; a failed one stops the session.\<close>

lemma c_write_done_log:
  assumes "c_lib E = L" "c_chunks_fit E" "out_log sent H c" "c_in_flight c = Some out"
  shows "yields (out_log sent (H @ (if err = None then out else []))) (c_write_done E err c)"
proof -
  have "out = wbuf c" using assms(3,4) by (simp add: out_log_def client_inv_def)
  then have "out_log sent H (c\<lparr>c_in_flight := None\<rparr>)" "out_log sent (H @ out) (c\<lparr>c_in_flight := None, wbuf := [], c_writing := False\<rparr>)"
    using assms(3) by (auto simp: out_log_def client_inv_def c_pending_bytes_def)
  with client_ops.call_error_cb_J [OF log_ops [OF assms(1,2)]] c_do_write_log [OF assms(1,2)] show ?thesis
    by (auto simp: c_write_done_def Let_def intro!: yields_bind [where J = "out_log sent H"] split: option.split)
qed

lemma timers_log:
  assumes "c_lib E = L" "c_chunks_fit E" "out_log sent H c"
  shows "yields (out_log sent H) (c_handle_deadline E c)" "yields (out_log sent H) (handle_ping E aborted c)"
proof -
  note ops = log_ops [OF assms(1,2)]
  show "yields (out_log sent H) (c_handle_deadline E c)"
    using assms(3) client_ops.call_error_cb_J [OF ops]
    by (auto simp: c_handle_deadline_def Let_def intro!: yields_bind [where J = "out_log sent H"] split: option.split)
  have "out_log sent H (c\<lparr>c_session := submit_ping (c_lib E) (c_session c)\<rparr>)"
    by (rule client_ops.J_session [OF ops assms(3) lib_submits.Ping])
  with assms(3) client_ops.signal_J [OF ops] show "yields (out_log sent H) (handle_ping E aborted c)"
    by (auto simp: handle_ping_def intro!: yields_bind [where J = "out_log sent H"])
qed

text \<open>A new session starts with an empty log.\<close>

lemma connected_log:
  assumes "c_lib E = L" "c_chunks_fit E" "client_inv c" "wbuf c = []" "data_pending c = None" "fst (session_new L) = 0"
  shows "yields (out_log sent []) (connected E c)"
proof -
  have su: "yields (\<lambda>(ok, c). out_log sent [] c) (setup_session E c)"
    using assms log_new by (auto simp: setup_session_def split_beta Let_def out_log_def c_pending_bytes_def log_settings log_window)
  show ?thesis
    unfolding connected_def Let_def
    using client_ops.run_client_cb_J [OF log_ops [OF assms(1,2)]] c_do_write_log [OF assms(1,2)]
    by (intro yields_bind_pair [OF su] yields_if yields_bind [where J = "out_log sent []"]) simp_all
qed

end

section \<open>Runs as lists of events\<close>

text \<open>Each event carries the clock and what the environment decides.\<close>

datatype 'u client_event =
    C_read int "error_code + string"
  | C_written int "error_code option"
  | C_deadline int
  | C_ping int bool
  | C_application int "'u client_prog"

fun client_enabled :: "'u client_event \<Rightarrow> ('s, 'u) session_impl \<Rightarrow> bool" where
  "client_enabled (C_read t r) c = c_reading c"
| "client_enabled (C_written t err) c = (c_in_flight c \<noteq> None)"
| "client_enabled (C_deadline t) c = c_waiting c"
| "client_enabled (C_ping t aborted) c = True"
| "client_enabled (C_application t p) c = True"

fun client_exec :: "('s, 'u) client_env \<Rightarrow> 'u client_event \<Rightarrow> ('s, 'u) session_impl \<Rightarrow> fault + ('s, 'u) session_impl" where
  "client_exec E (C_read t r) c = c_read_done (E\<lparr>clock := t\<rparr>) r c"
| "client_exec E (C_written t err) c = c_write_done (E\<lparr>clock := t\<rparr>) err c"
| "client_exec E (C_deadline t) c = c_handle_deadline (E\<lparr>clock := t\<rparr>) c"
| "client_exec E (C_ping t aborted) c = handle_ping (E\<lparr>clock := t\<rparr>) aborted c"
| "client_exec E (C_application t p) c = run_client (c_do_write (E\<lparr>clock := t\<rparr>)) (E\<lparr>clock := t\<rparr>) p c"

text \<open>The bytes of the write whose successful completion an event reports.\<close>

fun client_wrote :: "'u client_event \<Rightarrow> ('s, 'u) session_impl \<Rightarrow> string" where
  "client_wrote (C_written t None) c = (case c_in_flight c of Some out \<Rightarrow> out | None \<Rightarrow> [])"
| "client_wrote _ c = []"

fun client_run ::
    "('s, 'u) client_env \<Rightarrow> 'u client_event list \<Rightarrow> ('s, 'u) session_impl \<Rightarrow> fault + (string \<times> ('s, 'u) session_impl)" where
  "client_run E [] c = Inr ([], c)"
| "client_run E (e # es) c =
     (if \<not> client_enabled e c then client_run E es c
      else
        bind_f (client_exec E e c) (\<lambda>c1.
        bind_f (client_run E es c1) (\<lambda>(out, c2). Inr (client_wrote e c @ out, c2))))"

lemma client_exec_step: "client_enabled e c \<Longrightarrow> client_step E c (client_exec E e c)"
  by (cases e) (auto intro: client_step.intros)

context byte_log
begin

lemma client_exec_log:
  assumes "c_lib E = L" "c_chunks_fit E" "out_log sent H c" "client_enabled e c"
  shows "yields (out_log sent (H @ client_wrote e c)) (client_exec E e c)"
proof (cases e)
  case (C_written t err)
  with assms(4) obtain out where out: "c_in_flight c = Some out" by auto
  have "yields (out_log sent (H @ (if err = None then out else []))) (c_write_done (E\<lparr>clock := t\<rparr>) err c)"
    using assms(1-3) out by (intro c_write_done_log) simp_all
  with C_written out show ?thesis by (cases err) simp_all
next
  case (C_application t p)
  with client_ops.run_client_J [OF log_ops, of "E\<lparr>clock := t\<rparr>"] assms show ?thesis by simp
qed (use assms in \<open>simp_all add: c_read_done_log timers_log\<close>)

lemma client_run_log:
  assumes "c_lib E = L" "c_chunks_fit E"
  shows "out_log sent H c \<Longrightarrow> client_run E es c = Inr (out, c') \<Longrightarrow> out_log sent (H @ out) c'"
proof (induction es arbitrary: H c out)
  case (Cons e es)
  show ?case
  proof (cases "client_enabled e c")
    case True
    with Cons.prems(2) obtain c1 out1 where x: "client_exec E e c = Inr c1" "client_run E es c1 = Inr (out1, c')"
      "out = client_wrote e c @ out1" by (auto simp: bind_f_Inr)
    with client_exec_log [OF assms Cons.prems(1) True] Cons.IH [of "H @ client_wrote e c" c1 out1] show ?thesis by simp
  qed (use Cons in simp)
qed simp

lemma connected_run_log:
  assumes "c_lib E = L" "fst (session_new L) = 0" "c_chunks_fit E"
    "client_inv c0" "wbuf c0 = []" "data_pending c0 = None" "connected (E\<lparr>clock := t\<rparr>) c0 = Inr c"
    "client_run E es c = Inr (out, c')"
  shows "out_log sent out c'"
proof -
  have "yields (out_log sent []) (connected (E\<lparr>clock := t\<rparr>) c0)" using assms(1-6) by (intro connected_log) simp_all
  with assms(7) have "out_log sent [] c" by simp
  from client_run_log [OF assms(1,3) this assms(8)] show ?thesis by simp
qed

end

end
