(* ===== verification/Client_Output.thy ===== *)
theory Client_Output
  imports Client_Log
begin

text \<open>
  The output of a client session with an arbitrary library. A session with the library \<open>logged L\<close> behaves as one with \<open>L\<close> once the log is
  erased, in every operation and every run; so what \<open>Client_Log\<close> shows of the log holds of what \<open>L\<close> itself returned.
\<close>

section \<open>Erasing the log\<close>

definition erase :: "('s \<times> string, 'u) session_impl \<Rightarrow> ('s, 'u) session_impl" where
  "erase c = \<lparr>c_streams = c_streams c, held = held c, c_session = fst (c_session c), wbuf = wbuf c, data_pending = data_pending c,
     c_writing = c_writing c, c_inside_callback = c_inside_callback c, c_stopped = c_stopped c, connect_cb = connect_cb c,
     error_cb = error_cb c, c_read_timeout = c_read_timeout c, connect_timeout = connect_timeout c, c_reading = c_reading c,
     c_in_flight = c_in_flight c, c_expires_at = c_expires_at c, c_waiting = c_waiting c, ping_at = ping_at c, c_app = c_app c\<rparr>"

definition log_env :: "('s, 'u) client_env \<Rightarrow> ('s \<times> string, 'u) client_env" where
  "log_env E = \<lparr>c_lib = logged (c_lib E), client_cbs = client_cbs E, inet_pton = inet_pton E, clock = clock E\<rparr>"

lemma log_env_simps [simp]:
  "c_lib (log_env E) = logged (c_lib E)" "client_cbs (log_env E) = client_cbs E" "inet_pton (log_env E) = inet_pton E"
  "clock (log_env E) = clock E" "(log_env E)\<lparr>clock := t\<rparr> = log_env (E\<lparr>clock := t\<rparr>)"
  by (simp_all add: log_env_def)

lemma erase_sel [simp]:
  "c_streams (erase c) = c_streams c" "held (erase c) = held c" "c_session (erase c) = fst (c_session c)" "wbuf (erase c) = wbuf c"
  "data_pending (erase c) = data_pending c" "c_writing (erase c) = c_writing c" "c_inside_callback (erase c) = c_inside_callback c"
  "c_stopped (erase c) = c_stopped c" "connect_cb (erase c) = connect_cb c" "error_cb (erase c) = error_cb c"
  "c_read_timeout (erase c) = c_read_timeout c" "connect_timeout (erase c) = connect_timeout c" "c_reading (erase c) = c_reading c"
  "c_in_flight (erase c) = c_in_flight c" "c_expires_at (erase c) = c_expires_at c" "c_waiting (erase c) = c_waiting c"
  "ping_at (erase c) = ping_at c" "c_app (erase c) = c_app c"
  by (simp_all add: erase_def)

lemma erase_upd [simp]:
  "erase (c\<lparr>c_streams := m\<rparr>) = (erase c)\<lparr>c_streams := m\<rparr>" "erase (c\<lparr>held := m\<rparr>) = (erase c)\<lparr>held := m\<rparr>"
  "erase (c\<lparr>c_session := x\<rparr>) = (erase c)\<lparr>c_session := fst x\<rparr>" "erase (c\<lparr>wbuf := o'\<rparr>) = (erase c)\<lparr>wbuf := o'\<rparr>"
  "erase (c\<lparr>data_pending := p\<rparr>) = (erase c)\<lparr>data_pending := p\<rparr>" "erase (c\<lparr>c_writing := b\<rparr>) = (erase c)\<lparr>c_writing := b\<rparr>"
  "erase (c\<lparr>c_inside_callback := b\<rparr>) = (erase c)\<lparr>c_inside_callback := b\<rparr>" "erase (c\<lparr>c_stopped := b\<rparr>) = (erase c)\<lparr>c_stopped := b\<rparr>"
  "erase (c\<lparr>c_reading := b\<rparr>) = (erase c)\<lparr>c_reading := b\<rparr>" "erase (c\<lparr>c_in_flight := f\<rparr>) = (erase c)\<lparr>c_in_flight := f\<rparr>"
  "erase (c\<lparr>c_expires_at := d\<rparr>) = (erase c)\<lparr>c_expires_at := d\<rparr>" "erase (c\<lparr>c_waiting := b\<rparr>) = (erase c)\<lparr>c_waiting := b\<rparr>"
  "erase (c\<lparr>ping_at := q\<rparr>) = (erase c)\<lparr>ping_at := q\<rparr>" "erase (c\<lparr>c_app := u\<rparr>) = (erase c)\<lparr>c_app := u\<rparr>"
  by (simp_all add: erase_def)

lemma logged_simps [simp]:
  "fst (submit_rst_stream (logged L) sid ec x) = submit_rst_stream L sid ec (fst x)"
  "fst (resume_data (logged L) sid x) = resume_data L sid (fst x)"
  "fst (terminate_session (logged L) x) = terminate_session L (fst x)"
  "fst (submit_ping (logged L) x) = submit_ping L (fst x)"
  "lib_submit_trailer (logged L) sid nva x = map_prod id (\<lambda>s. (s, snd x)) (lib_submit_trailer L sid nva (fst x))"
  "submit_request (logged L) prio nva body x = map_prod id (\<lambda>s. (s, snd x)) (submit_request L prio nva body (fst x))"
  "fst (submit_settings (logged L) ivs x) = submit_settings L ivs (fst x)"
  "fst (set_local_window_size (logged L) n x) = set_local_window_size L n (fst x)"
  "want_read (logged L) x = want_read L (fst x)" "want_write (logged L) x = want_write L (fst x)"
  "session_new (logged L) = map_prod id (\<lambda>s. (s, [])) (session_new L)"
  "mem_recv (logged L) bs x = log_tree no_bytes (mem_recv L bs (fst x)) (snd x)"
  "mem_send (logged L) x = log_tree sent_bytes (mem_send L (fst x)) (snd x)"
  by (cases x; simp add: logged_def)+

text \<open>A computation with the log and one without have the same outcome but for the log.\<close>

definition erased :: "('a \<Rightarrow> 'b) \<Rightarrow> fault + 'a \<Rightarrow> fault + 'b" where
  "erased f m = (case m of Inl e \<Rightarrow> Inl e | Inr x \<Rightarrow> Inr (f x))"

lemma erased_simps [simp]: "erased f (Inl e) = Inl e" "erased f (Inr x) = Inr (f x)"
  by (simp_all add: erased_def)

lemma erased_bind:
  "erased f m = m' \<Longrightarrow> (\<And>x. m = Inr x \<Longrightarrow> erased f' (g x) = g' (f x)) \<Longrightarrow> erased f' (bind_f m g) = bind_f m' g'"
  by (cases m) auto

lemma erased_if: "(b \<Longrightarrow> erased f m = m') \<Longrightarrow> (\<not> b \<Longrightarrow> erased f n = n') \<Longrightarrow> erased f (if b then m else n) = (if b then m' else n')"
  by simp

section \<open>Operations\<close>

lemma erase_ops [simp]:
  "find_c_stream sid (erase c) = find_c_stream sid c" "erase (start_ping (log_env E) c) = start_ping E (erase c)"
  "the_c_stream sid (erase c) = the_c_stream sid c" "erase (put_c_stream sid s c) = put_c_stream sid s (erase c)"
  "erase (c_stop c) = c_stop (erase c)" "c_should_stop (log_env E) c = c_should_stop E (erase c)"
  "erase (c_do_read (log_env E) c) = c_do_read E (erase c)" "c_pending_bytes (erase c) = c_pending_bytes c"
  "request_uri (log_env E) u uri = request_uri E u uri"
  "erase (set_c_session x c) = set_c_session (fst x) (erase c)" "erase (set_c_inside b c) = set_c_inside b (erase c)"
  "erase (reset_frame_stream (log_env E) fr ok c) = reset_frame_stream E fr ok (erase c)"
  by (simp_all add: find_c_stream_def start_ping_def the_c_stream_def put_c_stream_def c_stop_def c_should_stop_def c_do_read_def
      c_pending_bytes_def request_uri_def set_c_session_def set_c_inside_def reset_frame_stream_def split: option.split)

lemma connect_cb_timers [simp]: "connect_cb (start_ping E c) = connect_cb c" "connect_cb (c_do_read E c) = connect_cb c"
  by (simp_all add: start_ping_def c_do_read_def)

lemma erase_streams:
  "erased erase (emplace_stream sid s c) = emplace_stream sid s (erase c)"
  "erased erase (upd_c_request sid f c) = upd_c_request sid f (erase c)"
  "erased erase (upd_c_response sid g c) = upd_c_response sid g (erase c)"
  "pop_stream E sid (erase c) = apsnd erase (pop_stream (log_env E) sid c)"
  by (simp_all add: emplace_stream_def upd_c_request_def upd_c_response_def pop_stream_def split_beta Let_def bind_f_def
      split: option.split sum.split)

lemma erase_bind_stream:
  "(\<And>s. erased f (g s) = g' s) \<Longrightarrow> erased f (bind_f (the_c_stream sid c) g) = bind_f (the_c_stream sid c) g'"
  by (cases "the_c_stream sid c") simp_all

text \<open>The flush of one side erases to that of the other.\<close>

locale erased_flush =
  fixes dw :: "('s \<times> string, 'u) session_impl \<Rightarrow> fault + ('s \<times> string, 'u) session_impl"
    and dw' :: "('s, 'u) session_impl \<Rightarrow> fault + ('s, 'u) session_impl"
  assumes flush: "erased erase (dw c) = dw' (erase c)"
begin

lemma signal_erase: "erased erase (c_signal_write dw c) = c_signal_write dw' (erase c)"
  by (simp add: c_signal_write_def flush)

lemma req_op_erase: "erased erase (run_req_op dw (log_env E) sid op c) = run_req_op dw' E sid op (erase c)"
  by (cases op)
    (simp_all add: run_req_op_def erase_streams c_write_trailer_def c_cancel_def c_resume_def split_beta Let_def signal_erase
      erase_bind_stream)

lemma submit_erase:
  "erased (apsnd (apsnd erase)) (submit dw (log_env E) meth uri g hm prio c) = submit dw' E meth uri g hm prio (erase c)"
  unfolding submit_def
  by (auto simp: split_beta Let_def signal_erase erase_streams intro!: erased_bind [where f = erase] split: option.split)

lemma run_client_erase: "erased erase (run_client dw (log_env E) p c) = run_client dw' E p (erase c)"
proof (induction p arbitrary: c rule: client_prog_induct)
  case (Request_op sid op k)
  then show ?case by (auto intro!: erased_bind [where f = erase] simp: req_op_erase)
next
  case (Submit meth uri g hm prio k)
  then show ?case by (auto intro!: erased_bind [where f = "apsnd (apsnd erase)"] simp: submit_erase)
next
  case (Shutdown k)
  then show ?case by (auto intro!: erased_bind [where f = erase] simp: c_shutdown_def signal_erase)
next
  case (Look_request sid k)
  then show ?case by (simp add: erase_bind_stream)
qed simp_all

lemma run_client_cb_erase: "erased erase (run_client_cb dw (log_env E) f arg c) = run_client_cb dw' E f arg (erase c)"
  by (simp add: run_client_cb_def split_beta run_client_erase split: option.split)

lemma call_error_cb_erase: "erased erase (call_error_cb dw (log_env E) ec c) = call_error_cb dw' E ec (erase c)"
  by (simp add: call_error_cb_def run_client_cb_erase)

end

interpretation nf: erased_flush no_flush no_flush
  by unfold_locales (simp add: no_flush_def)

section \<open>Callbacks and runs of the library\<close>

lemma callbacks_erase:
  "erased erase (c_on_begin_headers_callback fr c) = c_on_begin_headers_callback fr (erase c)"
  "erased erase (c_on_header_callback (log_env E) fr name val flags c) = c_on_header_callback E fr name val flags (erase c)"
  "erased erase (c_call_on_data (log_env E) sid data c) = c_call_on_data E sid data (erase c)"
  by (simp_all add: c_on_begin_headers_callback_def create_push_stream_def erase_streams c_on_header_callback_def split_beta
      c_call_on_data_def erase_bind_stream nf.run_client_cb_erase split: frame_type.split option.split)

lemma frame_recv_erase: "erased erase (c_on_frame_recv_callback (log_env E) fr c) = c_on_frame_recv_callback E fr (erase c)"
  by (auto simp: c_on_frame_recv_callback_def Let_def callbacks_erase nf.run_client_cb_erase intro!: erased_bind [where f = erase]
      split: frame_type.split option.split)

lemma stream_close_erase:
  "erased erase (c_on_stream_close_callback (log_env E) sid ec c) = c_on_stream_close_callback E sid ec (erase c)"
proof -
  obtain so c1 where p: "pop_stream (log_env E) sid c = (so, c1)" by force
  show ?thesis
    by (cases so) (auto simp: c_on_stream_close_callback_def erase_streams p nf.run_client_cb_erase intro!: erased_bind [where f = erase])
qed

lemma dispatch_erase: "erased (apsnd erase) (c_dispatch (log_env E) ev c) = c_dispatch E ev (erase c)"
proof -
  have zero: "erased (apsnd erase) (bind_f m (\<lambda>c. Inr (Code 0, c))) = bind_f (erased erase m) (\<lambda>c. Inr (Code 0, c))"
    for m :: "fault + ('a \<times> string, 'b) session_impl" by (cases m) simp_all
  show ?thesis
    by (cases ev) (simp_all add: c_dispatch_def zero callbacks_erase frame_recv_erase stream_close_erase c_on_data_chunk_recv_callback_def
        c_read_callback_def erase_bind_stream split_beta split: option.split)
qed

lemma run_lib_erase:
  "erased (apsnd (apsnd erase)) (run_lib (c_dispatch (log_env E)) c_session set_c_session (log_tree g r w) c) =
     run_lib (c_dispatch E) c_session set_c_session r (erase c)"
proof (induction r arbitrary: c w rule: lib_run_induct)
  case (Callback ev s k)
  then show ?case
    by (auto intro!: erased_bind [where f = "apsnd erase"] simp: dispatch_erase)
qed simp

lemma client_send_erase:
  "erased (apsnd (apsnd erase)) (client_send (log_env E) c) = client_send E (erase c)"
  by (simp add: client_send_def run_lib_erase)

lemma fill_loop_erase:
  "erased (apsnd (apsnd (apsnd erase))) (fill_loop (client_send (log_env E)) N out c) = fill_loop (client_send E) N out (erase c)"
proof (induction "client_send (log_env E)" N out c rule: fill_loop.induct)
  case (1 N out c)
  show ?case
  proof (cases "client_send (log_env E) c")
    case (Inl e)
    with client_send_erase [of E c] have "client_send E (erase c) = Inl e" by simp
    with Inl show ?thesis by (simp add: fill_loop_cases(1))
  next
    case (Inr r)
    obtain n bs c1 where s: "client_send (log_env E) c = Inr (n, bs, c1)" using Inr by (cases r) auto
    with client_send_erase [of E c] have s': "client_send E (erase c) = Inr (n, bs, erase c1)" by simp
    show ?thesis
      using "1.hyps" [OF s refl refl]
      by (subst (1 2) fill_loop.simps) (simp add: s s')
  qed
qed

lemma guarded_erase:
  assumes "\<And>c. erased (apsnd erase) (body c) = body' (erase c)"
  shows "erased (apsnd erase) (guarded c_inside_callback set_c_inside body c) = guarded c_inside_callback set_c_inside body' (erase c)"
  unfolding guarded_def
  by (auto intro!: erased_if erased_bind [where f = "apsnd erase"] simp: assms split: prod.split)

lemma fill_wb_erase: "erased (apsnd erase) (fill_wb (log_env E) c) = fill_wb E (erase c)"
  unfolding fill_wb_def
  by (rule guarded_erase)
    (auto intro!: erased_bind [where f = "apsnd (apsnd (apsnd erase))"] erased_bind [where f = erase]
      simp: fill_loop_erase nf.call_error_cb_erase Let_def split: prod.split option.split)

lemma c_do_write_erase: "erased erase (c_do_write (log_env E) c) = c_do_write E (erase c)"
  unfolding c_do_write_def
  by (auto intro!: erased_bind [where f = "apsnd erase"] simp: fill_wb_erase Let_def split: prod.split)

interpretation fl: erased_flush "c_do_write (log_env E)" "c_do_write E" for E
  by unfold_locales (rule c_do_write_erase)

section \<open>Events and runs\<close>

lemma recv_bytes_erase: "erased (apsnd erase) (recv_bytes (log_env E) bs c) = recv_bytes E bs (erase c)"
  unfolding recv_bytes_def
  by (rule guarded_erase)
    (auto intro!: erased_bind [where f = "apsnd (apsnd erase)"] erased_bind [where f = erase]
      simp: run_lib_erase nf.call_error_cb_erase split: prod.split)

lemma events_erase:
  "erased erase (c_read_done (log_env E) r c) = c_read_done E r (erase c)"
  "erased erase (c_write_done (log_env E) err c) = c_write_done E err (erase c)"
  "erased erase (c_handle_deadline (log_env E) c) = c_handle_deadline E (erase c)"
  "erased erase (handle_ping (log_env E) aborted c) = handle_ping E aborted (erase c)"
  unfolding c_read_done_def c_write_done_def c_handle_deadline_def handle_ping_def
  by (auto intro!: erased_bind [where f = "apsnd erase"] erased_bind [where f = erase] erased_if
      simp: recv_bytes_erase fl.call_error_cb_erase fl.signal_erase c_do_write_erase Let_def split: prod.split option.split sum.split)

lemma connected_erase: "erased erase (connected (log_env E) c) = connected E (erase c)"
proof -
  have su: "erased (apsnd erase) (setup_session (log_env E) c) = setup_session E (erase c)"
    by (auto intro!: erased_bind [where f = erase] simp: setup_session_def fl.call_error_cb_erase split_beta Let_def)
  show ?thesis
    unfolding connected_def
    by (auto intro!: erased_bind [where f = "apsnd erase"] erased_bind [where f = erase]
        simp: su fl.run_client_cb_erase c_do_write_erase Let_def split: prod.split)
qed

lemma client_event_erase:
  "client_enabled e (erase c) = client_enabled e c" "client_wrote e (erase c) = client_wrote e c"
  "erased erase (client_exec (log_env E) e c) = client_exec E e (erase c)"
  by (cases e; auto simp: events_erase fl.run_client_erase)
    (cases e; cases "case e of C_written t err \<Rightarrow> err | _ \<Rightarrow> None"; auto simp: events_erase fl.run_client_erase)+

lemma client_run_erase: "erased (apsnd erase) (client_run (log_env E) es c) = client_run E es (erase c)"
proof (induction es arbitrary: c)
  case (Cons e es)
  then show ?case
    by (auto intro!: erased_bind [where f = "apsnd erase"] erased_bind [where f = erase] simp: client_event_erase split: prod.split)
qed simp

lemma chunks_fit_log:
  assumes "c_chunks_fit E"
  shows "c_chunks_fit (log_env E)"
  unfolding c_chunks_fit_def
proof (intro allI impI)
  fix t n bs c' and c :: "('a \<times> string, 'b) session_impl"
  assume "client_send ((log_env E)\<lparr>clock := t\<rparr>) c = Inr (n, bs, c')"
  with client_send_erase [of "E\<lparr>clock := t\<rparr>" c] have "client_send (E\<lparr>clock := t\<rparr>) (erase c) = Inr (n, bs, erase c')" by simp
  with assms show "length bs \<le> wb_size" unfolding c_chunks_fit_def by blast
qed

lemma erased_Inr: "erased f m = Inr y \<longleftrightarrow> (\<exists>x. m = Inr x \<and> y = f x)"
  by (cases m) auto

section \<open>The output of the library\<close>

definition with_log :: "('s, 'u) session_impl \<Rightarrow> ('s \<times> string, 'u) session_impl" where
  "with_log c = \<lparr>c_streams = c_streams c, held = held c, c_session = (c_session c, []), wbuf = wbuf c, data_pending = data_pending c,
     c_writing = c_writing c, c_inside_callback = c_inside_callback c, c_stopped = c_stopped c, connect_cb = connect_cb c,
     error_cb = error_cb c, c_read_timeout = c_read_timeout c, connect_timeout = connect_timeout c, c_reading = c_reading c,
     c_in_flight = c_in_flight c, c_expires_at = c_expires_at c, c_waiting = c_waiting c, ping_at = ping_at c, c_app = c_app c\<rparr>"

lemma erase_with_log [simp]: "erase (with_log c) = c"
  by (cases c) (simp add: erase_def with_log_def)

lemma with_log_frame [simp]:
  "client_inv (with_log c) = client_inv c" "wbuf (with_log c) = wbuf c" "data_pending (with_log c) = data_pending c"
  by (simp_all add: client_inv_def with_log_def c_pending_bytes_def)

text \<open>
  All bytes that \<open>mem_send\<close> of the library returned while the session was connected at the time \<open>t\<close> and then ran through the events.
\<close>

definition library_output :: "('s, 'u) client_env \<Rightarrow> int \<Rightarrow> 'u client_event list \<Rightarrow> ('s, 'u) session_impl \<Rightarrow> string" where
  "library_output E t es c0 =
     (case bind_f (connected (log_env (E\<lparr>clock := t\<rparr>)) (with_log c0)) (client_run (log_env E) es) of
        Inr (out, c) \<Rightarrow> snd (c_session c)
      | Inl e \<Rightarrow> [])"

lemma library_output_log:
  assumes "connected (E\<lparr>clock := t\<rparr>) c0 = Inr c" "client_run E es c = Inr (out, c')"
  shows "\<exists>cl cl'. connected (log_env (E\<lparr>clock := t\<rparr>)) (with_log c0) = Inr cl \<and> client_run (log_env E) es cl = Inr (out, cl') \<and>
    erase cl' = c' \<and> library_output E t es c0 = snd (c_session cl')"
proof -
  have "erased erase (connected (log_env (E\<lparr>clock := t\<rparr>)) (with_log c0)) = Inr c" by (simp add: connected_erase assms(1))
  then obtain cl where cl: "connected (log_env (E\<lparr>clock := t\<rparr>)) (with_log c0) = Inr cl" "c = erase cl" by (auto simp: erased_Inr)
  have "erased (apsnd erase) (client_run (log_env E) es cl) = Inr (out, c')" using assms(2) by (simp add: client_run_erase cl(2))
  then obtain cl' where "client_run (log_env E) es cl = Inr (out, cl')" "c' = erase cl'" by (auto simp: erased_Inr)
  with cl(1) show ?thesis by (simp add: library_output_def)
qed

section \<open>Properties\<close>

text \<open>
  C9: a client session refines a first-in first-out byte pipe from the library to the socket. From the moment it is connected, over any
  sequence of reads, write completions, timers and calls of the application, wherever their flushes happen, the bytes the library
  returned from \<open>mem_send\<close> are in order, without loss, duplication or insertion, those of the completed writes, those of the write
  buffer and the chunk kept for the next flush, which is not longer than the buffer. Once the session is stopped the completed writes and the
  buffer are still a prefix of them.
\<close>

theorem client_output_fifo:
  assumes "fst (session_new (c_lib E)) = 0" "c_chunks_fit E" "client_inv c0" "wbuf c0 = []" "data_pending c0 = None"
    "connected (E\<lparr>clock := t\<rparr>) c0 = Inr c" "client_run E es c = Inr (out, c')"
  shows "prefix (out @ wbuf c') (library_output E t es c0) \<and>
    (\<not> c_stopped c' \<longrightarrow>
       library_output E t es c0 = out @ wbuf c' @ c_pending_bytes c' \<and> length (c_pending_bytes c') \<le> wb_size)"
proof -
  from library_output_log [OF assms(6,7)] obtain cl cl' where
    cl: "connected ((log_env E)\<lparr>clock := t\<rparr>) (with_log c0) = Inr cl" "client_run (log_env E) es cl = Inr (out, cl')"
      "erase cl' = c'" "library_output E t es c0 = snd (c_session cl')" by auto
  have "out_log snd out cl'"
    by (rule lg.connected_run_log [OF log_env_simps(1) _ chunks_fit_log [OF assms(2)] _ _ _ cl(1,2)]) (use assms in simp_all)
  then show ?thesis unfolding cl(3) [symmetric] cl(4) by (simp add: out_log_def client_inv_def)
qed

text \<open>With the library that sends back what it received: two bytes are read, written and the write completes.\<close>

definition echo_client_env :: "(string, unit) client_env" where
  "echo_client_env = \<lparr>c_lib = echo_lib, client_cbs = (\<lambda>_ _ u. (Client_done, u)), inet_pton = (\<lambda>_ _. 0), clock = 0\<rparr>"

definition echo_session :: "(string, unit) session_impl" where
  "echo_session = session_impl_new 60 [] ()"

lemma echo_client_send:
  "client_send (echo_client_env\<lparr>clock := t\<rparr>) c =
     (case c_session c of [] \<Rightarrow> Inr (0, [], c\<lparr>c_session := []\<rparr>) | x # s \<Rightarrow> Inr (1, [x], c\<lparr>c_session := s\<rparr>))"
  by (simp add: client_send_def echo_client_env_def echo_lib_def set_c_session_def split: list.split)

lemma echo_client_calls [simp]:
  "session_new (c_lib echo_client_env) = (0, [])" "submit_settings (c_lib echo_client_env) ivs x = x"
  "set_local_window_size (c_lib echo_client_env) n x = x" "want_read (c_lib echo_client_env) x"
  "mem_recv (c_lib echo_client_env) bs x = Returned (int (length bs)) [] (x @ bs)"
  by (simp_all add: echo_client_env_def echo_lib_def)

lemma echo_client_fit: "c_chunks_fit echo_client_env"
  by (auto simp: c_chunks_fit_def echo_client_send wb_size_def split: list.splits)

theorem client_output_fifo_witness:
  "\<exists>c c'. connected (echo_client_env\<lparr>clock := 0\<rparr>) echo_session = Inr c \<and>
     client_run echo_client_env [C_read 1 (Inr ''ab''), C_written 2 None] c = Inr (''ab'', c') \<and>
     library_output echo_client_env 0 [C_read 1 (Inr ''ab''), C_written 2 None] echo_session = ''ab''"
proof -
  let ?c = "echo_session\<lparr>c_session := [], c_expires_at := Some 60, c_reading := True, ping_at := Some 30\<rparr>"
  have c: "connected (echo_client_env\<lparr>clock := 0\<rparr>) echo_session = Inr ?c"
    by (simp add: connected_def setup_session_def c_do_write_def fill_wb_def guarded_def set_c_inside_def echo_session_def session_impl_new_def
        wb_size_def echo_client_send fill_loop.simps [of _ _ "[]"] c_do_read_def start_ping_def run_client_cb_def c_should_stop_def)
  obtain c' where c': "client_run echo_client_env [C_read 1 (Inr ''ab''), C_written 2 None] ?c = Inr (''ab'', c')" "\<not> c_stopped c'"
    "wbuf c' = []" "c_pending_bytes c' = []"
    by (simp add: c_read_done_def recv_bytes_def c_write_done_def c_do_write_def fill_wb_def guarded_def set_c_inside_def echo_session_def session_impl_new_def
        wb_size_def echo_client_send fill_loop.simps [of _ _ "[]"] fill_loop.simps [of _ _ "[_]"] fill_loop.simps [of _ _ "[_, _]"]
        c_do_read_def c_should_stop_def c_pending_bytes_def set_c_session_def)
  have "client_inv echo_session" "wbuf echo_session = []" "data_pending echo_session = None" "fst (session_new (c_lib echo_client_env)) = 0"
    by (simp_all add: echo_session_def session_impl_new_def client_inv_def table_ok_ops c_pending_bytes_def)
  from client_output_fifo [OF this(4) echo_client_fit this(1-3) c c'(1)] c c' show ?thesis by auto
qed

end
