(* ===== verification/Client_Requests.thy ===== *)
theory Client_Requests
  imports Client_Safety
begin

text \<open>
  What the client sends for a request and what it makes of the answer: the fields of a submitted
  request, the stream table after a submission, and the handling of interim responses.
\<close>

section \<open>The fields of a request\<close>

lemma url_final_query:
  assumes "field_set u0 = 0"
  shows "has_field (url_final sch h prt p q u0) UF_QUERY \<longleftrightarrow> (\<exists>c cs. q = Some (c # cs))"
proof -
  have "\<not> has_field u0 f" for f using assms by (simp add: has_field_def)
  then show ?thesis by (simp add: url_final_def url_rest_def Let_def split: option.split list.split)
qed

lemma submit_accepts:
  assumes "\<not> c_stopped c" "http_parser_parse_url uri False http_parser_url_init = Some u" "has_field u UF_SCHEMA" "has_field u UF_HOST"
    "submit_request (c_lib E) (priority_get prio) (request_nva meth u (request_uri E u uri) hm) (g \<noteq> None) (c_session c) = (rv, ses)" "0 \<le> rv"
  shows "submit dw E meth uri g hm prio c =
    bind_f (c_signal_write dw (c\<lparr>c_session := ses, held := om_insert rv
        (c_stream_new\<lparr>cs_request := c_request_new\<lparr>cq_uri := request_uri E u uri, cq_header := hm, cq_generator := g\<rparr>\<rparr>) (held c)\<rparr>)) (\<lambda>c.
      bind_f (emplace_stream rv (case om_find rv (held c) of Some s' \<Rightarrow> s'
          | None \<Rightarrow> c_stream_new\<lparr>cs_request := c_request_new\<lparr>cq_uri := request_uri E u uri, cq_header := hm, cq_generator := g\<rparr>\<rparr>)
        (c\<lparr>held := om_erase rv (held c)\<rparr>)) (\<lambda>c. Inr (ec_clear, Some rv, c)))"
  using assms by (simp add: submit_def Let_def)

text \<open>The request URI of a composed URL.\<close>

definition url_request_uri :: "string \<Rightarrow> string \<Rightarrow> string option \<Rightarrow> string \<Rightarrow> string option \<Rightarrow> uri_ref" where
  "url_request_uri sch h prt p q =
     (let rp = (if p = [] then ''/'' else p)
      in \<lparr>uri_scheme = sch, uri_host = h @ (case prt of None \<Rightarrow> [] | Some ds \<Rightarrow> CHR '':'' # utos (dec_value ds)),
          uri_path = percent_decode rp, raw_path = rp, raw_query = (case q of None \<Rightarrow> [] | Some q \<Rightarrow> q), uri_fragment = []\<rparr>)"

lemma request_of_url:
  assumes "url_parts_ok sch h prt p q" "\<not> ipv6_numeric_addr (inet_pton E) h"
  shows "\<exists>u. http_parser_parse_url (url_of sch h prt p q) False http_parser_url_init = Some u \<and>
    request_uri E u (url_of sch h prt p q) = url_request_uri sch h prt p q \<and>
    (has_field u UF_QUERY \<longleftrightarrow> (\<exists>c cs. q = Some (c # cs)))"
proof -
  let ?url = "url_of sch h prt p q"
  let ?z = "http_parser_url_init\<lparr>port := 0, field_set := 0\<rparr>"
  let ?w = "url_final sch h prt p q ?z"
  let ?u = "case prt of None \<Rightarrow> ?w | Some ds \<Rightarrow> ?w\<lparr>port := word_of_nat (dec_value ds)\<rparr>"
  have "field_set ?z = 0" by simp
  note f = url_final_fields [OF assms(1) this]
  have same: "has_field ?u fld = has_field ?w fld" "copy_url_component d ?u fld b = copy_url_component d ?w fld b" for fld d b
    by (simp_all add: copy_url_component_def field_slice_alt split: option.split)
  have port: "utos (unat (port ?u)) = utos (dec_value ds)" if "prt = Some ds" for ds
    using assms(1) that by (simp add: url_parts_ok_def unat_of_nat)
  have "request_uri E ?u ?url = url_request_uri sch h prt p q"
    using assms(2) port by (simp add: request_uri_def url_request_uri_def Let_def same f split: option.split)
  moreover have "has_field ?u UF_QUERY \<longleftrightarrow> (\<exists>c cs. q = Some (c # cs))"
    unfolding same by (rule url_final_query) simp
  ultimately show ?thesis using parse_url_of [OF assms(1)] by blast
qed

lemma c_do_write_close_lost:
  assumes "client_inv c" "\<not> c_stopped c" "\<not> c_writing c" "data_pending c = None" "find_c_stream sid c = None"
    "mem_send (c_lib E) (c_session c) = Callback (On_stream_close sid ec) s1 (\<lambda>_ _. Returned 0 [] s2)"
  shows "\<exists>c'. c_do_write E c = Inr c' \<and> c_streams c' = c_streams c \<and> held c' = held c \<and> c_app c' = c_app c"
proof -
  have c: "wbuf c = []" "\<not> c_inside_callback c" using assms(1-3) by (simp_all add: client_inv_def)
  have "pop_stream E sid x = (None, x)" if "c_streams x = c_streams c" for x
    using assms(5) that by (simp add: pop_stream_def find_c_stream_def)
  then have send: "client_send E (set_c_inside True c) = Inr (0, [], set_c_session s2 (set_c_session s1 (set_c_inside True c)))"
    using assms(6) by (simp add: client_send_def c_dispatch_def c_on_stream_close_callback_def set_c_inside_def set_c_session_def)
  have eq: "c\<lparr>wbuf := [], data_pending := None\<rparr> = c" using c(1) assms(4) by simp
  have "fill_wb E (c\<lparr>wbuf := [], data_pending := None\<rparr>) = Inr (False, set_c_inside False (set_c_session s2 c))"
    unfolding eq using c fill_loop_cases(2) [where send = "client_send E", OF send]
    by (simp add: fill_wb_def guarded_def set_c_inside_def set_c_session_def)
  then show ?thesis
    using assms(2-4) c(1) by (simp add: c_do_write_def set_c_inside_def set_c_session_def c_stop_def)
qed

section \<open>Properties\<close>

text \<open>
  The request submitted for a composed URL carries the method, the scheme, the path (or a slash
  if it is empty) with the query appended if there is one, and as authority the host with the decimal
  port, followed by exactly the application's header fields.
\<close>

theorem request_fields_of_url:
  assumes "url_parts_ok sch h prt p q" "\<not> ipv6_numeric_addr (inet_pton E) h"
  shows "\<exists>u. http_parser_parse_url (url_of sch h prt p q) False http_parser_url_init = Some u \<and>
    request_nva meth u (request_uri E u (url_of sch h prt p q)) hm =
      [make_nv_ls '':method'' meth, make_nv_ls '':scheme'' sch,
       make_nv_ls '':path'' ((if p = [] then ''/'' else p) @ (case q of Some (c # cs) \<Rightarrow> CHR ''?'' # c # cs | _ \<Rightarrow> [])),
       make_nv_ls '':authority'' (h @ (case prt of None \<Rightarrow> [] | Some ds \<Rightarrow> CHR '':'' # utos (dec_value ds)))] @
      map (\<lambda>(k, v). make_nv k (hvalue v) (sensitive v)) hm"
proof -
  from request_of_url [OF assms] obtain u where u: "http_parser_parse_url (url_of sch h prt p q) False http_parser_url_init = Some u"
    "request_uri E u (url_of sch h prt p q) = url_request_uri sch h prt p q" "has_field u UF_QUERY \<longleftrightarrow> (\<exists>c cs. q = Some (c # cs))"
    by blast
  then show ?thesis
    by (intro exI [of _ u]) (simp add: request_nva_def url_request_uri_def c_header_nva_def Let_def split: option.split list.split)
qed

lemma demo_url_parts: "url_parts_ok ''http'' ''h.com'' None ''/a'' (Some ''q'')"
proof -
  have "list_all IS_ALPHA ''http'' \<and> list_all IS_HOST_CHAR ''h.com'' \<and>
      list_all IS_URL_CHAR ''/a'' \<and> list_all IS_URL_CHAR ''q''" by code_simp
  then show ?thesis by (simp add: url_parts_ok_def url_of_def)
qed

theorem request_fields_of_url_witness:
  "\<exists>u. http_parser_parse_url ''http://h.com/a?q'' False http_parser_url_init = Some u \<and>
     request_nva ''GET'' u (request_uri demo_client_env u ''http://h.com/a?q'') [] =
       [make_nv_ls '':method'' ''GET'', make_nv_ls '':scheme'' ''http'', make_nv_ls '':path'' ''/a?q'', make_nv_ls '':authority'' ''h.com'']"
proof -
  from request_fields_of_url [OF demo_url_parts, of demo_client_env "''GET''" "[]"] show ?thesis
    by (simp add: url_of_def demo_client_env_def ipv6_numeric_addr_def)
qed

text \<open>
  C35: a submission that the library accepts while the session is inside a callback returns the stream id the library
  chose, enters the stream into the table with the URI and header fields given, and leaves every other stream as it was.
  The method given is not recorded: the request's \<open>method()\<close> is empty.
\<close>

theorem submit_records_request:
  assumes "\<not> c_stopped c" "c_inside_callback c" "http_parser_parse_url uri False http_parser_url_init = Some u"
    "has_field u UF_SCHEMA" "has_field u UF_HOST"
    "submit_request (c_lib E) (priority_get prio) (request_nva meth u (request_uri E u uri) hm) (g \<noteq> None) (c_session c) = (rv, ses)" "0 \<le> rv"
    "find_c_stream rv c = None"
  shows "\<exists>c' s. submit dw E meth uri g hm prio c = Inr (ec_clear, Some rv, c') \<and> find_c_stream rv c' = Some s \<and>
    cq_uri (cs_request s) = request_uri E u uri \<and> cq_header (cs_request s) = hm \<and> cq_method (cs_request s) = [] \<and>
    (\<forall>i. i \<noteq> rv \<longrightarrow> find_c_stream i c' = find_c_stream i c)"
proof -
  let ?s = "c_stream_new\<lparr>cs_request := c_request_new\<lparr>cq_uri := request_uri E u uri, cq_header := hm, cq_generator := g\<rparr>\<rparr>"
  let ?c = "c\<lparr>c_session := ses, held := om_erase rv (om_insert rv ?s (held c))\<rparr>"
  have "submit dw E meth uri g hm prio c = bind_f (emplace_stream rv ?s ?c) (\<lambda>c. Inr (ec_clear, Some rv, c))"
    using assms(2) by (simp add: submit_accepts [OF assms(1,3-7)] c_signal_write_def)
  moreover have "emplace_stream rv ?s ?c = Inr (?c\<lparr>c_streams := om_insert rv ?s (c_streams c), ping_at := None\<rparr>)"
    using assms(8) by (simp add: emplace_stream_def om_emplace_def find_c_stream_def)
  ultimately show ?thesis by (auto simp: find_c_stream_def c_request_new_def)
qed

lemma demo_parse:
  "case http_parser_parse_url ''http://h/'' False http_parser_url_init of None \<Rightarrow> False
     | Some u \<Rightarrow> has_field u UF_SCHEMA \<and> has_field u UF_HOST"
  by code_simp

theorem submit_records_request_witness:
  "\<exists>c'. submit no_flush demo_client_env ''GET'' ''http://h/'' None [] priority_spec_default (set_c_inside True demo_session) = Inr (ec_clear, Some 1, c') \<and>
     map_option (\<lambda>s. cq_method (cs_request s)) (find_c_stream 1 c') = Some []"
proof -
  obtain u where u: "http_parser_parse_url ''http://h/'' False http_parser_url_init = Some u" "has_field u UF_SCHEMA" "has_field u UF_HOST"
    using demo_parse by (auto split: option.splits)
  let ?c = "set_c_inside True demo_session"
  have "\<not> c_stopped ?c" "c_inside_callback ?c" "find_c_stream 1 ?c = None"
    "submit_request (c_lib demo_client_env) (priority_get priority_spec_default) (request_nva ''GET'' u (request_uri demo_client_env u ''http://h/'') [])
      ((None :: generator_cb option) \<noteq> None) (c_session ?c) = (1, 1)"
    by (simp_all add: set_c_inside_def demo_session_def session_impl_new_def find_c_stream_def demo_client_env_def quiet_lib_def)
  from submit_records_request [OF this(1,2) u this(4) _ this(3), of no_flush] show ?thesis by auto
qed



text \<open>
  C40: an idle session submits a request before the stream is in its table: when the library closes the new
  stream during the flush the submission makes, the close is lost. No callback of the application runs, the submission succeeds,
  and the stream the library has closed stays in the table.
\<close>

theorem close_during_submit_lost:
  assumes "client_inv c" "\<not> c_stopped c" "\<not> c_writing c" "data_pending c = None" "find_c_stream rv c = None"
    "http_parser_parse_url uri False http_parser_url_init = Some u" "has_field u UF_SCHEMA" "has_field u UF_HOST"
    "submit_request (c_lib E) (priority_get prio) (request_nva meth u (request_uri E u uri) hm) (g \<noteq> None) (c_session c) = (rv, ses)" "0 \<le> rv"
    "mem_send (c_lib E) ses = Callback (On_stream_close rv ec) s1 (\<lambda>_ _. Returned 0 [] s2)"
  shows "\<exists>c' s. submit (c_do_write E) E meth uri g hm prio c = Inr (ec_clear, Some rv, c') \<and> find_c_stream rv c' = Some s \<and> c_app c' = c_app c"
proof -
  let ?s = "c_stream_new\<lparr>cs_request := c_request_new\<lparr>cq_uri := request_uri E u uri, cq_header := hm, cq_generator := g\<rparr>\<rparr>"
  let ?c = "c\<lparr>c_session := ses, held := om_insert rv ?s (held c)\<rparr>"
  have "client_inv ?c"
    using assms(1) c_stream_new_ok by (auto simp: client_inv_def c_pending_bytes_def table_ok_ops c_stream_ok_def c_request_new_def)
  from c_do_write_close_lost [OF this, of rv E ec s1 s2] assms(2-5,11) obtain c1 where
    c1: "c_do_write E ?c = Inr c1" "c_streams c1 = c_streams c" "held c1 = om_insert rv ?s (held c)" "c_app c1 = c_app c"
    by (auto simp: find_c_stream_def)
  moreover have "\<not> c_inside_callback c" using assms(1) by (simp add: client_inv_def)
  ultimately show ?thesis
    using assms(5) by (auto simp: submit_accepts [OF assms(2,6-10)] c_signal_write_def emplace_stream_def om_emplace_def find_c_stream_def)
qed

definition closing_env :: "(nat, unit) client_env" where
  "closing_env = demo_client_env\<lparr>c_lib := quiet_lib\<lparr>mem_send := (\<lambda>n. Callback (On_stream_close 1 8) n (\<lambda>_ _. Returned 0 [] n))\<rparr>\<rparr>"

theorem close_during_submit_lost_witness:
  "\<exists>c' s. submit (c_do_write closing_env) closing_env ''GET'' ''http://h/'' None [] priority_spec_default demo_session =
     Inr (ec_clear, Some 1, c') \<and> find_c_stream 1 c' = Some s"
proof -
  obtain u where u: "http_parser_parse_url ''http://h/'' False http_parser_url_init = Some u" "has_field u UF_SCHEMA" "has_field u UF_HOST"
    using demo_parse by (auto split: option.splits)
  have c: "data_pending demo_session = None" "find_c_stream 1 demo_session = None" "c_session demo_session = 0"
    by (simp_all add: demo_session_def session_impl_new_def find_c_stream_def)
  have l: "submit_request (c_lib closing_env) q nva b n = (int (2 * n + 1), n + 1)"
    "mem_send (c_lib closing_env) n = Callback (On_stream_close 1 8) n (\<lambda>_ _. Returned 0 [] n)" for q nva b n
    by (simp_all add: closing_env_def demo_client_env_def quiet_lib_def)
  show ?thesis
    using close_during_submit_lost [OF demo_client_facts(1,3,4) c(1,2) u, where E = closing_env and ses = 1 and g = None] l c(3) by fastforce
qed
end
