(* ===== verification/Exchange.thy ===== *)
theory Exchange
  imports Header_Blocks Client_Requests
begin

text \<open>
  The two ends of a connection (\<open>lib/asio_client_session_impl.cc\<close> and \<open>lib/asio_server_http2_handler.cc\<close>) with
  the nghttp2 libraries in between as the assumption on what is delivered.
\<close>

section \<open>A request on both ends\<close>

text \<open>
  The library in between: \<open>deliver\<close> is what the server's header callback gets for a field the client
  submitted. The library transmits lower-case names and all values unchanged and keeps the flag of fields that
  must not be indexed.
\<close>

definition delivers :: "(nghttp2_nv \<Rightarrow> string \<times> string \<times> u8) \<Rightarrow> nghttp2_nv list \<Rightarrow> bool" where
  "delivers deliver nva \<longleftrightarrow> (\<forall>nv \<in> set nva. \<exists>flags. deliver nv = (nv_name nv, nv_value nv, flags) \<and>
     (flags AND NGHTTP2_NV_FLAG_NO_INDEX \<noteq> 0 \<longleftrightarrow> NV_FLAG_NO_INDEX \<in> nv_flags nv))"

lemma delivered_entry:
  assumes "delivers deliver (c_header_nva hm)" "(k, v) \<in> set hm"
  shows "\<exists>flags. deliver (make_nv k (hvalue v) (sensitive v)) = (k, hvalue v, flags) \<and> field_of (k, hvalue v, flags) = (k, v)"
proof -
  have "make_nv k (hvalue v) (sensitive v) \<in> set (c_header_nva hm)" using assms(2) by (force simp: c_header_nva_def)
  with assms(1) have "\<exists>flags. deliver (make_nv k (hvalue v) (sensitive v)) =
      (nv_name (make_nv k (hvalue v) (sensitive v)), nv_value (make_nv k (hvalue v) (sensitive v)), flags) \<and>
      (flags AND NGHTTP2_NV_FLAG_NO_INDEX \<noteq> 0 \<longleftrightarrow> NV_FLAG_NO_INDEX \<in> nv_flags (make_nv k (hvalue v) (sensitive v)))"
    unfolding delivers_def by (rule bspec)
  then show ?thesis by (auto simp: make_nv_def make_nv_internal_def)
qed

lemma delivered_fields:
  assumes "delivers deliver (c_header_nva hm)"
  shows "map field_of (map deliver (c_header_nva hm)) = hm"
    "\<forall>(k, v) \<in> set hm. plain_name k \<Longrightarrow> \<forall>(name, val, flags) \<in> set (map deliver (c_header_nva hm)). plain_name name"
    "map (\<lambda>(name, val, flags). length name + length val) (map deliver (c_header_nva hm)) = map (\<lambda>(k, v). length k + length (hvalue v)) hm"
proof -
  note e = delivered_entry [OF assms]
  show "map field_of (map deliver (c_header_nva hm)) = hm"
    unfolding c_header_nva_def by (simp, rule map_idI) (use e in force)
  show "\<forall>(name, val, flags) \<in> set (map deliver (c_header_nva hm)). plain_name name" if "\<forall>(k, v) \<in> set hm. plain_name k"
    unfolding c_header_nva_def using that e by fastforce
  show "map (\<lambda>(name, val, flags). length name + length val) (map deliver (c_header_nva hm)) = map (\<lambda>(k, v). length k + length (hvalue v)) hm"
    unfolding c_header_nva_def by (simp, rule ballI) (use e in force)
qed

lemma delivered_pseudo:
  assumes "delivers deliver (make_nv_ls name val # nva)"
  shows "\<exists>f. deliver (make_nv_ls name val) = (name, val, f)" "delivers deliver nva"
  using assms by (auto simp: delivers_def make_nv_ls_def)

text \<open>The path of a request line, split again.\<close>

lemma split_request_path:
  assumes "url_parts_ok sch h prt p q"
  shows "split_path (uri_ref_init\<lparr>uri_scheme := sch\<rparr>)
      ((if p = [] then ''/'' else p) @ (case q of Some (c # cs) \<Rightarrow> CHR ''?'' # c # cs | _ \<Rightarrow> [])) =
    (url_request_uri sch h prt p q)\<lparr>uri_host := uri_host uri_ref_init, uri_fragment := uri_fragment uri_ref_init\<rparr>"
proof -
  have "\<not> IS_URL_CHAR CHR ''?''" by code_simp
  then have "\<forall>c \<in> set (if p = [] then ''/'' else p). c \<noteq> CHR ''?''"
    using assms by (auto simp: url_parts_ok_def)
  then have "takeWhile (\<lambda>c. c \<noteq> CHR ''?'') ((if p = [] then ''/'' else p) @ ys) = (if p = [] then ''/'' else p) @ takeWhile (\<lambda>c. c \<noteq> CHR ''?'') ys"
    "dropWhile (\<lambda>c. c \<noteq> CHR ''?'') ((if p = [] then ''/'' else p) @ ys) = dropWhile (\<lambda>c. c \<noteq> CHR ''?'') ys" for ys
    by (blast intro: takeWhile_append2 dropWhile_append2)+
  then show ?thesis
    unfolding split_path_def url_request_uri_def uri_ref_init_def by (auto simp: Let_def split: option.split list.split)
qed

text \<open>
  The request the server assembles from the delivered fields of a client's request has the client's method, the URI
  reference the client keeps, and under every name the client's values in their order, with their sensitivity.
\<close>

lemma delivered_request:
  assumes "url_parts_ok sch h prt p q" "\<not> ipv6_numeric_addr (inet_pton E) h"
    "http_parser_parse_url (url_of sch h prt p q) False http_parser_url_init = Some u"
    "\<forall>(k, v) \<in> set hm. plain_name k" "sum_list (map (\<lambda>(k, v). length k + length (hvalue v)) hm) \<le> 65536"
    "delivers deliver (request_nva meth u (request_uri E u (url_of sch h prt p q)) hm)"
  shows "let req = recv_headers (map deliver (request_nva meth u (request_uri E u (url_of sch h prt p q)) hm)) request_impl_new
    in rq_method req = meth \<and> rq_uri req = request_uri E u (url_of sch h prt p q) \<and> hm_range k (rq_header req) = hm_range k hm"
proof -
  let ?uref = "request_uri E u (url_of sch h prt p q)" and ?hs = "map deliver (c_header_nva hm)"
  let ?path = "(if p = [] then ''/'' else p) @ (case q of Some (c # cs) \<Rightarrow> CHR ''?'' # c # cs | _ \<Rightarrow> [])"
  from request_of_url [OF assms(1,2)] assms(3) have
    u: "?uref = url_request_uri sch h prt p q" "has_field u UF_QUERY \<longleftrightarrow> (\<exists>c cs. q = Some (c # cs))" by auto
  have nva: "request_nva meth u ?uref hm = make_nv_ls '':method'' meth # make_nv_ls '':scheme'' sch # make_nv_ls '':path'' ?path #
      make_nv_ls '':authority'' (uri_host ?uref) # c_header_nva hm"
    using u by (simp add: request_nva_def url_request_uri_def Let_def split: option.split list.split)
  note d = assms(6) [unfolded nva]
  note d1 = delivered_pseudo(2) [OF d] note d2 = delivered_pseudo(2) [OF d1] note d3 = delivered_pseudo(2) [OF d2]
  note d4 = delivered_pseudo(2) [OF d3]
  obtain f1 f2 f3 f4 where f: "deliver (make_nv_ls '':method'' meth) = ('':method'', meth, f1)"
    "deliver (make_nv_ls '':scheme'' sch) = ('':scheme'', sch, f2)" "deliver (make_nv_ls '':path'' ?path) = ('':path'', ?path, f3)"
    "deliver (make_nv_ls '':authority'' (uri_host ?uref)) = ('':authority'', uri_host ?uref, f4)"
    using delivered_pseudo(1) [OF d] delivered_pseudo(1) [OF d1] delivered_pseudo(1) [OF d2] delivered_pseudo(1) [OF d3] by metis
  let ?q = "request_impl_new\<lparr>rq_method := meth, rq_uri := ?uref\<rparr>"
  have "(split_path (uri_ref_init\<lparr>uri_scheme := sch\<rparr>) ?path)\<lparr>uri_host := uri_host ?uref\<rparr> = ?uref"
    unfolding split_request_path [OF assms(1)] u(1) by (simp add: url_request_uri_def uri_ref_init_def Let_def)
  then have "recv_headers (map deliver (request_nva meth u ?uref hm)) request_impl_new = recv_headers ?hs ?q"
    unfolding nva by (simp add: recv_headers_def recv_pseudo f request_impl_new_def)
  also have "\<dots> = ?q\<lparr>rq_header := fold (\<lambda>(k, v). hm_emplace k v) hm [],
      header_buffer_size := sum_list (map (\<lambda>(k, v). length k + length (hvalue v)) hm)\<rparr>"
    using recv_plain_headers [OF delivered_fields(2) [OF d4 assms(4)], of ?q] assms(5)
    by (simp only: delivered_fields(1,3) [OF d4]) (simp add: request_impl_new_def)
  finally show ?thesis
    using hm.range_fold [OF hm.inv_empty, of k hm] by (simp add: hm.range_empty) (simp add: hm_range_def)
qed

section \<open>A response on both ends\<close>

lemma header_nva_client: "header_nva = c_header_nva"
  by (simp add: fun_eq_iff header_nva_def c_header_nva_def)

text \<open>The content length a client keeps: the last field of that name.\<close>

definition last_content_length :: "header_map \<Rightarrow> int \<Rightarrow> int" where
  "last_content_length hm l = fold (\<lambda>(k, v) l. if lookup_token k = Some HD_CONTENT_LENGTH then parse_uint (hvalue v) else l) hm l"

lemma recv_response_fields:
  assumes "\<forall>(name, val, flags) \<in> set hs. lookup_token name \<noteq> Some HD__STATUS"
    "cp_header_buffer_size res + sum_list (map (\<lambda>(name, val, flags). length name + length val) hs) \<le> 65536"
  shows "recv_response_headers hs res = res\<lparr>cp_header := fold (\<lambda>(k, v). hm_emplace k v) (map field_of hs) (cp_header res),
    cp_content_length := last_content_length (map field_of hs) (cp_content_length res),
    cp_header_buffer_size := cp_header_buffer_size res + sum_list (map (\<lambda>(name, val, flags). length name + length val) hs)\<rparr>"
  using assms
proof (induction hs arbitrary: res)
  case (Cons f hs)
  obtain name val flags where f: "f = (name, val, flags)" by (cases f) auto
  have r: "recv_response_header name val flags res = (store_response_header name val flags res, True)"
    using Cons.prems by (simp add: f recv_response_header_def)
  have "recv_response_headers (f # hs) res = recv_response_headers hs (store_response_header name val flags res)"
    by (simp add: recv_response_headers_def f r)
  also note Cons.IH [of "store_response_header name val flags res"]
  finally show ?case
    using Cons.prems by (simp add: f store_response_header_def last_content_length_def add.assoc)
qed (simp add: recv_response_headers_def last_content_length_def)

lemma recv_status:
  assumes "unat sc < 2 ^ 31"
  shows "fst (recv_response_header '':status'' (utos (unat sc)) flags res) = res\<lparr>cp_status_code := uint (sc :: u32)\<rparr>"
proof -
  have "lookup_token '':status'' = Some HD__STATUS" by code_simp
  moreover have u: "uint sc < 2 ^ 31" using of_nat_less_iff [where 'a = int, THEN iffD2, OF assms] by simp
  moreover have "parse_uint (utos (unat sc)) = int (unat sc)"
    using u utos_digit [of _ "unat sc"] by (auto simp: parse_uint_spec dec_value_utos INT64_MAX_def)
  moreover have "sint (word_of_int (int (unat sc)) :: 32 word) = uint sc"
    using signed_take_bit_int_eq_self [of 31 "uint sc"] u order_trans [OF _ uint_nonnegative, of "- 2147483648" sc] by (simp add: sint_uint)
  ultimately show ?thesis by (simp add: recv_response_header_def set_status_code_def)
qed


text \<open>What the client makes of the delivered fields of a response.\<close>

lemma delivered_response:
  assumes "delivers deliver (response_nva res date)" "unat (rs_status_code res) < 2 ^ 31"
    "\<forall>(k, v) \<in> set (rs_header res). k \<noteq> '':status''" "4 + length date + header_bytes (rs_header res) \<le> 65536"
  shows "recv_response_headers (map deliver (response_nva res date)) (c_response_new\<lparr>cp_data_cb := dcb\<rparr>) =
    c_response_new\<lparr>cp_data_cb := dcb, cp_status_code := uint (rs_status_code res),
      cp_header := fold (\<lambda>(k, v). hm_emplace k v) ((''date'', \<lparr>hvalue = date, sensitive = False\<rparr>) # rs_header res) [],
      cp_content_length := last_content_length (rs_header res) (-1),
      cp_header_buffer_size := 4 + length date + header_bytes (rs_header res)\<rparr>"
proof -
  let ?hs = "map deliver (c_header_nva (rs_header res))"
  note d = assms(1) [unfolded response_nva_def header_nva_client]
  note d1 = delivered_pseudo(2) [OF d] note d2 = delivered_pseudo(2) [OF d1]
  from delivered_pseudo(1) [OF d] obtain f1 where
    f1: "deliver (make_nv_ls '':status'' (utos (unat (rs_status_code res)))) = ('':status'', utos (unat (rs_status_code res)), f1)" by blast
  obtain f2 where f2: "deliver (make_nv_ls ''date'' date) = (''date'', date, f2)" "f2 AND NGHTTP2_NV_FLAG_NO_INDEX = 0"
    using d1 by (auto simp: delivers_def make_nv_ls_def)
  have fields: "map field_of ?hs = rs_header res"
    "map (\<lambda>(name, val, flags). length name + length val) ?hs = map (\<lambda>(k, v). length k + length (hvalue v)) (rs_header res)"
    using delivered_fields(1,3) [OF d2] .
  have hs: "name \<noteq> '':status''" if "(name, val, flags) \<in> set ?hs" for name val flags
  proof -
    from that have "field_of (name, val, flags) \<in> set (map field_of ?hs)" unfolding set_map by (rule imageI)
    then show ?thesis using assms(3) unfolding fields by auto
  qed
  have names: "\<forall>(name, val, flags) \<in> set ((''date'', date, f2) # ?hs). lookup_token name \<noteq> Some HD__STATUS"
    unfolding list.set using hs by (auto simp: lookup_token_iff image_iff) metis
  let ?r = "c_response_new\<lparr>cp_data_cb := dcb, cp_status_code := uint (rs_status_code res)\<rparr>"
  have date: "lookup_token ''date'' \<noteq> Some HD_CONTENT_LENGTH" by (simp add: lookup_token_iff)
  have "recv_response_headers (map deliver (response_nva res date)) (c_response_new\<lparr>cp_data_cb := dcb\<rparr>) =
      recv_response_headers ((''date'', date, f2) # ?hs) ?r"
    by (simp add: response_nva_def header_nva_client recv_response_headers_def f1 f2(1) recv_status [OF assms(2)])
  also have "\<dots> = ?r\<lparr>cp_header := fold (\<lambda>(k, v). hm_emplace k v) ((''date'', \<lparr>hvalue = date, sensitive = False\<rparr>) # rs_header res) [],
      cp_content_length := last_content_length (rs_header res) (-1),
      cp_header_buffer_size := 4 + length date + header_bytes (rs_header res)\<rparr>"
    using recv_response_fields [OF names, of ?r] assms(4) f2(2) date fields
    by (simp add: c_response_new_def header_bytes_def last_content_length_def del: map_map)
  finally show ?thesis by simp
qed

section \<open>A pushed request on both ends\<close>

lemma recv_push_plain:
  assumes "plain_name name" "cq_header_buffer_size req + (length name + length val) \<le> 65536"
  shows "recv_push_header name val flags req = (store_request_header name val flags req, True)"
  using assms by (auto simp: recv_push_header_def plain_name_def Let_def split: option.split hd_token.split)

lemma recv_push_fields:
  assumes "\<forall>(name, val, flags) \<in> set hs. plain_name name"
    "cq_header_buffer_size req + sum_list (map (\<lambda>(name, val, flags). length name + length val) hs) \<le> 65536"
  shows "recv_push_headers hs req = req\<lparr>cq_header := fold (\<lambda>(k, v). hm_emplace k v) (map field_of hs) (cq_header req),
    cq_header_buffer_size := cq_header_buffer_size req + sum_list (map (\<lambda>(name, val, flags). length name + length val) hs)\<rparr>"
  using assms
proof (induction hs arbitrary: req)
  case (Cons f hs)
  obtain name val flags where f: "f = (name, val, flags)" by (cases f) auto
  have "recv_push_headers (f # hs) req = recv_push_headers hs (store_request_header name val flags req)"
    using Cons.prems by (simp add: recv_push_headers_def f recv_push_plain)
  also note Cons.IH [of "store_request_header name val flags req"]
  finally show ?case
    using Cons.prems by (simp add: f store_request_header_def add.assoc)
qed (simp add: recv_push_headers_def)

lemma recv_push_pseudo:
  "recv_push_header '':method'' val flags req = (req\<lparr>cq_method := val\<rparr>, True)"
  "recv_push_header '':scheme'' val flags req = (req\<lparr>cq_uri := (cq_uri req)\<lparr>uri_scheme := val\<rparr>\<rparr>, True)"
  "recv_push_header '':authority'' val flags req = (req\<lparr>cq_uri := (cq_uri req)\<lparr>uri_host := val\<rparr>\<rparr>, True)"
  "recv_push_header '':path'' val flags req = (req\<lparr>cq_uri := split_path (cq_uri req) val\<rparr>, True)"
proof -
  have "lookup_token '':method'' = Some HD__METHOD" "lookup_token '':scheme'' = Some HD__SCHEME"
    "lookup_token '':authority'' = Some HD__AUTHORITY" "lookup_token '':path'' = Some HD__PATH" by (simp_all add: lookup_token_iff)
  then show "recv_push_header '':method'' val flags req = (req\<lparr>cq_method := val\<rparr>, True)"
    "recv_push_header '':scheme'' val flags req = (req\<lparr>cq_uri := (cq_uri req)\<lparr>uri_scheme := val\<rparr>\<rparr>, True)"
    "recv_push_header '':authority'' val flags req = (req\<lparr>cq_uri := (cq_uri req)\<lparr>uri_host := val\<rparr>\<rparr>, True)"
    "recv_push_header '':path'' val flags req = (req\<lparr>cq_uri := split_path (cq_uri req) val\<rparr>, True)"
    by (simp_all add: recv_push_header_def)
qed

lemma delivered_push:
  assumes "delivers deliver (push_nva meth uri raw hm)" "\<forall>(k, v) \<in> set hm. plain_name k" "header_bytes hm \<le> 65536"
    "req = recv_push_headers (map deliver (push_nva meth uri raw hm)) c_request_new"
  shows "cq_method req = meth \<and>
    cq_uri req = split_path (uri_ref_init\<lparr>uri_scheme := uri_scheme uri, uri_host := uri_host uri\<rparr>) raw \<and>
    hm_range k (cq_header req) = hm_range k hm"
proof -
  let ?hs = "map deliver (c_header_nva hm)"
  note d = assms(1) [unfolded push_nva_def header_nva_client]
  note d1 = delivered_pseudo(2) [OF d] note d2 = delivered_pseudo(2) [OF d1] note d3 = delivered_pseudo(2) [OF d2]
  note d4 = delivered_pseudo(2) [OF d3]
  obtain f1 f2 f3 f4 where f: "deliver (make_nv_ls '':method'' meth) = ('':method'', meth, f1)"
    "deliver (make_nv_ls '':scheme'' (uri_scheme uri)) = ('':scheme'', uri_scheme uri, f2)"
    "deliver (make_nv_ls '':authority'' (uri_host uri)) = ('':authority'', uri_host uri, f3)"
    "deliver (make_nv_ls '':path'' raw) = ('':path'', raw, f4)"
    using delivered_pseudo(1) [OF d] delivered_pseudo(1) [OF d1] delivered_pseudo(1) [OF d2] delivered_pseudo(1) [OF d3] by metis
  let ?q = "c_request_new\<lparr>cq_method := meth,
    cq_uri := split_path (uri_ref_init\<lparr>uri_scheme := uri_scheme uri, uri_host := uri_host uri\<rparr>) raw\<rparr>"
  have "req = recv_push_headers ?hs ?q"
    unfolding assms(4) push_nva_def header_nva_client by (simp add: recv_push_headers_def recv_push_pseudo f c_request_new_def)
  also have "\<dots> = ?q\<lparr>cq_header := fold (\<lambda>(k, v). hm_emplace k v) hm [], cq_header_buffer_size := header_bytes hm\<rparr>"
    using recv_push_fields [OF delivered_fields(2) [OF d4 assms(2)], of ?q] assms(3)
    by (simp only: delivered_fields(1,3) [OF d4] flip: header_bytes_def) (simp add: c_request_new_def)
  finally show ?thesis
    using hm.range_fold [OF hm.inv_empty, of k hm] by (simp add: hm.range_empty) (simp add: hm_range_def)
qed

section \<open>A small instance\<close>

definition demo_deliver :: "nghttp2_nv \<Rightarrow> string \<times> string \<times> u8" where
  "demo_deliver nv = (nv_name nv, nv_value nv, if NV_FLAG_NO_INDEX \<in> nv_flags nv then 1 else 0)"

lemma demo_delivers: "delivers demo_deliver nva"
  by (simp add: delivers_def demo_deliver_def NGHTTP2_NV_FLAG_NO_INDEX_def)

end
