(* ===== verification/Body_Exchange.thy ===== *)
theory Body_Exchange
  imports Header_Blocks
begin

text \<open>
  Bodies on both ends (\<open>response_impl::end\<close> with the string generator of \<open>lib/asio_common.cc\<close> and the data source callback of
  \<open>lib/asio_server_http2_handler.cc\<close>, and the data callback of \<open>lib/asio_client_session_impl.cc\<close>): the bytes of a body leave the server in order
  whatever happens between the reads, and reach the application of the client.
\<close>

section \<open>A body that is being sent\<close>

definition sends_body :: "int \<Rightarrow> generator_cb \<Rightarrow> ('s, 'u) http2_handler \<Rightarrow> bool" where
  "sends_body sid g h \<longleftrightarrow> (\<exists>s. find_stream sid h = Some s \<and> rs_state (strm_response s) = BODY_STARTED \<and>
     rs_generator (strm_response s) = Some g)"

definition settles :: "('h \<Rightarrow> bool) \<Rightarrow> fault + 'h \<Rightarrow> bool" where
  "settles P m \<longleftrightarrow> (\<forall>h. m = Inr h \<longrightarrow> P h)"

lemma settles_simps [simp]: "settles P (Inr h) = P h" "settles P (Inl e)"
  by (simp_all add: settles_def)

named_theorems body_intros

lemma settles_bind [body_intros]: "settles P m \<Longrightarrow> (\<And>h. P h \<Longrightarrow> settles P (f h)) \<Longrightarrow> settles P (bind_f m f)"
  by (cases m) simp_all

lemma settles_stream [body_intros]: "(\<And>s. find_stream sid h = Some s \<Longrightarrow> settles P (f s)) \<Longrightarrow> settles P (bind_f (the_stream sid h) f)"
  by (cases "find_stream sid h") (simp_all add: the_stream_def)

lemma settles_if [body_intros]: "(b \<Longrightarrow> settles P m) \<Longrightarrow> (\<not> b \<Longrightarrow> settles P m') \<Longrightarrow> settles P (if b then m else m')"
  by simp

lemma sends_frame [simp]:
  "sends_body sid g (h\<lparr>session := x\<rparr>) = sends_body sid g h" "sends_body sid g (h\<lparr>app_state := u\<rparr>) = sends_body sid g h"
  "sends_body sid g (signal_write h) = sends_body sid g h" "sends_body sid g (stream_error E i ec h) = sends_body sid g h"
  "sends_body sid g (handler_resume E i h) = sends_body sid g h" "sends_body sid g (snd (submit_trailer E i hm h)) = sends_body sid g h"
  "sends_body sid g (snd (start_response E i s h)) = sends_body sid g h"
  by (simp_all add: sends_body_def) (simp add: find_stream_def)

lemma sends_put [simp]:
  "sends_body sid g h \<Longrightarrow> find_stream i h = Some s \<Longrightarrow>
     rs_generator (strm_response s') = rs_generator (strm_response s) \<Longrightarrow>
     rs_state (strm_response s') \<in> {rs_state (strm_response s), BODY_STARTED} \<Longrightarrow> sends_body sid g (put_stream i s' h)"
  by (auto simp: sends_body_def find_put_stream)

lemma sends_other: "sends_body sid g h \<Longrightarrow> i \<noteq> sid \<Longrightarrow> sends_body sid g (put_stream i s h)"
  by (simp add: sends_body_def find_put_stream)

lemma upd_sends [body_intros]:
  "sends_body sid g h \<Longrightarrow> (\<And>r. rs_generator (f r) = rs_generator r \<and> rs_state (f r) \<in> {rs_state r, BODY_STARTED}) \<Longrightarrow>
     settles (sends_body sid g) (upd_response i f h)"
  "sends_body sid g h \<Longrightarrow> settles (sends_body sid g) (upd_request i q h)"
  unfolding upd_response_def upd_request_def by (rule settles_stream, simp)+

lemma upd_other: "sends_body sid g h \<Longrightarrow> i \<noteq> sid \<Longrightarrow> settles (sends_body sid g) (upd_response i f h)"
  unfolding upd_response_def by (rule settles_stream) (simp add: sends_other)

lemma start_sends [body_intros]: "sends_body sid g h \<Longrightarrow> settles (sends_body sid g) (res_start_response E i h)"
  unfolding res_start_response_def split_beta by (intro body_intros) auto

text \<open>The head of a stream whose body is being sent is not written again; others do not matter.\<close>

lemma write_head_sends [body_intros]:
  assumes "sends_body sid g h"
  shows "settles (sends_body sid g) (write_head E i sc hm h)"
proof (cases "i = sid")
  case True
  with assms show ?thesis by (auto simp: write_head_def the_stream_def sends_body_def)
next
  case False
  with assms show ?thesis
    unfolding write_head_def Let_def by (intro settles_stream settles_if settles_bind [OF upd_other] start_sends) auto
qed

lemma end_generator_sends [body_intros]:
  assumes "sends_body sid g h"
  shows "settles (sends_body sid g) (end_generator E i g' h)"
proof (cases "i = sid")
  case True
  with assms show ?thesis by (auto simp: end_generator_def the_stream_def sends_body_def)
next
  case False
  with assms show ?thesis
    unfolding end_generator_def Let_def
    by (intro settles_stream settles_if settles_bind [OF upd_other] settles_bind [OF settles_if] upd_other write_head_sends) auto
qed

lemma promise_sends [body_intros]: "sends_body sid g h \<Longrightarrow> settles (sends_body sid g) (push_promise_was_sent E i h)"
  unfolding push_promise_was_sent_def Let_def by (intro body_intros) auto

lemma res_op_sends [body_intros]: "sends_body sid g h \<Longrightarrow> settles (sends_body sid g) (run_res_op E i op h)"
  unfolding run_res_op_def end_string_def by (cases op; simp only: res_op.case; intro body_intros) auto

lemma push_sends:
  assumes "sends_body sid g h" "\<And>ec r h'. sends_body sid g h' \<Longrightarrow> settles (sends_body sid g) (f ec r h')"
  shows "settles (sends_body sid g) (bind_f (push_promise E i meth raw hm h) (\<lambda>(ec, r, h'). f ec r h'))"
proof -
  have new: "find_stream j h = None \<Longrightarrow> j \<noteq> sid" for j using assms(1) by (auto simp: sends_body_def)
  then show ?thesis
    using assms by (cases "find_stream i h") (auto simp: push_promise_cases the_stream_def Let_def sends_other split: prod.split)
qed

lemma run_prog_sends [body_intros]: "sends_body sid g h \<Longrightarrow> settles (sends_body sid g) (run_prog E p h)"
  by (induction p arbitrary: h rule: user_prog_induct; simp only: run_prog.simps; (intro body_intros push_sends)?; simp)

lemma user_sends [body_intros]:
  "sends_body sid g h \<Longrightarrow> settles (sends_body sid g) (run_user E f h)"
  "sends_body sid g h \<Longrightarrow> settles (sends_body sid g) (run_callback E k arg h)"
  "sends_body sid g h \<Longrightarrow> settles (sends_body sid g) (call_on_data E i data h)"
  by (auto simp: run_callback_def call_on_data_def run_user_def split_beta intro!: body_intros split: option.split)

lemma request_sends [body_intros]: "sends_body sid g h \<Longrightarrow> settles (sends_body sid g) (call_on_request E i h)"
  unfolding call_on_request_def by (intro body_intros) (auto intro: body_intros split: sum.split)

section \<open>Callbacks\<close>

lemma create_sends: "sends_body sid g h \<Longrightarrow> settles (sends_body sid g) (create_stream i h)"
  by (cases "find_stream i h") (auto simp: create_stream_put sends_body_def find_put_stream)

lemma dispatch_sends:
  assumes "sends_body sid g h" "\<And>len flags. ev \<noteq> Read_data sid len flags" "\<And>ec. ev \<noteq> On_stream_close sid ec"
    "dispatch E ev h = Inr (a, h')"
  shows "sends_body sid g h'"
proof -
  have zero: "settles (sends_body sid g) m \<Longrightarrow> bind_f m (\<lambda>h'. Inr (Code 0, h')) = Inr (a, h') \<Longrightarrow> sends_body sid g h'" for m
    by (auto simp: bind_f_Inr)
  show ?thesis
  proof (cases ev)
    case (Read_data i len flags)
    then have "i \<noteq> sid" using assms(2) by auto
    with Read_data assms(1,4) show ?thesis
      by (auto simp: dispatch_def read_callback_def bind_f_Inr the_stream_def sends_other split: option.splits prod.splits)
  next
    case (On_stream_close i ec)
    have "sends_body sid g h1 \<Longrightarrow> sends_body sid g (close_stream i h1)" for h1 :: "('a, 'b) http2_handler"
      using On_stream_close assms(3) by (auto simp: sends_body_def close_stream_def find_stream_def)
    then have "settles (sends_body sid g) (on_stream_close_callback E i ec h)"
      unfolding on_stream_close_callback_def using assms(1) by (auto intro!: body_intros split: option.split)
    with On_stream_close assms(4) zero show ?thesis by (simp add: dispatch_def)
  next
    case (On_begin_headers fr)
    have "settles (sends_body sid g) (on_begin_headers_callback fr h)"
      using assms(1) create_sends [OF assms(1)] by (simp add: on_begin_headers_callback_def)
    with On_begin_headers assms(4) zero show ?thesis by (simp add: dispatch_def)
  next
    case (On_header fr name val flags)
    with assms show ?thesis
      by (auto simp: dispatch_def on_header_callback_def bind_f_Inr Let_def split: if_splits option.splits prod.splits)
  next
    case (On_frame_recv fr)
    have "settles (sends_body sid g) (on_frame_recv_callback E fr h)"
      unfolding on_frame_recv_callback_def Let_def using assms(1) by (auto intro!: body_intros split: option.split frame_type.split)
    with On_frame_recv assms(4) zero show ?thesis by (simp add: dispatch_def)
  next
    case (On_data_chunk_recv i data)
    have "settles (sends_body sid g) (on_data_chunk_recv_callback E i data h)"
      unfolding on_data_chunk_recv_callback_def using assms(1) by (auto intro!: body_intros split: option.split)
    with On_data_chunk_recv assms(4) zero show ?thesis by (simp add: dispatch_def)
  next
    case (On_frame_send fr)
    have "settles (sends_body sid g) (on_frame_send_callback E fr h)"
      unfolding on_frame_send_callback_def using assms(1) by (auto intro!: body_intros split: option.split)
    with On_frame_send assms(4) zero show ?thesis by (simp add: dispatch_def)
  next
    case (On_frame_not_send fr err)
    with assms show ?thesis by (auto simp: dispatch_def on_frame_not_send_callback_def)
  qed
qed

lemma dispatch_read:
  assumes "sends_body sid (string_generator_at data left) h"
  shows "\<exists>h'. dispatch E (Read_data sid len flags) h =
      Inr (Read_result (int (min len left)) (take (min len left) (drop (length data - left) data))
        (if left \<le> len then flags OR NGHTTP2_DATA_FLAG_EOF else flags), h') \<and>
    sends_body sid (string_generator_at data (left - min len left)) h'"
  using assms
  by (auto simp: sends_body_def dispatch_def read_callback_def the_stream_def call_read_def strio_call_def Let_def)

text \<open>Giving a string as the body of a response that has none yet succeeds, and the body is being sent.\<close>

definition succeeds :: "('h \<Rightarrow> bool) \<Rightarrow> fault + 'h \<Rightarrow> bool" where
  "succeeds P m \<longleftrightarrow> (\<exists>h. m = Inr h \<and> P h)"

lemma succeeds_bind: "succeeds P m \<Longrightarrow> (\<And>h. P h \<Longrightarrow> succeeds Q (f h)) \<Longrightarrow> succeeds Q (bind_f m f)"
  by (auto simp: succeeds_def)

definition has_generator :: "int \<Rightarrow> generator_cb \<Rightarrow> ('s, 'u) http2_handler \<Rightarrow> bool" where
  "has_generator sid g h \<longleftrightarrow> (\<exists>s. find_stream sid h = Some s \<and> rs_generator (strm_response s) = Some g)"

lemma upd_generator:
  "has_generator sid g h \<Longrightarrow> (\<And>r. rs_generator (f r) = rs_generator r) \<Longrightarrow> succeeds (has_generator sid g) (upd_response sid f h)"
  by (auto simp: succeeds_def has_generator_def upd_response_find)

lemma start_generator:
  assumes "has_generator sid g h"
  shows "succeeds (has_generator sid g) (res_start_response E sid h)"
proof -
  have s: "has_generator sid g h \<Longrightarrow> succeeds (has_generator sid g) (bind_f (the_stream sid h) f)"
    if "\<And>s. succeeds (has_generator sid g) (f s)" for f and h :: "('a, 'b) http2_handler"
    using that by (auto simp: has_generator_def the_stream_def)
  have fin: "succeeds (has_generator sid g) (bind_f (the_stream sid h) (\<lambda>s1. case start_response E sid s1 h of (rv, h2) \<Rightarrow>
      if rv \<noteq> 0 then Inr (stream_error E sid NGHTTP2_INTERNAL_ERROR h2) else Inr h2))" if "has_generator sid g h" for h
    using that by (auto simp: succeeds_def has_generator_def the_stream_def split_beta)
  have "succeeds (has_generator sid g) (if b then upd_response sid (\<lambda>r. r\<lparr>rs_state := BODY_STARTED\<rparr>) h else Inr h)" for b
    using assms upd_generator [OF assms, of "\<lambda>r. r\<lparr>rs_state := BODY_STARTED\<rparr>"] by (auto simp: succeeds_def)
  with assms show ?thesis unfolding res_start_response_def by (intro s succeeds_bind [OF _ fin])
qed

lemma head_generator:
  assumes "has_generator sid g h"
  shows "succeeds (has_generator sid g) (write_head E sid sc hm h)"
proof -
  obtain s where s: "find_stream sid h = Some s" using assms by (auto simp: has_generator_def)
  have "succeeds (has_generator sid g) (bind_f (upd_response sid (\<lambda>r. r\<lparr>rs_status_code := sc, rs_header := hm, rs_state := HEADER_DONE\<rparr>) h)
      (\<lambda>h1. if b then Inr h1 else res_start_response E sid h1))" for b
    by (rule succeeds_bind [OF upd_generator [OF assms]]) (auto simp: start_generator, simp add: succeeds_def)
  with s assms show ?thesis by (simp add: write_head_def the_stream_def Let_def) (simp add: succeeds_def)
qed

lemma end_string_sends:
  assumes "find_stream sid h = Some s" "rs_state (strm_response s) \<noteq> BODY_STARTED"
  shows "\<exists>h'. end_string E sid data h = Inr h' \<and> sends_body sid (string_generator_at data (length data)) h'"
proof -
  let ?P = "has_generator sid (string_generator data)"
  obtain h1 where h1: "upd_response sid (\<lambda>r. r\<lparr>rs_generator := Some (string_generator data)\<rparr>) h = Inr h1" "?P h1"
    using assms(1) by (auto simp: upd_response_find has_generator_def)
  have "succeeds ?P (if rs_state (strm_response s) = INITIAL then write_head E sid (rs_status_code (strm_response s)) [] h1
      else Inr (handler_resume E sid h1))"
    using h1(2) head_generator [OF h1(2)] by (auto simp: succeeds_def has_generator_def)
  then obtain h2 where h2: "(if rs_state (strm_response s) = INITIAL then write_head E sid (rs_status_code (strm_response s)) [] h1
      else Inr (handler_resume E sid h1)) = Inr h2" "?P h2" unfolding succeeds_def by blast
  have "end_string E sid data h = upd_response sid (\<lambda>r. r\<lparr>rs_state := BODY_STARTED\<rparr>) h2"
    using assms h1(1) h2(1) by (simp add: end_string_def end_generator_def the_stream_def Let_def)
  with h2(2) show ?thesis by (auto simp: sends_body_def has_generator_def upd_response_find string_generator_def)
qed

section \<open>Runs of callbacks\<close>

text \<open>Callbacks in the order the library makes them, each with the state of the library at that moment, and their answers.\<close>

fun run_events :: "(event \<Rightarrow> 'h \<Rightarrow> fault + (answer \<times> 'h)) \<Rightarrow> ('s \<Rightarrow> 'h \<Rightarrow> 'h) \<Rightarrow> (event \<times> 's) list \<Rightarrow> 'h \<Rightarrow> fault + (answer list \<times> 'h)" where
  "run_events disp store [] h = Inr ([], h)"
| "run_events disp store ((ev, x) # evs) h =
     bind_f (disp ev (store x h)) (\<lambda>(a, h1).
     bind_f (run_events disp store evs h1) (\<lambda>(as, h2). Inr (a # as, h2)))"

text \<open>The reads of one stream: the room the library offered, the bytes it got, and whether the end was reported.\<close>

fun body_reads :: "int \<Rightarrow> (event \<times> 's) list \<Rightarrow> answer list \<Rightarrow> (nat \<times> string \<times> bool) list" where
  "body_reads sid ((Read_data i len flags, x) # evs) (Read_result n bytes flags' # as) =
     (if i = sid then (len, bytes, flags' AND NGHTTP2_DATA_FLAG_EOF \<noteq> 0) # body_reads sid evs as else body_reads sid evs as)"
| "body_reads sid (_ # evs) (_ # as) = body_reads sid evs as"
| "body_reads sid _ _ = []"

abbreviation offered :: "(nat \<times> string \<times> bool) list \<Rightarrow> nat" where
  "offered rs \<equiv> sum_list (map fst rs)"

abbreviation body_bytes :: "(nat \<times> string \<times> bool) list \<Rightarrow> string" where
  "body_bytes rs \<equiv> concat (map (fst \<circ> snd) rs)"

text \<open>The library passes no flags, and does not close the stream.\<close>

definition undisturbed :: "int \<Rightarrow> (event \<times> 's) list \<Rightarrow> bool" where
  "undisturbed sid evs \<longleftrightarrow> (\<forall>(ev, x) \<in> set evs. case ev of Read_data i len flags \<Rightarrow> i = sid \<longrightarrow> flags = 0 | On_stream_close i ec \<Rightarrow> i \<noteq> sid | _ \<Rightarrow> True)"

lemma sends_session [simp]: "sends_body sid g (set_session x h) = sends_body sid g h"
  by (simp add: set_session_def)

lemma run_events_reads:
  assumes "undisturbed sid evs" "run_events (dispatch E) set_session evs h = Inr (as, h')"
    "sends_body sid (string_generator_at data left) h" "left \<le> length data"
  shows "body_bytes (body_reads sid evs as) = take (offered (body_reads sid evs as)) (drop (length data - left) data) \<and>
    (\<forall>k < length (body_reads sid evs as).
       snd (snd (body_reads sid evs as ! k)) \<longleftrightarrow> left \<le> offered (take (Suc k) (body_reads sid evs as)))"
  using assms
proof (induction evs arbitrary: h left as)
  case (Cons e evs)
  obtain ev x where e: "e = (ev, x)" by force
  from Cons.prems(2) obtain a h1 as1 where d: "dispatch E ev (set_session x h) = Inr (a, h1)"
    and r: "run_events (dispatch E) set_session evs h1 = Inr (as1, h')" and as: "as = a # as1" by (auto simp: e bind_f_Inr)
  have u: "undisturbed sid evs" using Cons.prems(1) by (simp add: undisturbed_def)
  show ?case
  proof (cases "\<exists>len flags. ev = Read_data sid len flags")
    case True
    then obtain len where ev: "ev = Read_data sid len 0" using Cons.prems(1) by (auto simp: undisturbed_def e)
    let ?n = "min len left" and ?rs = "body_reads sid evs as1" and ?rest = "drop (length data - left) data"
    from dispatch_read [of sid data left "set_session x h" E len 0] d Cons.prems(3) ev
    have a: "a = Read_result (int ?n) (take ?n ?rest) (if left \<le> len then NGHTTP2_DATA_FLAG_EOF else 0)"
      and s: "sends_body sid (string_generator_at data (left - ?n)) h1" by auto
    have l: "left - ?n \<le> length data" using Cons.prems(4) by simp
    note IH = Cons.IH [OF u r s l]
    have eof: "(if left \<le> len then NGHTTP2_DATA_FLAG_EOF else 0) AND NGHTTP2_DATA_FLAG_EOF \<noteq> (0 :: u32) \<longleftrightarrow> left \<le> len"
      by (simp add: NGHTTP2_DATA_FLAG_EOF_def)
    have rs: "body_reads sid (e # evs) as = (len, take ?n ?rest, left \<le> len) # ?rs" using eof by (simp add: e ev as a)
    have "drop (length data - (left - ?n)) data = drop ?n ?rest" using Cons.prems(4) by (simp add: add.commute)
    then have "take ?n ?rest @ take (offered ?rs) (drop (length data - (left - ?n)) data) = take (len + offered ?rs) ?rest"
      using Cons.prems(4) by (cases "len \<le> left") (simp_all add: take_add)
    moreover have "snd (snd (((len, take ?n ?rest, left \<le> len) # ?rs) ! k)) \<longleftrightarrow> left \<le> offered (take (Suc k) ((len, take ?n ?rest, left \<le> len) # ?rs))"
      if "k < length ((len, take ?n ?rest, left \<le> len) # ?rs)" for k
      using that IH by (cases k) auto
    ultimately show ?thesis using IH unfolding rs by simp
  next
    case False
    have "sends_body sid (string_generator_at data left) h1"
      by (rule dispatch_sends [OF _ _ _ d]) (use False Cons.prems(1,3) in \<open>auto simp: undisturbed_def e\<close>)
    from Cons.IH [OF u r this Cons.prems(4)] False show ?thesis by (cases ev; cases a) (simp_all add: e as)
  qed
qed simp

section \<open>The client's application\<close>

text \<open>A data callback that collects what it is given; \<open>got\<close> is what the application has collected.\<close>

definition collects :: "('s, 'u) client_env \<Rightarrow> client_cb \<Rightarrow> ('u \<Rightarrow> string) \<Rightarrow> bool" where
  "collects E k got \<longleftrightarrow> (\<forall>d u. fst (client_cbs E k (Response_data d) u) = Client_done \<and>
     got (snd (client_cbs E k (Response_data d) u)) = got u @ d)"

lemma chunks_collected:
  assumes "collects E k got"
  shows "find_c_stream sid c = Some s \<Longrightarrow> cp_data_cb (cs_response s) = Some k \<Longrightarrow>
    \<exists>as c'. run_events (c_dispatch E) set_c_session (map (\<lambda>(d, x). (On_data_chunk_recv sid d, x)) ds) c = Inr (as, c') \<and>
      got (c_app c') = got (c_app c) @ concat (map fst ds)"
proof (induction ds arbitrary: c)
  case (Cons e ds)
  obtain d x where e: "e = (d, x)" by force
  obtain u where u: "client_cbs E k (Response_data d) (c_app c) = (Client_done, u)" "got u = got (c_app c) @ d"
    using assms by (metis collects_def prod.collapse)
  let ?c = "(set_c_session x c)\<lparr>c_app := u\<rparr>"
  have d: "c_dispatch E (On_data_chunk_recv sid d) (set_c_session x c) = Inr (Code 0, ?c)"
    using Cons.prems u(1)
    by (simp add: c_dispatch_def c_on_data_chunk_recv_callback_def c_call_on_data_def run_client_cb_def find_c_stream_def the_c_stream_def
        set_c_session_def)
  have "find_c_stream sid ?c = Some s" using Cons.prems(1) by (simp add: find_c_stream_def set_c_session_def)
  from Cons.IH [OF this Cons.prems(2)] obtain as c' where
    "run_events (c_dispatch E) set_c_session (map (\<lambda>(d, x). (On_data_chunk_recv sid d, x)) ds) ?c = Inr (as, c')"
    "got (c_app c') = got u @ concat (map fst ds)" by auto
  with d u(2) show ?case by (simp add: e)
qed simp

section \<open>Properties\<close>

text \<open>
  C6: a response body arrives as the server's application gave it. After \<open>end(data)\<close> on a response whose body was not started, whatever
  callbacks the library makes and whatever the application does in them, short of closing the stream, the reads of the stream return the body
  from its beginning, in order, exactly as many bytes as there was room for, and the end of the body is reported by a read if
  and only if all of it has been returned then. When the library carries these bytes to the client, in chunks of any size, the
  client's data callback collects exactly them.
\<close>

theorem body_reaches_client:
  assumes "find_stream sid sh = Some ss" "rs_state (strm_response ss) \<noteq> BODY_STARTED" "end_string ES sid data sh = Inr sh1"
    "undisturbed sid evs" "run_events (dispatch ES) set_session evs sh1 = Inr (as, sh2)" "rs = body_reads sid evs as"
    "concat (map fst ds) = body_bytes rs"
    "find_c_stream cid c = Some s" "cp_data_cb (cs_response s) = Some k" "collects E k got"
  shows "(\<forall>i < length rs. snd (snd (rs ! i)) \<longleftrightarrow> length data \<le> offered (take (Suc i) rs)) \<and>
    (\<exists>as' c'. run_events (c_dispatch E) set_c_session (map (\<lambda>(d, x). (On_data_chunk_recv cid d, x)) ds) c = Inr (as', c') \<and>
      got (c_app c') = got (c_app c) @ take (offered rs) data)"
proof -
  from end_string_sends [OF assms(1,2), of ES data] assms(3) have "sends_body sid (string_generator_at data (length data)) sh1" by simp
  from run_events_reads [OF assms(4,5) this order_refl]
  have "body_bytes rs = take (offered rs) data" "\<forall>i < length rs. snd (snd (rs ! i)) \<longleftrightarrow> length data \<le> offered (take (Suc i) rs)"
    unfolding assms(6) by simp_all
  with chunks_collected [OF assms(10,8,9), of ds] assms(7) show ?thesis by simp
qed

definition collecting_env :: "(nat, string) client_env" where
  "collecting_env = \<lparr>c_lib = quiet_lib, client_cbs = (\<lambda>_ arg u. (Client_done, case arg of Response_data d \<Rightarrow> u @ d | _ \<Rightarrow> u)),
     inet_pton = (\<lambda>_ _. 0), clock = 0\<rparr>"

definition collecting_session :: "(nat, string) session_impl" where
  "collecting_session = (session_impl_new 60 0 [])\<lparr>c_streams := [(1, c_stream_new\<lparr>cs_response := c_response_new\<lparr>cp_data_cb := Some 0\<rparr>\<rparr>)]\<rparr>"

text \<open>Three reads with room for two bytes, and one chunk with all of them.\<close>

theorem body_reaches_client_witness:
  "\<exists>as' c'. run_events (c_dispatch collecting_env) set_c_session [(On_data_chunk_recv 1 ''hello'', 0)] collecting_session = Inr (as', c') \<and>
     c_app c' = ''hello''"
proof -
  let ?evs = "[(Read_data 1 2 0, 0), (Read_data 1 2 0, 0), (Read_data 1 2 0, 0)] :: (event \<times> nat) list"
  let ?g = "string_generator_at ''hello''"
  have ss: "rs_state (strm_response stream_new) \<noteq> BODY_STARTED" by (simp add: response_impl_new_def)
  from end_string_sends [OF demo_handler_facts(4) ss, of demo_env "''hello''"] obtain sh1 where
    sh1: "end_string demo_env 1 ''hello'' demo_handler = Inr sh1" "sends_body 1 (?g 5) sh1" by (auto simp: eval_nat_numeral)
  have read: "sends_body 1 (?g l) h \<Longrightarrow> \<exists>h'. dispatch demo_env (Read_data 1 2 0) (set_session 0 h) = Inr (Read_result (int (min 2 l))
      (take (min 2 l) (drop (length ''hello'' - l) ''hello'')) (if l \<le> 2 then 0 OR NGHTTP2_DATA_FLAG_EOF else 0), h') \<and> sends_body 1 (?g (l - min 2 l)) h'"
    for l and h :: "(nat, unit) http2_handler" by (rule dispatch_read) simp
  from read [OF sh1(2)] obtain h1 where h1: "dispatch demo_env (Read_data 1 2 0) (set_session 0 sh1) = Inr (Read_result 2 ''he'' 0, h1)"
    "sends_body 1 (?g 3) h1" by auto
  from read [OF h1(2)] obtain h2 where h2: "dispatch demo_env (Read_data 1 2 0) (set_session 0 h1) = Inr (Read_result 2 ''ll'' 0, h2)"
    "sends_body 1 (?g 1) h2" by auto
  from read [OF h2(2)] obtain h3 where h3: "dispatch demo_env (Read_data 1 2 0) (set_session 0 h2) = Inr (Read_result 1 ''o'' NGHTTP2_DATA_FLAG_EOF, h3)"
    by auto
  let ?as = "[Read_result 2 ''he'' 0, Read_result 2 ''ll'' 0, Read_result 1 ''o'' NGHTTP2_DATA_FLAG_EOF]"
  have run: "run_events (dispatch demo_env) set_session ?evs sh1 = Inr (?as, h3)" by (simp add: h1(1) h2(1) h3)
  have u: "undisturbed 1 ?evs" by (simp add: undisturbed_def)
  have bytes: "concat (map fst [(''hello'', 0 :: nat)]) = body_bytes (body_reads 1 ?evs ?as)" by simp
  have c: "find_c_stream 1 collecting_session = Some (c_stream_new\<lparr>cs_response := c_response_new\<lparr>cp_data_cb := Some 0\<rparr>\<rparr>)"
    "cp_data_cb (cs_response (c_stream_new\<lparr>cs_response := c_response_new\<lparr>cp_data_cb := Some 0\<rparr>\<rparr>)) = Some 0"
    by (simp_all add: collecting_session_def find_c_stream_def om_find_def)
  have col: "collects collecting_env 0 (\<lambda>u. u)" by (simp add: collects_def collecting_env_def)
  from body_reaches_client [OF demo_handler_facts(4) ss sh1(1) u run refl bytes c col] show ?thesis
    by (simp add: collecting_session_def session_impl_new_def)
qed

end
