(* ===== verification/Tls_Context.thy ===== *)
theory Tls_Context
  imports Common Alpn
begin

text \<open>
  \<open>lib/asio_server_tls_context.cc\<close>, \<open>lib/asio_client_tls_context.cc\<close>, \<open>lib/tls.h\<close>: what the library sets on a TLS context, with the protocol selection callbacks it installs. The
  numeric values of the TLS library's options and \<open>inet_pton\<close> are parameters; the TLS library is built with NPN
  and ALPN.
\<close>

unbundle bit_operations_syntax

section \<open>Contexts\<close>

datatype tlsext_result = SSL_TLSEXT_ERR_OK | SSL_TLSEXT_ERR_NOACK

text \<open>A selection callback answers with the offset and the length of the selected name in the offered list.\<close>

type_synonym select_cb = "string \<Rightarrow> tlsext_result \<times> (nat \<times> nat) option"

record openssl =
  SSL_OP_ALL :: "64 word"
  SSL_OP_DONT_INSERT_EMPTY_FRAGMENTS :: "64 word"
  SSL_OP_NO_SSLv2 :: "64 word"
  SSL_OP_NO_SSLv3 :: "64 word"
  SSL_OP_NO_COMPRESSION :: "64 word"
  SSL_OP_NO_SESSION_RESUMPTION_ON_RENEGOTIATION :: "64 word"
  SSL_OP_SINGLE_ECDH_USE :: "64 word"
  SSL_OP_NO_TICKET :: "64 word"
  SSL_OP_CIPHER_SERVER_PREFERENCE :: "64 word"
  SSL_MODE_AUTO_RETRY :: "64 word"
  SSL_MODE_RELEASE_BUFFERS :: "64 word"
  prime256v1_available :: bool

record ssl_ctx =
  ctx_options :: "64 word"
  ctx_mode :: "64 word"
  ctx_cipher_list :: "string option"
  ctx_tmp_ecdh :: bool
  next_protos_advertised :: "string option"
  alpn_select :: "select_cb option"
  next_proto_select :: "select_cb option"
  alpn_protos :: "string option"

definition DEFAULT_CIPHER_LIST :: string where
  "DEFAULT_CIPHER_LIST =
     ''ECDHE-ECDSA-AES128-GCM-SHA256:ECDHE-RSA-AES128-GCM-SHA256:ECDHE-ECDSA-'' @
     ''AES256-GCM-SHA384:ECDHE-RSA-AES256-GCM-SHA384:ECDHE-ECDSA-CHACHA20-'' @
     ''POLY1305:ECDHE-RSA-CHACHA20-POLY1305:DHE-RSA-AES128-GCM-SHA256:DHE-RSA-'' @
     ''AES256-GCM-SHA384''"

section \<open>Server\<close>

definition get_alpn_token :: string where
  "get_alpn_token = get_default_alpn"

definition alpn_select_proto_cb :: select_cb where
  "alpn_select_proto_cb inp =
     (case select_h2 inp of None \<Rightarrow> (SSL_TLSEXT_ERR_NOACK, None) | Some out \<Rightarrow> (SSL_TLSEXT_ERR_OK, Some out))"

definition server_ssl_opts :: "openssl \<Rightarrow> 64 word" where
  "server_ssl_opts L =
     (SSL_OP_ALL L AND NOT (SSL_OP_DONT_INSERT_EMPTY_FRAGMENTS L)) OR SSL_OP_NO_SSLv2 L OR SSL_OP_NO_SSLv3 L OR
     SSL_OP_NO_COMPRESSION L OR SSL_OP_NO_SESSION_RESUMPTION_ON_RENEGOTIATION L OR SSL_OP_SINGLE_ECDH_USE L OR
     SSL_OP_NO_TICKET L OR SSL_OP_CIPHER_SERVER_PREFERENCE L"

definition configure_tls_context_easy :: "openssl \<Rightarrow> ssl_ctx \<Rightarrow> error_code \<times> ssl_ctx" where
  "configure_tls_context_easy L ctx =
     (ec_clear,
      ctx\<lparr>ctx_options := ctx_options ctx OR server_ssl_opts L,
          ctx_mode := ctx_mode ctx OR SSL_MODE_AUTO_RETRY L OR SSL_MODE_RELEASE_BUFFERS L,
          ctx_cipher_list := Some DEFAULT_CIPHER_LIST,
          ctx_tmp_ecdh := ctx_tmp_ecdh ctx \<or> prime256v1_available L,
          next_protos_advertised := Some get_alpn_token,
          alpn_select := Some alpn_select_proto_cb\<rparr>)"

section \<open>Client\<close>

definition client_select_next_proto_cb :: select_cb where
  "client_select_next_proto_cb inp =
     (case select_h2 inp of None \<Rightarrow> (SSL_TLSEXT_ERR_NOACK, None) | Some out \<Rightarrow> (SSL_TLSEXT_ERR_OK, Some out))"

definition configure_tls_context :: "ssl_ctx \<Rightarrow> error_code \<times> ssl_ctx" where
  "configure_tls_context ctx =
     (ec_clear, ctx\<lparr>next_proto_select := Some client_select_next_proto_cb, alpn_protos := Some get_default_alpn\<rparr>)"

text \<open>What the constructor of the TLS session sets on its socket: the name to verify, and the server name indication unless the host
  is a numeric address.\<close>

record tls_socket =
  verify_name :: string
  tlsext_host_name :: "string option"

definition session_tls_impl_new :: "inet_pton \<Rightarrow> string \<Rightarrow> tls_socket" where
  "session_tls_impl_new inet_pton host =
     \<lparr>verify_name = host, tlsext_host_name = (if \<not> numeric_host inet_pton host then Some host else None)\<rparr>"

section \<open>Selected protocols\<close>

lemma select_proto_slice:
  assumes "select_proto (alpn_entry k) buf p = Some (out, outlen)" "length k < 256"
  shows "out + outlen \<le> length buf \<and> take outlen (drop out buf) = k"
  using assms(1)
proof (induction "alpn_entry k" buf p rule: select_proto.induct)
  case (1 buf p)
  show ?case
  proof (cases "p + length (alpn_entry k) \<le> length buf \<and> take (length (alpn_entry k)) (drop p buf) = alpn_entry k")
    case True
    then have p: "p < length buf" and t: "take (Suc (length k)) (drop p buf) = char_of (length k) # k"
      by (simp_all add: alpn_entry_def)
    from t p have "buf ! p = char_of (length k)" "take (length k) (drop (Suc p) buf) = k"
      by (simp_all flip: Cons_nth_drop_Suc)
    moreover from True 1(2) have "out = p + 1" "outlen = of_char (buf ! p)"
      by (simp_all add: select_proto.simps [of "alpn_entry k"])
    ultimately show ?thesis using assms(2) True by simp
  next
    case False
    with 1(2) show ?thesis by (intro 1(1)) (auto simp: select_proto.simps [of "alpn_entry k" buf p] split: if_splits)
  qed
qed

lemma select_h2_slice:
  assumes "select_h2 buf = Some (out, outlen)"
  shows "out + outlen \<le> length buf \<and> check_h2_is_selected (take outlen (drop out buf))"
  using assms select_proto_slice [of NGHTTP2_H2 buf 0 out outlen] select_proto_slice [of NGHTTP2_H2_16 buf 0 out outlen]
    select_proto_slice [of NGHTTP2_H2_14 buf 0 out outlen]
  by (auto simp: select_h2_def alpn_keys check_h2_is_selected_def streq_def NGHTTP2_H2_def NGHTTP2_H2_16_def NGHTTP2_H2_14_def
      split: option.splits)

section \<open>Properties\<close>

text \<open>
  C25: the protocol negotiation of the two sides fits together. On every list a peer offers, well formed or
  not, the callback of a configured server accepts only a name that lies inside the list and passes the check the
  connection makes after the handshake, and it refuses only by not acknowledging; a configured client and a
  configured server agree on \<open>h2\<close>, by ALPN and by NPN; and the server's context excludes the old protocol versions,
  compression and tickets.
\<close>

theorem tls_contexts_negotiate:
  assumes "configure_tls_context_easy L sctx = (ec, s)" "configure_tls_context cctx = (ec', c)"
  shows "\<exists>select npn protos adv. alpn_select s = Some select \<and> next_proto_select c = Some npn \<and>
    alpn_protos c = Some protos \<and> next_protos_advertised s = Some adv \<and>
    (case select offered of
       (r, Some (out, outlen)) \<Rightarrow>
         r = SSL_TLSEXT_ERR_OK \<and> out + outlen \<le> length offered \<and> tls_h2_negotiated None (Some (take outlen (drop out offered)))
     | (r, None) \<Rightarrow> r = SSL_TLSEXT_ERR_NOACK) \<and>
    select protos = (SSL_TLSEXT_ERR_OK, Some (1, 2)) \<and> take 2 (drop 1 protos) = NGHTTP2_H2 \<and>
    npn adv = (SSL_TLSEXT_ERR_OK, Some (1, 2)) \<and> take 2 (drop 1 adv) = NGHTTP2_H2 \<and>
    (\<forall>opt \<in> {SSL_OP_NO_SSLv2 L, SSL_OP_NO_SSLv3 L, SSL_OP_NO_COMPRESSION L, SSL_OP_NO_TICKET L}. ctx_options s AND opt = opt)"
proof -
  have "take 2 (drop 1 get_default_alpn) = NGHTTP2_H2" by code_simp
  moreover have "(w OR server_ssl_opts L) AND opt = opt"
    if "opt \<in> {SSL_OP_NO_SSLv2 L, SSL_OP_NO_SSLv3 L, SSL_OP_NO_COMPRESSION L, SSL_OP_NO_TICKET L}" for w opt
    using that by (auto simp: server_ssl_opts_def bit_eq_iff bit_simps)
  ultimately show ?thesis
    using assms select_h2_default select_h2_slice [of offered]
    by (auto simp: configure_tls_context_easy_def configure_tls_context_def alpn_select_proto_cb_def client_select_next_proto_cb_def
        get_alpn_token_def tls_h2_negotiated_def split: option.split)
qed

definition demo_openssl :: openssl where
  "demo_openssl = \<lparr>SSL_OP_ALL = 0x80000854, SSL_OP_DONT_INSERT_EMPTY_FRAGMENTS = 0x800, SSL_OP_NO_SSLv2 = 0,
     SSL_OP_NO_SSLv3 = 0x02000000, SSL_OP_NO_COMPRESSION = 0x00020000, SSL_OP_NO_SESSION_RESUMPTION_ON_RENEGOTIATION = 0x00010000,
     SSL_OP_SINGLE_ECDH_USE = 0, SSL_OP_NO_TICKET = 0x4000, SSL_OP_CIPHER_SERVER_PREFERENCE = 0x00400000,
     SSL_MODE_AUTO_RETRY = 4, SSL_MODE_RELEASE_BUFFERS = 16, prime256v1_available = True\<rparr>"

definition demo_ssl_ctx :: ssl_ctx where
  "demo_ssl_ctx = \<lparr>ctx_options = 0, ctx_mode = 0, ctx_cipher_list = None, ctx_tmp_ecdh = False, next_protos_advertised = None,
     alpn_select = None, next_proto_select = None, alpn_protos = None\<rparr>"

theorem tls_contexts_negotiate_witness:
  "\<exists>select protos. alpn_select (snd (configure_tls_context_easy demo_openssl demo_ssl_ctx)) = Some select \<and>
     alpn_protos (snd (configure_tls_context demo_ssl_ctx)) = Some protos \<and> select protos = (SSL_TLSEXT_ERR_OK, Some (1, 2))"
  using tls_contexts_negotiate [OF surjective_pairing surjective_pairing, where L = demo_openssl and sctx = demo_ssl_ctx and cctx = demo_ssl_ctx]
  by blast

end
