(* ===== verification/Allocator.thy ===== *)
theory Allocator
  imports Prelude
begin

text \<open>
  \<open>lib/allocator.h\<close>: the block allocator and the string builders on top of it, over an explicit
  memory. Addresses are numbers and \<open>size_t\<close> has 64 bits. Memory obtained with \<open>new\<close> is a list of areas;
  an access outside of every area and a \<open>delete[]\<close> of something that is not an area are error values, so
  that their absence is a theorem. Where \<open>new\<close> puts an area is a parameter.
\<close>

section \<open>Memory\<close>

type_synonym addr = nat

datatype mem_error = Bad_alloc | Bad_access | Bad_free

definition bind_m :: "mem_error + 'a \<Rightarrow> ('a \<Rightarrow> mem_error + 'b) \<Rightarrow> mem_error + 'b" where
  "bind_m m f = (case m of Inl e \<Rightarrow> Inl e | Inr x \<Rightarrow> f x)"

lemma bind_m_simps [simp]: "bind_m (Inl e) f = Inl e" "bind_m (Inr x) f = f x"
  by (simp_all add: bind_m_def)

record memory =
  cells :: "addr \<Rightarrow> char"
  areas :: "(addr \<times> nat) list"

definition in_area :: "addr \<Rightarrow> nat \<Rightarrow> memory \<Rightarrow> bool" where
  "in_area a n h \<longleftrightarrow> list_ex (\<lambda>(b, m). b \<le> a \<and> a + n \<le> b + m) (areas h)"

definition write_bytes :: "addr \<Rightarrow> string \<Rightarrow> memory \<Rightarrow> mem_error + memory" where
  "write_bytes a s h =
     (if in_area a (length s) h
      then Inr (h\<lparr>cells := (\<lambda>x. if a \<le> x \<and> x < a + length s then s ! (x - a) else cells h x)\<rparr>)
      else Inl Bad_access)"

definition bytes_at :: "addr \<Rightarrow> nat \<Rightarrow> memory \<Rightarrow> string" where
  "bytes_at a n h = map (cells h) [a..<a + n]"

definition read_bytes :: "addr \<Rightarrow> nat \<Rightarrow> memory \<Rightarrow> mem_error + string" where
  "read_bytes a n h = (if in_area a n h then Inr (bytes_at a n h) else Inl Bad_access)"

text \<open>A \<open>size_t\<close> in memory, and the wrap-around of its arithmetic.\<close>

fun le_bytes :: "nat \<Rightarrow> nat \<Rightarrow> string" where
  "le_bytes 0 n = []"
| "le_bytes (Suc k) n = char_of (n mod 256) # le_bytes k (n div 256)"

definition le_value :: "string \<Rightarrow> nat" where
  "le_value s = foldr (\<lambda>c v. of_char c + 256 * v) s 0"

definition size_wrap :: "nat \<Rightarrow> nat" where
  "size_wrap n = n mod 2 ^ 64"

definition sizeof_size_t :: nat where "sizeof_size_t = 8"

definition sizeof_MemBlock :: nat where "sizeof_MemBlock = 32"

section \<open>The allocator\<close>

text \<open>
  The chain of blocks from \<open>retain\<close> along \<open>next\<close> is a list, each block with the address \<open>new\<close> gave it;
  the four pointers of \<open>MemBlock\<close> fill the first 32 bytes of the block. \<open>mb_head\<close> is the address of the
  current block.
\<close>

record mem_block =
  mb_begin :: addr
  mb_last :: addr
  mb_end :: addr

record block_allocator =
  retain :: "(addr \<times> mem_block) list"
  mb_head :: "addr option"
  block_size :: nat
  isolation_threshold :: nat

definition block_allocator_new :: "nat \<Rightarrow> nat \<Rightarrow> block_allocator" where
  "block_allocator_new bs thr =
     \<lparr>retain = [], mb_head = None, block_size = bs, isolation_threshold = min bs thr\<rparr>"

text \<open>\<open>new\<close>: given the areas in use and a size, the address of a new area, or \<open>None\<close> if it throws.\<close>

type_synonym operator_new = "(addr \<times> nat) list \<Rightarrow> nat \<Rightarrow> addr option"

definition delete_bytes :: "addr \<Rightarrow> memory \<Rightarrow> mem_error + memory" where
  "delete_bytes a h =
     (if a \<in> set (map fst (areas h)) then Inr (h\<lparr>areas := filter (\<lambda>(b, n). b \<noteq> a) (areas h)\<rparr>) else Inl Bad_free)"

fun reset_chain :: "(addr \<times> mem_block) list \<Rightarrow> memory \<Rightarrow> mem_error + memory" where
  "reset_chain [] h = Inr h"
| "reset_chain ((a, mb) # mbs) h = bind_m (delete_bytes a h) (reset_chain mbs)"

definition reset :: "block_allocator \<Rightarrow> memory \<Rightarrow> mem_error + (block_allocator \<times> memory)" where
  "reset A h = bind_m (reset_chain (retain A) h) (\<lambda>h. Inr (A\<lparr>retain := [], mb_head := None\<rparr>, h))"

text \<open>The move constructor: the new object and what is left of the old one; and the move assignment.\<close>

definition block_allocator_move :: "block_allocator \<Rightarrow> block_allocator \<times> block_allocator" where
  "block_allocator_move other = (other, other\<lparr>retain := [], mb_head := None\<rparr>)"

definition block_allocator_assign ::
    "block_allocator \<Rightarrow> block_allocator \<Rightarrow> memory \<Rightarrow> mem_error + (block_allocator \<times> block_allocator \<times> memory)" where
  "block_allocator_assign A other h =
     bind_m (reset A h) (\<lambda>(_, h). case block_allocator_move other of (A', other') \<Rightarrow> Inr (A', other', h))"

definition alloc_mem_block ::
    "operator_new \<Rightarrow> nat \<Rightarrow> block_allocator \<Rightarrow> memory \<Rightarrow> mem_error + (addr \<times> mem_block \<times> block_allocator \<times> memory)" where
  "alloc_mem_block nw sz A h =
     (let total = size_wrap (sizeof_MemBlock + sz) in
      case nw (areas h) total of
        None \<Rightarrow> Inl Bad_alloc
      | Some block \<Rightarrow>
          (let begin = block + sizeof_MemBlock;
               mb = \<lparr>mb_begin = begin, mb_last = begin, mb_end = begin + sz\<rparr>
           in Inr (block, mb, A\<lparr>retain := (block, mb) # retain A\<rparr>, h\<lparr>areas := (block, total) # areas h\<rparr>)))"

definition set_last :: "addr \<Rightarrow> addr \<Rightarrow> block_allocator \<Rightarrow> block_allocator" where
  "set_last a v A = A\<lparr>retain := map (\<lambda>(b, mb). (b, if b = a then mb\<lparr>mb_last := v\<rparr> else mb)) (retain A)\<rparr>"

definition align16 :: "nat \<Rightarrow> nat" where
  "align16 x = (x + 15) div 16 * 16"

text \<open>The block to cut from: the current one if it has room, else a new one.\<close>

definition current_block ::
    "operator_new \<Rightarrow> nat \<Rightarrow> block_allocator \<Rightarrow> memory \<Rightarrow> mem_error + (addr \<times> mem_block \<times> block_allocator \<times> memory)" where
  "current_block nw sz A h =
     (let fresh = bind_m (alloc_mem_block nw (block_size A) A h) (\<lambda>(a, mb, A, h). Inr (a, mb, A\<lparr>mb_head := Some a\<rparr>, h)) in
      case mb_head A of
        None \<Rightarrow> fresh
      | Some a \<Rightarrow>
          (case map_of (retain A) a of
             None \<Rightarrow> Inl Bad_access
           | Some mb \<Rightarrow>
               if int (mb_end mb) - int (mb_last mb) < int (size_wrap (sz + sizeof_size_t)) then fresh
               else Inr (a, mb, A, h)))"

definition alloc ::
    "operator_new \<Rightarrow> nat \<Rightarrow> block_allocator \<Rightarrow> memory \<Rightarrow> mem_error + (addr \<times> block_allocator \<times> memory)" where
  "alloc nw sz A h =
     (if isolation_threshold A \<le> size_wrap (sz + sizeof_size_t) then
        (let len = max 16 sz in
         bind_m (alloc_mem_block nw (size_wrap (len + sizeof_size_t)) A h) (\<lambda>(a, mb, A, h).
         bind_m (write_bytes (mb_begin mb) (le_bytes 8 len) h) (\<lambda>h.
           Inr (mb_begin mb + sizeof_size_t, set_last a (mb_end mb) A, h))))
      else
        bind_m (current_block nw sz A h) (\<lambda>(a, mb, A, h).
          let res = mb_last mb + sizeof_size_t in
          bind_m (write_bytes (mb_last mb) (le_bytes 8 sz) h) (\<lambda>h.
            Inr (res, set_last a (align16 (res + sz)) A, h))))"

definition get_alloc_length :: "addr \<Rightarrow> memory \<Rightarrow> mem_error + nat" where
  "get_alloc_length ptr h = bind_m (read_bytes (ptr - sizeof_size_t) 8 h) (\<lambda>s. Inr (le_value s))"

definition realloc ::
    "operator_new \<Rightarrow> addr option \<Rightarrow> nat \<Rightarrow> block_allocator \<Rightarrow> memory \<Rightarrow> mem_error + (addr \<times> block_allocator \<times> memory)" where
  "realloc nw ptr sz A h =
     (case ptr of
        None \<Rightarrow> alloc nw sz A h
      | Some p \<Rightarrow>
          bind_m (get_alloc_length p h) (\<lambda>alloclen.
            if sz \<le> alloclen then Inr (p, A, h)
            else
              bind_m (alloc nw (max (size_wrap (sz + 1)) (size_wrap (alloclen * 2))) A h) (\<lambda>(res, A, h).
              bind_m (read_bytes p alloclen h) (\<lambda>bs.
              bind_m (write_bytes res bs h) (\<lambda>h. Inr (res, A, h))))))"

section \<open>Strings in allocated memory\<close>

text \<open>A \<open>StringRef\<close> is a base address and a length; source strings are given by their bytes.\<close>

type_synonym string_ref = "addr \<times> nat"

definition make_string_ref ::
    "operator_new \<Rightarrow> string \<Rightarrow> block_allocator \<Rightarrow> memory \<Rightarrow> mem_error + (string_ref \<times> block_allocator \<times> memory)" where
  "make_string_ref nw src A h =
     bind_m (alloc nw (length src + 1) A h) (\<lambda>(dst, A, h).
     bind_m (write_bytes dst src h) (\<lambda>h.
     bind_m (write_bytes (dst + length src) [CHR 0x00] h) (\<lambda>h. Inr ((dst, length src), A, h))))"

fun concat_string_ref_count :: "nat \<Rightarrow> string list \<Rightarrow> nat" where
  "concat_string_ref_count acc [] = acc"
| "concat_string_ref_count acc (v # vs) = concat_string_ref_count (acc + length v) vs"

fun concat_string_ref_copy :: "addr \<Rightarrow> string list \<Rightarrow> memory \<Rightarrow> mem_error + (addr \<times> memory)" where
  "concat_string_ref_copy p [] h = Inr (p, h)"
| "concat_string_ref_copy p (v # vs) h =
     bind_m (write_bytes p v h) (\<lambda>h. concat_string_ref_copy (p + length v) vs h)"

definition concat_string_ref ::
    "operator_new \<Rightarrow> string list \<Rightarrow> block_allocator \<Rightarrow> memory \<Rightarrow> mem_error + (string_ref \<times> block_allocator \<times> memory)" where
  "concat_string_ref nw args A h =
     (let len = concat_string_ref_count 0 args in
      bind_m (alloc nw (len + 1) A h) (\<lambda>(dst, A, h).
      bind_m (concat_string_ref_copy dst args h) (\<lambda>(p, h).
      bind_m (write_bytes p [CHR 0x00] h) (\<lambda>h. Inr ((dst, len), A, h)))))"

definition realloc_concat_string_ref ::
    "operator_new \<Rightarrow> string_ref \<Rightarrow> string list \<Rightarrow> block_allocator \<Rightarrow> memory
     \<Rightarrow> mem_error + (string_ref \<times> block_allocator \<times> memory)" where
  "realloc_concat_string_ref nw val args A h =
     (if snd val = 0 then concat_string_ref nw args A h
      else
        (let len = snd val + concat_string_ref_count 0 args in
         bind_m (realloc nw (Some (fst val)) (len + 1) A h) (\<lambda>(dst, A, h).
         bind_m (concat_string_ref_copy (dst + snd val) args h) (\<lambda>(p, h).
         bind_m (write_bytes p [CHR 0x00] h) (\<lambda>h. Inr ((dst, len), A, h))))))"

definition make_byte_ref ::
    "operator_new \<Rightarrow> nat \<Rightarrow> block_allocator \<Rightarrow> memory \<Rightarrow> mem_error + (string_ref \<times> block_allocator \<times> memory)" where
  "make_byte_ref nw sz A h = bind_m (alloc nw sz A h) (\<lambda>(dst, A, h). Inr ((dst, sz), A, h))"

section \<open>Memory lemmas\<close>

lemma le_value_bytes: "le_value (le_bytes k n) = n mod 256 ^ k"
proof (induction k arbitrary: n)
  case 0
  then show ?case by (simp add: le_value_def)
next
  case (Suc k)
  have "le_value (le_bytes (Suc k) n) = n mod 256 + 256 * le_value (le_bytes k (n div 256))"
    by (simp add: le_value_def)
  also have "\<dots> = n mod (256 * 256 ^ k)" by (simp add: Suc mod_mult2_eq)
  finally show ?case by simp
qed

lemma length_le_bytes [simp]: "length (le_bytes k n) = k"
  by (induction k arbitrary: n) auto

definition disj :: "addr \<times> nat \<Rightarrow> addr \<times> nat \<Rightarrow> bool" where
  "disj x y \<longleftrightarrow> fst x + snd x \<le> fst y \<or> fst y + snd y \<le> fst x"

lemma disj_sym: "disj x y = disj y x"
  by (auto simp: disj_def)

lemma disj_members:
  "sorted_wrt disj xs \<Longrightarrow> x \<in> set xs \<Longrightarrow> y \<in> set xs \<Longrightarrow> x \<noteq> y \<Longrightarrow> disj x y"
  by (induction xs) (auto simp: disj_sym)

lemma length_bytes_at [simp]: "length (bytes_at a n h) = n"
  by (simp add: bytes_at_def)

lemma bytes_at_cong: "(\<And>x. a \<le> x \<Longrightarrow> x < a + n \<Longrightarrow> cells h x = cells h' x) \<Longrightarrow> bytes_at a n h = bytes_at a n h'"
  by (simp add: bytes_at_def)

lemma bytes_at_append: "bytes_at a (m + n) h = bytes_at a m h @ bytes_at (a + m) n h"
proof -
  have "[a..<a + (m + n)] = [a..<a + m] @ [a + m..<a + m + n]"
    using upt_add_eq_append [of a "a + m" n] by (simp add: add.assoc)
  then show ?thesis by (simp add: bytes_at_def)
qed

lemma write_bytes_cells:
  assumes "write_bytes a s h = Inr h'"
  shows "areas h' = areas h" "bytes_at a (length s) h' = s"
    "x < a \<or> a + length s \<le> x \<Longrightarrow> cells h' x = cells h x"
    "b + n \<le> a \<or> a + length s \<le> b \<Longrightarrow> bytes_at b n h' = bytes_at b n h"
proof -
  have h': "h' = h\<lparr>cells := (\<lambda>x. if a \<le> x \<and> x < a + length s then s ! (x - a) else cells h x)\<rparr>"
    using assms by (simp add: write_bytes_def split: if_splits)
  then show "areas h' = areas h" by simp
  show "bytes_at a (length s) h' = s"
    by (rule nth_equalityI) (simp_all add: h' bytes_at_def)
  show out: "x < a \<or> a + length s \<le> x \<Longrightarrow> cells h' x = cells h x" for x by (auto simp: h')
  show "b + n \<le> a \<or> a + length s \<le> b \<Longrightarrow> bytes_at b n h' = bytes_at b n h"
    by (intro bytes_at_cong out) auto
qed

lemma in_area_iff: "in_area a n h \<longleftrightarrow> (\<exists>(b, m) \<in> set (areas h). b \<le> a \<and> a + n \<le> b + m)"
  by (auto simp: in_area_def list_ex_iff)

lemma in_area_areas: "areas h' = areas h \<Longrightarrow> in_area a n h' = in_area a n h"
  by (simp add: in_area_def)

section \<open>The invariant\<close>

text \<open>
  \<open>regs\<close> are the regions handed out, with the length recorded for each: every block of the chain is an
  area of its own, every region lies in the used part of a block behind its length field, and no two regions (with
  their length fields) overlap. The current block is cut from its \<open>last\<close> pointer on, which stays aligned.
\<close>

definition block_ok :: "memory \<Rightarrow> addr \<Rightarrow> mem_block \<Rightarrow> bool" where
  "block_ok h a mb \<longleftrightarrow>
     (a, mb_end mb - a) \<in> set (areas h) \<and> mb_begin mb = a + 32 \<and> mb_begin mb \<le> mb_end mb \<and>
     mb_begin mb \<le> mb_last mb \<and> mb_end mb < 2 ^ 64 \<and> 16 dvd a"

definition region_ok :: "block_allocator \<Rightarrow> memory \<Rightarrow> addr \<Rightarrow> nat \<Rightarrow> bool" where
  "region_ok A h p n \<longleftrightarrow>
     (\<exists>(a, mb) \<in> set (retain A). mb_begin mb + 8 \<le> p \<and> p + n \<le> mb_end mb \<and> p + n \<le> mb_last mb) \<and>
     le_value (bytes_at (p - 8) 8 h) = n"

definition with_length :: "addr \<times> nat \<Rightarrow> addr \<times> nat" where
  "with_length r = (fst r - 8, snd r + 8)"

definition alloc_inv :: "block_allocator \<Rightarrow> memory \<Rightarrow> (addr \<times> nat) list \<Rightarrow> bool" where
  "alloc_inv A h regs \<longleftrightarrow>
     sorted_wrt disj (areas h) \<and> distinct (map fst (areas h)) \<and> distinct (map fst (retain A)) \<and>
     (\<forall>(a, mb) \<in> set (retain A). block_ok h a mb) \<and>
     (\<forall>a. mb_head A = Some a \<longrightarrow> (\<exists>mb. (a, mb) \<in> set (retain A) \<and> 16 dvd mb_last mb)) \<and>
     (\<forall>(p, n) \<in> set regs. region_ok A h p n) \<and>
     sorted_wrt disj (map with_length regs) \<and>
     isolation_threshold A \<le> block_size A \<and> block_size A < 2 ^ 62"

lemma alloc_inv_new:
  "sorted_wrt disj (areas h) \<Longrightarrow> distinct (map fst (areas h)) \<Longrightarrow> bs < 2 ^ 62 \<Longrightarrow>
     alloc_inv (block_allocator_new bs thr) h []"
  by (simp add: alloc_inv_def block_allocator_new_def)

lemma region_in_area:
  assumes "alloc_inv A h regs" "(p, n) \<in> set regs" "p - 8 \<le> a" "a + m \<le> p + n"
  shows "in_area a m h" "8 \<le> p"
proof -
  obtain b mb where b: "(b, mb) \<in> set (retain A)" "mb_begin mb + 8 \<le> p" "p + n \<le> mb_end mb"
    using assms(1,2) unfolding alloc_inv_def region_ok_def by fast
  then have "block_ok h b mb" using assms(1) by (auto simp: alloc_inv_def)
  then show "in_area a m h" "8 \<le> p"
    using b assms(3,4) by (auto simp: in_area_iff block_ok_def intro!: bexI [of _ "(b, mb_end mb - b)"])
qed

lemma length_field:
  assumes "alloc_inv A h regs" "(p, n) \<in> set regs"
  shows "get_alloc_length p h = Inr n"
proof -
  have "in_area (p - 8) 8 h" using region_in_area [OF assms, of "p - 8" 8] region_in_area(2) [OF assms, of p 0] by simp
  moreover have "le_value (bytes_at (p - 8) 8 h) = n" using assms by (auto simp: alloc_inv_def region_ok_def)
  ultimately show ?thesis by (simp add: get_alloc_length_def read_bytes_def sizeof_size_t_def)
qed

text \<open>Writing inside one region keeps the invariant.\<close>

lemma region_write:
  assumes "alloc_inv A h regs" "(p, n) \<in> set regs" "p \<le> a" "a + length s \<le> p + n"
  shows "\<exists>h'. write_bytes a s h = Inr h' \<and> alloc_inv A h' regs"
proof -
  have "in_area a (length s) h" using region_in_area(1) [OF assms(1,2)] assms(3,4) by simp
  then obtain h' where w: "write_bytes a s h = Inr h'" by (simp add: write_bytes_def)
  note c = write_bytes_cells [OF w]
  have "region_ok A h' q m" if q: "(q, m) \<in> set regs" for q m
  proof -
    have q8: "8 \<le> q" using region_in_area(2) [OF assms(1) q, of q 0] by simp
    have "disj (with_length (p, n)) (with_length (q, m)) \<or> (q, m) = (p, n)"
    proof (rule disjCI)
      assume ne: "(q, m) \<noteq> (p, n)"
      have "8 \<le> p" using region_in_area(2) [OF assms(1,2), of p 0] by simp
      then have "with_length (p, n) \<noteq> with_length (q, m)" using ne q8 by (auto simp: with_length_def)
      then show "disj (with_length (p, n)) (with_length (q, m))"
        using assms(1,2) q by (intro disj_members [of "map with_length regs"]) (auto simp: alloc_inv_def)
    qed
    then have "q \<le> a \<or> a + length s \<le> q - 8" using assms(3,4) q8 by (auto simp: disj_def with_length_def)
    then have "bytes_at (q - 8) 8 h' = bytes_at (q - 8) 8 h" using q8 by (intro c(4)) auto
    moreover have "region_ok A h q m" using assms(1) q by (auto simp: alloc_inv_def)
    ultimately show ?thesis by (simp add: region_ok_def)
  qed
  then show ?thesis
    using assms(1) w c(1) by (auto simp: alloc_inv_def block_ok_def)
qed

lemma regions_apart:
  assumes "alloc_inv A h ((q, m) # regs)" "(r, k) \<in> set regs"
  shows "r + k \<le> q - 8 \<or> q + m \<le> r - 8"
proof -
  have "disj (with_length (q, m)) (with_length (r, k))" using assms by (auto simp: alloc_inv_def)
  moreover have "8 \<le> q" "8 \<le> r"
    using region_in_area(2) [OF assms(1), of q m q 0] region_in_area(2) [OF assms(1), of r k r 0] assms(2) by auto
  ultimately show ?thesis by (auto simp: disj_def with_length_def)
qed

lemma tail_free:
  assumes inv: "alloc_inv A h regs" and a: "(a, mb) \<in> set (retain A)" "mb_last mb \<le> x" "x + k \<le> mb_end mb" and r: "r \<in> set regs"
  shows "disj (with_length r) (x, k)"
proof -
  obtain p n where pn: "r = (p, n)" by force
  then obtain b mc where b: "(b, mc) \<in> set (retain A)" "mb_begin mc + 8 \<le> p" "p + n \<le> mb_end mc" "p + n \<le> mb_last mc"
    using inv r unfolding alloc_inv_def region_ok_def by fast
  have ok: "block_ok h a mb" "block_ok h b mc" using inv a(1) b(1) by (auto simp: alloc_inv_def)
  show ?thesis
  proof (cases "b = a")
    case True
    then have "mc = mb" using a(1) b(1) inv by (auto simp: alloc_inv_def dest: eq_key_imp_eq_value)
    then show ?thesis using b a(2) by (auto simp: pn disj_def with_length_def)
  next
    case False
    then have "disj (a, mb_end mb - a) (b, mb_end mc - b)"
      using ok inv by (intro disj_members [of "areas h"]) (auto simp: alloc_inv_def block_ok_def)
    then show ?thesis using ok a b by (auto simp: pn disj_def with_length_def block_ok_def)
  qed
qed

lemma set_last_sel [simp]:
  "mb_head (set_last a v A) = mb_head A" "isolation_threshold (set_last a v A) = isolation_threshold A"
  "block_size (set_last a v A) = block_size A" "map fst (retain (set_last a v A)) = map fst (retain A)"
  by (simp_all add: set_last_def comp_def split_beta)

lemma set_last_members:
  "(b, mb) \<in> set (retain A) \<Longrightarrow> (b, if b = a then mb\<lparr>mb_last := v\<rparr> else mb) \<in> set (retain (set_last a v A))"
  by (force simp: set_last_def)

lemma set_last_blocks:
  assumes "\<forall>(b, mb) \<in> set (retain A). block_ok h b mb" "\<forall>mb. (a, mb) \<in> set (retain A) \<longrightarrow> mb_begin mb \<le> v"
  shows "\<forall>(b, mb) \<in> set (retain (set_last a v A)). block_ok h b mb"
  using assms by (fastforce simp: set_last_def block_ok_def)

text \<open>Cutting a region of \<open>n\<close> bytes behind a length field at \<open>x\<close> from the free part of a block.\<close>

lemma carve:
  assumes inv: "alloc_inv A h regs" and a: "(a, mb) \<in> set (retain A)" and x: "mb_last mb \<le> x" "x + 8 + n \<le> mb_end mb"
    and v: "x + 8 + n \<le> v" "mb_head A = Some a \<Longrightarrow> 16 dvd v" and n: "n < 2 ^ 64"
  shows "\<exists>h'. write_bytes x (le_bytes 8 n) h = Inr h' \<and> alloc_inv (set_last a v A) h' ((x + 8, n) # regs) \<and>
    (\<forall>y. y < x \<or> x + 8 \<le> y \<longrightarrow> cells h' y = cells h y)"
proof -
  have ok: "block_ok h a mb" using inv a by (auto simp: alloc_inv_def)
  have area: "in_area x 8 h"
    using ok x by (auto simp: in_area_iff block_ok_def intro!: bexI [of _ "(a, mb_end mb - a)"])
  then obtain h' where w: "write_bytes x (le_bytes 8 n) h = Inr h'" by (simp add: write_bytes_def)
  note c = write_bytes_cells [OF w, unfolded length_le_bytes]
  let ?A = "set_last a v A"
  have uniq: "mc = mb" if "(a, mc) \<in> set (retain A)" for mc
    using that a inv by (auto simp: alloc_inv_def dest: eq_key_imp_eq_value)
  have free: "disj (x, 8 + n) (with_length r)" if "r \<in> set regs" for r
    using tail_free [OF inv a x(1), of "8 + n" r] x(2) that by (simp add: disj_sym add.assoc)
  have old: "region_ok ?A h' p m" if r: "(p, m) \<in> set regs" for p m
  proof -
    have p8: "8 \<le> p" using region_in_area(2) [OF inv r, of p 0] by simp
    have "bytes_at (p - 8) 8 h' = bytes_at (p - 8) 8 h"
      using free [OF r] p8 by (intro c(4)) (auto simp: disj_def with_length_def)
    moreover obtain b mc where b: "(b, mc) \<in> set (retain A)" "mb_begin mc + 8 \<le> p" "p + m \<le> mb_end mc" "p + m \<le> mb_last mc"
      using inv r unfolding alloc_inv_def region_ok_def by fast
    moreover have "b = a \<Longrightarrow> p + m \<le> v" using uniq b x v(1) by auto
    moreover have "le_value (bytes_at (p - 8) 8 h) = m" using inv r by (auto simp: alloc_inv_def region_ok_def)
    ultimately show ?thesis
      unfolding region_ok_def by (intro conjI bexI [OF _ set_last_members [OF b(1), of a v]]) auto
  qed
  have new: "region_ok ?A h' (x + 8) n"
    unfolding region_ok_def using x v(1) ok c(2) n
    by (intro conjI bexI [OF _ set_last_members [OF a, of a v]]) (auto simp: block_ok_def le_value_bytes)
  have "block_ok h' = block_ok h" by (simp add: block_ok_def fun_eq_iff c(1))
  moreover have "\<forall>mc. (a, mc) \<in> set (retain A) \<longrightarrow> mb_begin mc \<le> v" using uniq ok x v(1) by (auto simp: block_ok_def)
  ultimately have blocks: "\<forall>(b, mb) \<in> set (retain ?A). block_ok h' b mb"
    using set_last_blocks [of A h a v] inv by (simp add: alloc_inv_def)
  have head: "\<exists>mc. (b, mc) \<in> set (retain ?A) \<and> 16 dvd mb_last mc" if hb: "mb_head ?A = Some b" for b
  proof -
    obtain mc where mc: "(b, mc) \<in> set (retain A)" "16 dvd mb_last mc"
      using inv hb unfolding alloc_inv_def by auto
    show ?thesis using set_last_members [OF mc(1), of a v] mc(2) v(2) hb
      by (cases "b = a") auto
  qed
  have "alloc_inv ?A h' ((x + 8, n) # regs)"
    using inv c(1) old new blocks head free unfolding alloc_inv_def
    by (simp add: with_length_def [of "(x + 8, n)"] add.commute split_beta)
  with w c(3) show ?thesis by blast
qed

section \<open>Allocation\<close>

text \<open>
  What the allocator relies on of \<open>new\<close>: an area of its own, with the alignment of the
  default allocation functions (16), inside the address space.
\<close>

locale allocation =
  fixes nw :: operator_new
  assumes new_area: "nw L n = Some a \<Longrightarrow>
    16 dvd a \<and> a + n < 2 ^ 64 \<and> a \<notin> fst ` set L \<and> (\<forall>b \<in> set L. disj (a, n) b)"
begin

lemma alloc_mem_block_ok:
  assumes "alloc_inv A h regs" "32 + sz < 2 ^ 64"
  shows "alloc_mem_block nw sz A h = Inl Bad_alloc \<or>
    (\<exists>a mb A' h'. alloc_mem_block nw sz A h = Inr (a, mb, A', h') \<and> alloc_inv A' h' regs \<and> (a, mb) \<in> set (retain A') \<and>
      mb_last mb = mb_begin mb \<and> mb_end mb = mb_begin mb + sz \<and> 16 dvd mb_begin mb \<and> mb_head A' = mb_head A \<and> mb_head A \<noteq> Some a \<and>
      block_size A' = block_size A \<and> isolation_threshold A' = isolation_threshold A \<and> cells h' = cells h)"
proof (cases "nw (areas h) (32 + sz)")
  case None
  then show ?thesis using assms(2) by (simp add: alloc_mem_block_def size_wrap_def sizeof_MemBlock_def)
next
  case (Some a)
  note na = new_area [OF Some]
  let ?mb = "\<lparr>mb_begin = a + 32, mb_last = a + 32, mb_end = a + 32 + sz\<rparr>"
  let ?A = "A\<lparr>retain := (a, ?mb) # retain A\<rparr>" and ?h = "h\<lparr>areas := (a, 32 + sz) # areas h\<rparr>"
  have eq: "alloc_mem_block nw sz A h = Inr (a, ?mb, ?A, ?h)"
    using Some assms(2) by (simp add: alloc_mem_block_def size_wrap_def sizeof_MemBlock_def Let_def)
  have fresh: "(a, mb) \<notin> set (retain A)" for mb
  proof
    assume "(a, mb) \<in> set (retain A)"
    then have "(a, mb_end mb - a) \<in> set (areas h)" using assms(1) by (auto simp: alloc_inv_def block_ok_def)
    then have "a \<in> fst ` set (areas h)" by (rule rev_image_eqI) simp
    with na show False by blast
  qed
  have "region_ok ?A ?h p n" if "(p, n) \<in> set regs" for p n
  proof -
    have "region_ok A h p n" using assms(1) that by (auto simp: alloc_inv_def)
    then show ?thesis by (auto simp: region_ok_def bytes_at_def)
  qed
  moreover have "\<forall>(b, mb) \<in> set (retain ?A). block_ok ?h b mb"
    using assms(1) na by (auto simp: alloc_inv_def block_ok_def add.commute add.left_commute)
  moreover have "16 dvd a + 32" using na by (simp add: dvd_add)
  moreover have "mb_head A \<noteq> Some a" using assms(1) fresh unfolding alloc_inv_def by blast
  moreover have "a \<notin> fst ` set (retain A)" using fresh by auto
  ultimately have "alloc_inv ?A ?h regs" using assms(1) na unfolding alloc_inv_def by (auto simp: disj_sym)
  then show ?thesis
    using \<open>mb_head A \<noteq> Some a\<close> \<open>16 dvd a + 32\<close> unfolding eq
    by (intro disjI2 exI [of _ a] exI [of _ ?mb] exI [of _ ?A] exI [of _ ?h]) simp
qed

lemma current_block_ok:
  assumes "alloc_inv A h regs" "sz + 8 < isolation_threshold A"
  shows "current_block nw sz A h = Inl Bad_alloc \<or>
    (\<exists>a mb A' h'. current_block nw sz A h = Inr (a, mb, A', h') \<and> alloc_inv A' h' regs \<and> (a, mb) \<in> set (retain A') \<and>
      mb_last mb + 8 + sz \<le> mb_end mb \<and> cells h' = cells h)"
proof -
  have bs: "block_size A < 2 ^ 62" "sz + 8 < block_size A" using assms by (auto simp: alloc_inv_def)
  let ?fresh = "bind_m (alloc_mem_block nw (block_size A) A h) (\<lambda>(a, mb, A, h). Inr (a, mb, A\<lparr>mb_head := Some a\<rparr>, h))"
  have fresh: "?fresh = Inl Bad_alloc \<or> (\<exists>a mb A' h'. ?fresh = Inr (a, mb, A', h') \<and> alloc_inv A' h' regs \<and>
      (a, mb) \<in> set (retain A') \<and> mb_last mb + 8 + sz \<le> mb_end mb \<and> cells h' = cells h)"
  proof -
    have "32 + block_size A < 2 ^ 64" using bs by simp
    from alloc_mem_block_ok [OF assms(1) this] show ?thesis
    proof (elim disjE exE conjE)
      fix a mb A' h'
      assume r: "alloc_mem_block nw (block_size A) A h = Inr (a, mb, A', h')" "alloc_inv A' h' regs" "(a, mb) \<in> set (retain A')"
        "mb_last mb = mb_begin mb" "mb_end mb = mb_begin mb + block_size A" "16 dvd mb_begin mb" "cells h' = cells h"
      have "alloc_inv (A'\<lparr>mb_head := Some a\<rparr>) h' regs"
        using r unfolding alloc_inv_def region_ok_def by (auto intro: exI [of _ mb])
      then show ?thesis using r bs by (intro disjI2) auto
    qed simp
  qed
  show ?thesis
  proof (cases "mb_head A")
    case None
    then show ?thesis using fresh by (simp add: current_block_def)
  next
    case (Some a)
    then obtain mb where mb: "(a, mb) \<in> set (retain A)" "distinct (map fst (retain A))"
      using assms(1) by (auto simp: alloc_inv_def)
    then have look: "map_of (retain A) a = Some mb" by simp
    show ?thesis
    proof (cases "int (mb_end mb) - int (mb_last mb) < int (sz + 8)")
      case True
      then show ?thesis using fresh Some look bs by (simp add: current_block_def size_wrap_def sizeof_size_t_def)
    next
      case False
      then have "current_block nw sz A h = Inr (a, mb, A, h)"
        using Some look bs by (simp add: current_block_def size_wrap_def sizeof_size_t_def Let_def)
      then show ?thesis using mb False assms(1) by auto
    qed
  qed
qed

lemma alloc_ok:
  assumes "alloc_inv A h regs" "sz + 64 < 2 ^ 64"
  shows "alloc nw sz A h = Inl Bad_alloc \<or>
    (\<exists>p n A' h'. alloc nw sz A h = Inr (p, A', h') \<and> sz \<le> n \<and> n \<le> max 16 sz \<and> alloc_inv A' h' ((p, n) # regs) \<and>
      (\<forall>y. y < p - 8 \<or> p \<le> y \<longrightarrow> cells h' y = cells h y))"
proof (cases "isolation_threshold A \<le> sz + 8")
  case True
  define len where "len = max 16 sz"
  have len: "len + 8 + 32 < 2 ^ 64" "len < 2 ^ 64" using assms(2) by (simp_all add: len_def)
  have eq: "alloc nw sz A h = bind_m (alloc_mem_block nw (len + 8) A h) (\<lambda>(a, mb, A, h).
      bind_m (write_bytes (mb_begin mb) (le_bytes 8 len) h) (\<lambda>h. Inr (mb_begin mb + 8, set_last a (mb_end mb) A, h)))"
    using True assms(2) len by (simp add: alloc_def size_wrap_def sizeof_size_t_def Let_def flip: len_def)
  have "32 + (len + 8) < 2 ^ 64" using len by simp
  from alloc_mem_block_ok [OF assms(1) this] show ?thesis
  proof (elim disjE exE conjE)
    fix a mb A' h'
    assume r: "alloc_mem_block nw (len + 8) A h = Inr (a, mb, A', h')" "alloc_inv A' h' regs" "(a, mb) \<in> set (retain A')"
      "mb_last mb = mb_begin mb" "mb_end mb = mb_begin mb + (len + 8)" "mb_head A' = mb_head A" "mb_head A \<noteq> Some a" "cells h' = cells h"
    obtain h'' where "write_bytes (mb_begin mb) (le_bytes 8 len) h' = Inr h''"
      "alloc_inv (set_last a (mb_end mb) A') h'' ((mb_begin mb + 8, len) # regs)"
      "\<forall>y. y < mb_begin mb \<or> mb_begin mb + 8 \<le> y \<longrightarrow> cells h'' y = cells h' y"
      using carve [OF r(2,3), of "mb_begin mb" len "mb_end mb"] r len by auto
    then show ?thesis using r by (simp add: eq) (auto simp: len_def intro!: exI [of _ "max 16 sz"])
  qed (simp add: eq)
next
  case False
  then have small: "sz + 8 < isolation_threshold A" by simp
  have w: "size_wrap (sz + 8) = sz + 8" using assms(2) by (simp add: size_wrap_def)
  have eq: "alloc nw sz A h = bind_m (current_block nw sz A h) (\<lambda>(a, mb, A, h).
      bind_m (write_bytes (mb_last mb) (le_bytes 8 sz) h) (\<lambda>h. Inr (mb_last mb + 8, set_last a (align16 (mb_last mb + 8 + sz)) A, h)))"
    using False by (simp add: alloc_def w sizeof_size_t_def Let_def)
  from current_block_ok [OF assms(1) small] show ?thesis
  proof (elim disjE exE conjE)
    fix a mb A' h'
    assume r: "current_block nw sz A h = Inr (a, mb, A', h')" "alloc_inv A' h' regs" "(a, mb) \<in> set (retain A')"
      "mb_last mb + 8 + sz \<le> mb_end mb" "cells h' = cells h"
    have "mb_last mb + 8 + sz \<le> align16 (mb_last mb + 8 + sz)" "16 dvd align16 (mb_last mb + 8 + sz)"
      unfolding align16_def by linarith simp
    then obtain h'' where "write_bytes (mb_last mb) (le_bytes 8 sz) h' = Inr h''"
      "alloc_inv (set_last a (align16 (mb_last mb + 8 + sz)) A') h'' ((mb_last mb + 8, sz) # regs)"
      "\<forall>y. y < mb_last mb \<or> mb_last mb + 8 \<le> y \<longrightarrow> cells h'' y = cells h' y"
      using carve [OF r(2,3), of "mb_last mb" sz "align16 (mb_last mb + 8 + sz)"] r(4) assms(2) by auto
    then show ?thesis using r by (simp add: eq) auto
  qed (simp add: eq)
qed

lemma realloc_ok:
  assumes inv: "alloc_inv A h regs" and p: "(p, n) \<in> set regs" and sz: "sz + 65 < 2 ^ 64" "n * 2 + 64 < 2 ^ 64"
  shows "realloc nw (Some p) sz A h = Inl Bad_alloc \<or>
    (\<exists>q m A' h' regs'. realloc nw (Some p) sz A h = Inr (q, A', h') \<and> alloc_inv A' h' regs' \<and> (q, m) \<in> set regs' \<and> sz \<le> m \<and>
      set regs \<subseteq> set regs' \<and> bytes_at q n h' = bytes_at p n h \<and> (\<forall>(r, k) \<in> set regs. bytes_at r k h' = bytes_at r k h))"
proof (cases "sz \<le> n")
  case True
  then have "realloc nw (Some p) sz A h = Inr (p, A, h)" using length_field [OF inv p] by (simp add: realloc_def)
  then show ?thesis using True inv p by (intro disjI2 exI [of _ p] exI [of _ n] exI [of _ A] exI [of _ h] exI [of _ regs]) auto
next
  case False
  let ?l = "max (sz + 1) (n * 2)"
  have eq: "realloc nw (Some p) sz A h = bind_m (alloc nw ?l A h) (\<lambda>(res, A, h).
      bind_m (read_bytes p n h) (\<lambda>bs. bind_m (write_bytes res bs h) (\<lambda>h. Inr (res, A, h))))"
    using length_field [OF inv p] False sz by (simp add: realloc_def size_wrap_def)
  have "?l + 64 < 2 ^ 64" using sz by simp
  from alloc_ok [OF inv this] show ?thesis
  proof (elim disjE exE conjE)
    fix q m A' h'
    assume r: "alloc nw ?l A h = Inr (q, A', h')" "?l \<le> m" "alloc_inv A' h' ((q, m) # regs)"
      "\<forall>y. y < q - 8 \<or> q \<le> y \<longrightarrow> cells h' y = cells h y"
    have old: "bytes_at r k h' = bytes_at r k h" if "(r, k) \<in> set regs" for r k
      using regions_apart [OF r(3) that] r(4) by (intro bytes_at_cong) auto
    have "in_area p n h'" using region_in_area(1) [OF r(3), of p n p n] p by simp
    then have rd: "read_bytes p n h' = Inr (bytes_at p n h)" using old [OF p] by (simp add: read_bytes_def)
    have len: "q + length (bytes_at p n h) \<le> q + m" using r(2) False by simp
    obtain h'' where w: "write_bytes q (bytes_at p n h) h' = Inr h''" "alloc_inv A' h'' ((q, m) # regs)"
      using region_write [OF r(3) list.set_intros(1) order_refl len] by blast
    note c = write_bytes_cells [OF w(1), unfolded length_bytes_at]
    have "bytes_at r k h'' = bytes_at r k h" if "(r, k) \<in> set regs" for r k
    proof -
      have "r + k \<le> q \<or> q + n \<le> r" using regions_apart [OF r(3) that] len by auto
      then show ?thesis using c(4) old [OF that] by simp
    qed
    then show ?thesis
      using r(1,2) w c(2) by (intro disjI2 exI [of _ q] exI [of _ m] exI [of _ A'] exI [of _ h''] exI [of _ "(q, m) # regs"]) (auto simp: eq rd)
  qed (simp add: eq)
qed

end

section \<open>Strings\<close>

lemma concat_count: "concat_string_ref_count acc vs = acc + length (concat vs)"
  by (induction acc vs rule: concat_string_ref_count.induct) auto

text \<open>Copying strings behind each other inside a region.\<close>

lemma concat_copy_ok:
  assumes "alloc_inv A h regs" "(q, m) \<in> set regs" "q \<le> a" "a + length (concat vs) \<le> q + m"
  shows "\<exists>h'. concat_string_ref_copy a vs h = Inr (a + length (concat vs), h') \<and> alloc_inv A h' regs \<and>
    bytes_at a (length (concat vs)) h' = concat vs \<and> (\<forall>y. y < a \<or> a + length (concat vs) \<le> y \<longrightarrow> cells h' y = cells h y)"
  using assms
proof (induction vs arbitrary: a h)
  case Nil
  then show ?case by (simp add: bytes_at_def)
next
  case (Cons v vs)
  have "a + length v \<le> q + m" using Cons.prems(4) by simp
  then obtain h1 where h1: "write_bytes a v h = Inr h1" "alloc_inv A h1 regs"
    using region_write [OF Cons.prems(1-3)] by blast
  have "q \<le> a + length v" "a + length v + length (concat vs) \<le> q + m" using Cons.prems(3,4) by simp_all
  from Cons.IH [OF h1(2) Cons.prems(2) this] obtain h2 where
    h2: "concat_string_ref_copy (a + length v) vs h1 = Inr (a + length v + length (concat vs), h2)" "alloc_inv A h2 regs"
      "bytes_at (a + length v) (length (concat vs)) h2 = concat vs"
      "\<forall>y. y < a + length v \<or> a + length v + length (concat vs) \<le> y \<longrightarrow> cells h2 y = cells h1 y" by blast
  have "bytes_at a (length v) h2 = bytes_at a (length v) h1" using h2(4) by (intro bytes_at_cong) auto
  then have "bytes_at a (length (concat (v # vs))) h2 = concat (v # vs)"
    using write_bytes_cells(2) [OF h1(1)] h2(3) by (simp add: bytes_at_append)
  moreover have "\<forall>y. y < a \<or> a + length (concat (v # vs)) \<le> y \<longrightarrow> cells h2 y = cells h y"
    using h2(4) write_bytes_cells(3) [OF h1(1)] by auto
  ultimately show ?case using h1 h2(1,2) by (simp add: add.assoc)
qed

definition string_tail :: "addr \<Rightarrow> string list \<Rightarrow> 'x \<Rightarrow> memory \<Rightarrow> mem_error + ('x \<times> memory)" where
  "string_tail a vs x h =
     bind_m (concat_string_ref_copy a vs h) (\<lambda>(p, h). bind_m (write_bytes p [CHR 0x00] h) (\<lambda>h. Inr (x, h)))"

lemma string_tail_ok:
  assumes "alloc_inv A h regs" "(q, m) \<in> set regs" "q \<le> a" "a + length (concat vs) + 1 \<le> q + m"
  shows "\<exists>h'. string_tail a vs x h = Inr (x, h') \<and> alloc_inv A h' regs \<and>
    bytes_at a (length (concat vs) + 1) h' = concat vs @ [CHR 0x00] \<and>
    (\<forall>y. y < a \<or> a + length (concat vs) + 1 \<le> y \<longrightarrow> cells h' y = cells h y)"
proof -
  have fit: "a + length (concat vs) \<le> q + m" using assms(4) by simp
  obtain h1 where h1: "concat_string_ref_copy a vs h = Inr (a + length (concat vs), h1)" "alloc_inv A h1 regs"
    "bytes_at a (length (concat vs)) h1 = concat vs" "\<forall>y. y < a \<or> a + length (concat vs) \<le> y \<longrightarrow> cells h1 y = cells h y"
    using concat_copy_ok [OF assms(1-3) fit] by blast
  have "q \<le> a + length (concat vs)" "a + length (concat vs) + length [CHR 0x00] \<le> q + m" using assms(3,4) by simp_all
  from region_write [OF h1(2) assms(2) this] obtain h2 where
    h2: "write_bytes (a + length (concat vs)) [CHR 0x00] h1 = Inr h2" "alloc_inv A h2 regs" by blast
  note c = write_bytes_cells [OF h2(1)]
  have "bytes_at a (length (concat vs) + 1) h2 = concat vs @ [CHR 0x00]"
    using h1(3) c(2) c(4) [of a "length (concat vs)"] unfolding bytes_at_append by simp
  moreover have "\<forall>y. y < a \<or> a + length (concat vs) + 1 \<le> y \<longrightarrow> cells h2 y = cells h y" using h1(4) c(3) by auto
  ultimately show ?thesis using h1(1) h2 by (simp add: string_tail_def)
qed

context allocation
begin

text \<open>The builders: what they leave in memory, and that they touch no other region.\<close>

lemma concat_string_ref_ok:
  assumes inv: "alloc_inv A h regs" and len: "length (concat args) + 65 < 2 ^ 64"
  shows "concat_string_ref nw args A h = Inl Bad_alloc \<or>
    (\<exists>q m A' h'. concat_string_ref nw args A h = Inr ((q, length (concat args)), A', h') \<and> alloc_inv A' h' ((q, m) # regs) \<and>
      length (concat args) < m \<and> bytes_at q (length (concat args) + 1) h' = concat args @ [CHR 0x00] \<and>
      (\<forall>(r, k) \<in> set regs. bytes_at r k h' = bytes_at r k h))"
proof -
  let ?n = "length (concat args)"
  have eq: "concat_string_ref nw args A h = bind_m (alloc nw (?n + 1) A h) (\<lambda>(dst, A, h).
      bind_m (string_tail dst args () h) (\<lambda>(_, h). Inr ((dst, ?n), A, h)))"
    by (auto simp: concat_string_ref_def string_tail_def concat_count Let_def bind_m_def split: sum.splits)
  have "?n + 1 + 64 < 2 ^ 64" using len by simp
  from alloc_ok [OF inv this] show ?thesis
  proof (elim disjE exE conjE)
    fix q m A' h'
    assume r: "alloc nw (?n + 1) A h = Inr (q, A', h')" "?n + 1 \<le> m" "alloc_inv A' h' ((q, m) # regs)"
      "\<forall>y. y < q - 8 \<or> q \<le> y \<longrightarrow> cells h' y = cells h y"
    have fit: "q + ?n + 1 \<le> q + m" using r(2) by simp
    obtain h'' where t: "string_tail q args () h' = Inr ((), h'')" "alloc_inv A' h'' ((q, m) # regs)"
      "bytes_at q (?n + 1) h'' = concat args @ [CHR 0x00]" "\<forall>y. y < q \<or> q + ?n + 1 \<le> y \<longrightarrow> cells h'' y = cells h' y"
      using string_tail_ok [OF r(3) list.set_intros(1) order_refl fit, where x = "()"] by (elim exE conjE)
    have "bytes_at r k h'' = bytes_at r k h" if "(r, k) \<in> set regs" for r k
      using regions_apart [OF r(3) that] fit r(4) t(4) by (intro bytes_at_cong) auto
    then show ?thesis using r(1,2) t
      by (intro disjI2 exI [of _ q] exI [of _ m] exI [of _ A'] exI [of _ h'']) (auto simp: eq)
  qed (simp add: eq)
qed

lemma make_string_ref_concat: "make_string_ref nw src A h = concat_string_ref nw [src] A h"
  by (auto simp: make_string_ref_def concat_string_ref_def bind_m_def split: sum.splits)

lemma realloc_concat_ok:
  assumes inv: "alloc_inv A h regs" and p: "(p, n) \<in> set regs" and l: "0 < l" "l \<le> n"
    and len: "l + length (concat args) + 66 < 2 ^ 64" "n * 2 + 64 < 2 ^ 64"
  shows "realloc_concat_string_ref nw (p, l) args A h = Inl Bad_alloc \<or>
    (\<exists>q A' h' m regs'. realloc_concat_string_ref nw (p, l) args A h = Inr ((q, l + length (concat args)), A', h') \<and>
      bytes_at q (l + length (concat args) + 1) h' = bytes_at p l h @ concat args @ [CHR 0x00] \<and>
      alloc_inv A' h' regs' \<and> (q, m) \<in> set regs' \<and> l + length (concat args) < m \<and> set regs \<subseteq> set regs')"
proof -
  let ?n = "l + length (concat args)"
  have eq: "realloc_concat_string_ref nw (p, l) args A h = bind_m (realloc nw (Some p) (?n + 1) A h) (\<lambda>(dst, A, h).
      bind_m (string_tail (dst + l) args () h) (\<lambda>(_, h). Inr ((dst, ?n), A, h)))"
    using l(1) by (auto simp: realloc_concat_string_ref_def string_tail_def concat_count Let_def bind_m_def split: sum.splits)
  have "?n + 1 + 65 < 2 ^ 64" using len by simp
  from realloc_ok [OF inv p this len(2)] show ?thesis
  proof (elim disjE exE conjE)
    fix q m A' h' regs'
    assume r: "realloc nw (Some p) (?n + 1) A h = Inr (q, A', h')" "alloc_inv A' h' regs'" "(q, m) \<in> set regs'" "?n + 1 \<le> m"
      "set regs \<subseteq> set regs'" "bytes_at q n h' = bytes_at p n h"
    have fit: "q \<le> q + l" "q + l + length (concat args) + 1 \<le> q + m" using r(4) by simp_all
    obtain h'' where t: "string_tail (q + l) args () h' = Inr ((), h'')" "alloc_inv A' h'' regs'"
      "bytes_at (q + l) (length (concat args) + 1) h'' = concat args @ [CHR 0x00]"
      "\<forall>y. y < q + l \<or> q + l + length (concat args) + 1 \<le> y \<longrightarrow> cells h'' y = cells h' y"
      using string_tail_ok [OF r(2,3) fit, where x = "()"] by (elim exE conjE)
    have "bytes_at q l h'' = bytes_at q l h'" using t(4) by (intro bytes_at_cong) auto
    also have "\<dots> = take l (bytes_at q n h')" using bytes_at_append [of q l "n - l" h'] l(2) by simp
    also have "\<dots> = bytes_at p l h" using bytes_at_append [of p l "n - l" h] l(2) r(6) by simp
    finally have "bytes_at q (l + (length (concat args) + 1)) h'' = bytes_at p l h @ concat args @ [CHR 0x00]"
      unfolding bytes_at_append [of q l] using t(3) by simp
    then show ?thesis using r t(1,2)
      by (intro disjI2 exI [of _ q] exI [of _ A'] exI [of _ h''] exI [of _ m] exI [of _ regs']) (auto simp: eq add.assoc)
  qed (simp add: eq)
qed

end

section \<open>Releasing\<close>

lemma reset_chain_ok:
  assumes "distinct (map fst mbs)" "fst ` set mbs \<subseteq> fst ` set (areas h)"
  shows "reset_chain mbs h = Inr (h\<lparr>areas := filter (\<lambda>(b, n). b \<notin> fst ` set mbs) (areas h)\<rparr>)"
  using assms
proof (induction mbs arbitrary: h)
  case Nil
  then show ?case by simp
next
  case (Cons x mbs)
  obtain a mb where x: "x = (a, mb)" by force
  let ?h = "h\<lparr>areas := filter (\<lambda>(b, n). b \<noteq> a) (areas h)\<rparr>"
  have "delete_bytes a h = Inr ?h" using Cons.prems(2) by (simp add: delete_bytes_def x)
  moreover have "fst ` set mbs \<subseteq> fst ` set (areas ?h)"
  proof
    fix b assume b: "b \<in> fst ` set mbs"
    then obtain n where "(b, n) \<in> set (areas h)" using Cons.prems(2) by auto
    moreover have "b \<noteq> a" using b Cons.prems(1) by (auto simp: x)
    ultimately show "b \<in> fst ` set (areas ?h)" by (intro rev_image_eqI [of "(b, n)"]) auto
  qed
  then have "reset_chain mbs ?h = Inr (?h\<lparr>areas := filter (\<lambda>(b, n). b \<notin> fst ` set mbs) (areas ?h)\<rparr>)"
    using Cons by simp
  ultimately show ?case by (simp add: x split_beta)
qed

lemma reset_ok:
  assumes "alloc_inv A h regs"
  shows "reset A h = Inr (A\<lparr>retain := [], mb_head := None\<rparr>, h\<lparr>areas := filter (\<lambda>(b, n). b \<notin> fst ` set (retain A)) (areas h)\<rparr>)"
proof -
  have "fst ` set (retain A) \<subseteq> fst ` set (areas h)"
  proof
    fix b assume "b \<in> fst ` set (retain A)"
    then obtain mb where "(b, mb) \<in> set (retain A)" by auto
    then have "(b, mb_end mb - b) \<in> set (areas h)" using assms by (auto simp: alloc_inv_def block_ok_def)
    then show "b \<in> fst ` set (areas h)" by (rule rev_image_eqI) simp
  qed
  moreover have "distinct (map fst (retain A))" using assms by (simp add: alloc_inv_def)
  ultimately show ?thesis by (simp add: reset_def reset_chain_ok)
qed

lemma alloc_inv_reset:
  assumes "alloc_inv A h regs"
  shows "alloc_inv (A\<lparr>retain := [], mb_head := None\<rparr>) (h\<lparr>areas := filter P (areas h)\<rparr>) []"
  using assms by (auto simp: alloc_inv_def sorted_wrt_filter distinct_map_filter)

text \<open>The areas that do not belong to the allocator.\<close>

definition foreign :: "block_allocator \<Rightarrow> memory \<Rightarrow> (addr \<times> nat) list" where
  "foreign A h = filter (\<lambda>(b, n). b \<notin> fst ` set (retain A)) (areas h)"

lemma foreign_frame [simp]:
  "foreign (set_last a v A) h = foreign A h" "foreign (A\<lparr>mb_head := x\<rparr>) h = foreign A h"
  by (simp_all add: foreign_def set_last_def image_image split_beta)

section \<open>Sequences of requests\<close>

fun allocs ::
    "operator_new \<Rightarrow> nat list \<Rightarrow> block_allocator \<Rightarrow> memory \<Rightarrow> mem_error + (addr list \<times> block_allocator \<times> memory)" where
  "allocs nw [] A h = Inr ([], A, h)"
| "allocs nw (sz # szs) A h =
     bind_m (alloc nw sz A h) (\<lambda>(p, A, h). bind_m (allocs nw szs A h) (\<lambda>(ps, A, h). Inr (p # ps, A, h)))"

context allocation
begin

lemma alloc_mem_block_foreign:
  assumes "alloc_mem_block nw sz A h = Inr (a, mb, A', h')"
  shows "foreign A' h' = foreign A h"
proof -
  let ?n = "size_wrap (sizeof_MemBlock + sz)"
  have r: "nw (areas h) ?n = Some a" "A' = A\<lparr>retain := (a, mb) # retain A\<rparr>" "h' = h\<lparr>areas := (a, ?n) # areas h\<rparr>"
    using assms by (auto simp: alloc_mem_block_def Let_def split: option.splits)
  have "a \<notin> fst ` set (areas h)" using new_area [OF r(1)] by blast
  then have "filter (\<lambda>(b, n). b \<noteq> a \<and> b \<notin> fst ` set (retain A)) (areas h) = foreign A h"
    unfolding foreign_def by (intro filter_cong refl) (auto simp: rev_image_eqI)
  then show ?thesis by (simp add: r(2,3) foreign_def split_beta)
qed

lemma alloc_foreign:
  assumes "alloc nw sz A h = Inr (p, A', h')"
  shows "foreign A' h' = foreign A h"
proof -
  have cur: "foreign A' h' = foreign A h" if "current_block nw sz A h = Inr (a, mb, A', h')" for a mb A' h'
    using that by (auto simp: current_block_def Let_def bind_m_def split: option.splits sum.splits if_splits
        dest!: alloc_mem_block_foreign)
  have wr: "\<forall>A. foreign A h' = foreign A h" if "write_bytes x s h = Inr h'" for x s h h'
    using write_bytes_cells(1) [OF that] by (simp add: foreign_def)
  show ?thesis
    using assms
    by (auto simp: alloc_def Let_def bind_m_def split: sum.splits if_splits dest!: alloc_mem_block_foreign cur wr)
qed

lemma allocs_ok:
  assumes "alloc_inv A h regs" "\<forall>sz \<in> set szs. sz + 64 < 2 ^ 64"
  shows "allocs nw szs A h = Inl Bad_alloc \<or>
    (\<exists>ps ms A' h'. allocs nw szs A h = Inr (ps, A', h') \<and> length ps = length szs \<and> list_all2 (\<le>) szs ms \<and>
      alloc_inv A' h' (rev (zip ps ms) @ regs) \<and> foreign A' h' = foreign A h)"
  using assms
proof (induction szs arbitrary: A h regs)
  case Nil
  then show ?case by auto
next
  case (Cons sz szs)
  have "sz + 64 < 2 ^ 64" using Cons.prems(2) by simp
  from alloc_ok [OF Cons.prems(1) this] show ?case
  proof (elim disjE exE conjE)
    fix p n A1 h1
    assume r: "alloc nw sz A h = Inr (p, A1, h1)" "sz \<le> n" "alloc_inv A1 h1 ((p, n) # regs)"
    have "\<forall>sz \<in> set szs. sz + 64 < 2 ^ 64" using Cons.prems(2) by simp
    from Cons.IH [OF r(3) this] show ?case
    proof (elim disjE exE conjE)
      fix ps ms A2 h2
      assume s: "allocs nw szs A1 h1 = Inr (ps, A2, h2)" "length ps = length szs" "list_all2 (\<le>) szs ms"
        "alloc_inv A2 h2 (rev (zip ps ms) @ (p, n) # regs)" "foreign A2 h2 = foreign A1 h1"
      then show ?thesis using r(1,2) alloc_foreign [OF r(1)]
        by (intro disjI2 exI [of _ "p # ps"] exI [of _ "n # ms"] exI [of _ A2] exI [of _ h2]) simp
    qed (use r in simp)
  qed simp
qed

end

lemma zip_regions:
  assumes "alloc_inv A h (rev (zip ps ms) @ regs)" "list_all2 (\<le>) szs ms" "length ps = length szs"
  shows "sorted_wrt disj (zip ps szs)" "\<forall>(p, n) \<in> set (zip ps szs). in_area p n h"
proof -
  have len: "length ms = length szs" using assms(2) by (simp add: list_all2_lengthD)
  have nth: "(ps ! i, ms ! i) \<in> set (rev (zip ps ms) @ regs)" if "i < length szs" for i
    using that len assms(3) by (auto simp: in_set_zip)
  have le: "szs ! i \<le> ms ! i" if "i < length szs" for i using assms(2) that by (simp add: list_all2_nthD)
  have p8: "8 \<le> ps ! i" if "i < length szs" for i
    using region_in_area(2) [OF assms(1) nth [OF that], of "ps ! i" 0] by simp
  have "sorted_wrt disj (rev (map with_length (zip ps ms)))"
    using assms(1) by (simp add: alloc_inv_def sorted_wrt_append rev_map)
  then have s: "sorted_wrt disj (map with_length (zip ps ms))" by (simp add: sorted_wrt_rev disj_sym)
  show "sorted_wrt disj (zip ps szs)"
    unfolding sorted_wrt_iff_nth_less
  proof (intro allI impI)
    fix i j assume ij: "i < j" "j < length (zip ps szs)"
    then have "disj (with_length (ps ! i, ms ! i)) (with_length (ps ! j, ms ! j))"
      using s len assms(3) by (auto simp: sorted_wrt_iff_nth_less)
    moreover have "8 \<le> ps ! i" "8 \<le> ps ! j" using p8 ij by auto
    moreover have "szs ! i \<le> ms ! i" "szs ! j \<le> ms ! j" using le ij by auto
    ultimately show "disj (zip ps szs ! i) (zip ps szs ! j)" using ij by (auto simp: disj_def with_length_def)
  qed
  have "in_area (ps ! i) (szs ! i) h" if "i < length szs" for i
    using region_in_area(1) [OF assms(1) nth [OF that], of "ps ! i" "szs ! i"] le [OF that] by simp
  then show "\<forall>(p, n) \<in> set (zip ps szs). in_area p n h" by (auto simp: in_set_zip)
qed

section \<open>A concrete \<open>new\<close>\<close>

text \<open>One that always allocates behind every area in use meets the laws.\<close>

definition bump_new :: operator_new where
  "bump_new L n =
     (let a = align16 (foldr (\<lambda>(b, m) e. max (b + m) e) L 4096) + 16 in if a + n < 2 ^ 64 then Some a else None)"

lemma bump_bound: "(b, m) \<in> set L \<Longrightarrow> b + m < align16 (foldr (\<lambda>(b, m) e. max (b + m) e) L e0) + 16"
proof -
  have "(b, m) \<in> set L \<Longrightarrow> b + m \<le> foldr (\<lambda>(b, m) e. max (b + m) e) L e0" by (induction L) auto
  moreover have "x < align16 x + 16" for x unfolding align16_def by linarith
  ultimately show "(b, m) \<in> set L \<Longrightarrow> ?thesis" using order_le_less_trans by blast
qed

interpretation bump: allocation bump_new
proof unfold_locales
  fix L n a
  assume "bump_new L n = Some a"
  then have a: "a = align16 (foldr (\<lambda>(b, m) e. max (b + m) e) L 4096) + 16" "a + n < 2 ^ 64"
    by (auto simp: bump_new_def Let_def split: if_splits)
  have below: "b + m < a" if "(b, m) \<in> set L" for b m using bump_bound [OF that] a(1) by simp
  then have "a \<notin> fst ` set L" by force
  moreover have "\<forall>b \<in> set L. disj (a, n) b" using below by (force simp: disj_def)
  moreover have "16 dvd a" by (simp add: a(1) align16_def)
  ultimately show "16 dvd a \<and> a + n < 2 ^ 64 \<and> a \<notin> fst ` set L \<and> (\<forall>b \<in> set L. disj (a, n) b)"
    using a(2) by blast
qed

section \<open>Properties\<close>



text \<open>
  Growing a region returns a region of at least the new size that starts with the old region's bytes, and
  changes no byte of any region handed out before; the region itself is returned when it is large enough.
\<close>

theorem realloc_keeps_contents:
  assumes "allocation nw" "alloc_inv A h regs" "(p, n) \<in> set regs" "sz + 65 < 2 ^ 64" "n * 2 + 64 < 2 ^ 64"
  shows "case realloc nw (Some p) sz A h of
      Inl e \<Rightarrow> e = Bad_alloc
    | Inr (q, A', h') \<Rightarrow>
        bytes_at q n h' = bytes_at p n h \<and> (sz \<le> n \<longrightarrow> (q, A', h') = (p, A, h)) \<and>
        (\<forall>(r, k) \<in> set regs. bytes_at r k h' = bytes_at r k h) \<and>
        (\<exists>m regs'. sz \<le> m \<and> (q, m) \<in> set regs' \<and> set regs \<subseteq> set regs' \<and> alloc_inv A' h' regs')"
proof -
  have same: "sz \<le> n \<Longrightarrow> realloc nw (Some p) sz A h = Inr (p, A, h)"
    using length_field [OF assms(2,3)] by (simp add: realloc_def)
  from allocation.realloc_ok [OF assms] show ?thesis
    by (elim disjE exE conjE) (use same in auto)
qed

definition demo_memory :: memory where
  "demo_memory = \<lparr>cells = \<lambda>_. CHR 0x00, areas = []\<rparr>"

lemma demo_alloc: "\<exists>p A h. alloc_inv A h [(p, 20)]"
proof -
  let ?A = "block_allocator_new 1024 1024"
  have inv: "alloc_inv ?A demo_memory []" by (rule alloc_inv_new) (simp_all add: demo_memory_def)
  have "alloc bump_new 20 ?A demo_memory \<noteq> Inl Bad_alloc"
    by (simp add: alloc_def current_block_def alloc_mem_block_def block_allocator_new_def demo_memory_def bump_new_def align16_def
        size_wrap_def sizeof_size_t_def sizeof_MemBlock_def write_bytes_def in_area_def Let_def)
  then obtain p n A h where "20 \<le> n" "n \<le> max 16 20" "alloc_inv A h [(p, n)]"
    using bump.alloc_ok [OF inv, of 20] by auto
  then show ?thesis by auto
qed

theorem realloc_keeps_contents_witness:
  "\<exists>p A h. alloc_inv A h [(p, 20)] \<and>
     (case realloc bump_new (Some p) 30 A h of Inl e \<Rightarrow> e = Bad_alloc | Inr (q, A', h') \<Rightarrow> bytes_at q 20 h' = bytes_at p 20 h)"
proof -
  obtain p A h where inv: "alloc_inv A h [(p, 20)]" using demo_alloc by blast
  from realloc_keeps_contents [OF bump.allocation_axioms inv, of p 20 30] inv show ?thesis
    by (intro exI [of _ p] exI [of _ A] exI [of _ h]) (auto split: sum.splits)
qed

text \<open>
  Appending strings to a string in allocated memory gives the old string followed by the new ones and a
  terminating zero byte, all inside one region, whether or not the region had to be replaced.
\<close>

theorem realloc_concat_appends:
  assumes "allocation nw" "alloc_inv A h regs" "(p, n) \<in> set regs" "0 < l" "l \<le> n"
    "l + length (concat args) + 66 < 2 ^ 64" "n * 2 + 64 < 2 ^ 64"
  shows "case realloc_concat_string_ref nw (p, l) args A h of
      Inl e \<Rightarrow> e = Bad_alloc
    | Inr ((q, len), A', h') \<Rightarrow>
        len = l + length (concat args) \<and> bytes_at q (len + 1) h' = bytes_at p l h @ concat args @ [CHR 0x00] \<and>
        (\<exists>m regs'. len < m \<and> (q, m) \<in> set regs' \<and> alloc_inv A' h' regs')"
  using allocation.realloc_concat_ok [OF assms] by (elim disjE exE conjE) auto

theorem realloc_concat_appends_witness:
  "\<exists>p A h. alloc_inv A h [(p, 20)] \<and>
     (case realloc_concat_string_ref bump_new (p, 3) [''ab'', ''c''] A h of
        Inl e \<Rightarrow> e = Bad_alloc
      | Inr ((q, len), A', h') \<Rightarrow> len = 6 \<and> bytes_at q 7 h' = bytes_at p 3 h @ ''abc'' @ [CHR 0x00])"
proof -
  obtain p A h where inv: "alloc_inv A h [(p, 20)]" using demo_alloc by blast
  from realloc_concat_appends [OF bump.allocation_axioms inv, of p 20 3 "[''ab'', ''c'']"] inv show ?thesis
    by (intro exI [of _ p] exI [of _ A] exI [of _ h]) (auto split: sum.splits)
qed

end
