(* ===== verification/Number_Ref.thy ===== *)
theory Number_Ref
  imports Allocator Util Http2_Tokens
begin

text \<open>
  Decimal numbers in allocated memory: the output iterator form of \<open>utos\<close> and \<open>make_string_ref_uint\<close> of
  \<open>lib/util.h\<close>, and \<open>stringify_status\<close> of \<open>lib/http2.cc\<close> with its allocator.
\<close>

section \<open>Operations\<close>

text \<open>\<open>str_size("18446744073709551615")\<close>\<close>

definition NGHTTP2_MAX_UINT64_DIGITS :: nat where
  "NGHTTP2_MAX_UINT64_DIGITS = length ''18446744073709551615''"

text \<open>The second loop writes the digits from the right: \<open>*--p = (n % 10) + '0'\<close>.\<close>

fun utos_back :: "nat \<Rightarrow> addr \<Rightarrow> memory \<Rightarrow> mem_error + memory" where
  "utos_back n p h =
     (if n = 0 then Inr h
      else bind_m (write_bytes (p - 1) [char_of (n mod 10 + 48)] h) (utos_back (n div 10) (p - 1)))"

declare utos_back.simps [simp del]

definition utos_out :: "addr \<Rightarrow> nat \<Rightarrow> memory \<Rightarrow> mem_error + (addr \<times> memory)" where
  "utos_out dst n h =
     (if n = 0 then bind_m (write_bytes dst ''0'' h) (\<lambda>h. Inr (dst + 1, h))
      else
        (let p = dst + utos_len n
         in bind_m (utos_back n p h) (\<lambda>h. Inr (p, h))))"

definition make_string_ref_uint ::
    "operator_new \<Rightarrow> nat \<Rightarrow> block_allocator \<Rightarrow> memory \<Rightarrow> mem_error + (string_ref \<times> block_allocator \<times> memory)" where
  "make_string_ref_uint nw n A h =
     bind_m (make_byte_ref nw (NGHTTP2_MAX_UINT64_DIGITS + 1) A h) (\<lambda>((base, _), A, h).
     bind_m (utos_out base n h) (\<lambda>(p, h).
     bind_m (write_bytes p [CHR 0x00] h) (\<lambda>h. Inr ((base, p - base), A, h))))"

text \<open>A status is a literal of the program or a string in the allocator's memory.\<close>

datatype status_ref = Literal string | Allocated string_ref

definition stringify_status_ref ::
    "operator_new \<Rightarrow> nat \<Rightarrow> block_allocator \<Rightarrow> memory \<Rightarrow> mem_error + (status_ref \<times> block_allocator \<times> memory)" where
  "stringify_status_ref nw status_code A h =
     (case map_of status_literals status_code of
        Some s \<Rightarrow> Inr (Literal s, A, h)
      | None \<Rightarrow> bind_m (make_string_ref_uint nw status_code A h) (\<lambda>(r, A, h). Inr (Allocated r, A, h)))"

definition status_text :: "status_ref \<Rightarrow> memory \<Rightarrow> string" where
  "status_text r h = (case r of Literal s \<Rightarrow> s | Allocated (a, n) \<Rightarrow> bytes_at a n h)"

section \<open>The digits fit\<close>

lemma digits_bound: "n < 10 ^ k \<Longrightarrow> length (digits n) \<le> k"
proof (induction k arbitrary: n)
  case (Suc k)
  then have "length (digits (n div 10)) \<le> k" by (intro Suc.IH) (simp add: less_mult_imp_div_less mult.commute)
  then show ?case by (cases "n = 0") (simp_all add: digits_rec)
qed simp

lemma utos_back_ok:
  assumes "alloc_inv A h regs" "(q, m) \<in> set regs" "q + length (digits n) \<le> p" "p \<le> q + m"
  shows "\<exists>h'. utos_back n p h = Inr h' \<and> alloc_inv A h' regs \<and>
    bytes_at (p - length (digits n)) (length (digits n)) h' = digits n \<and>
    (\<forall>y. y < p - length (digits n) \<or> p \<le> y \<longrightarrow> cells h' y = cells h y)"
  using assms
proof (induction n arbitrary: p h rule: digits.induct)
  case (1 n)
  show ?case
  proof (cases "n = 0")
    case True
    with 1 show ?thesis by (simp add: utos_back.simps bytes_at_def)
  next
    case False
    let ?k = "length (digits (n div 10))" and ?c = "char_of (n mod 10 + 48) :: char"
    have len: "length (digits n) = Suc ?k" using False by (simp add: digits_rec)
    have "q \<le> p - 1" "p - 1 + length [?c] \<le> q + m" using 1(4,5) len by simp_all
    from region_write [OF 1(2,3) this] obtain h1 where h1: "write_bytes (p - 1) [?c] h = Inr h1" "alloc_inv A h1 regs" by blast
    note c = write_bytes_cells [OF h1(1)]
    have "q + ?k \<le> p - 1" "p - 1 \<le> q + m" using 1(4,5) len by simp_all
    from 1(1) [OF False h1(2) 1(3) this] obtain h2 where h2: "utos_back (n div 10) (p - 1) h1 = Inr h2" "alloc_inv A h2 regs"
      "bytes_at (p - 1 - ?k) ?k h2 = digits (n div 10)" "\<forall>y. y < p - 1 - ?k \<or> p - 1 \<le> y \<longrightarrow> cells h2 y = cells h1 y"
      by blast
    have p: "p - 1 - ?k + ?k = p - 1" "p - Suc ?k = p - 1 - ?k" using 1(4) len by simp_all
    have "bytes_at (p - 1) 1 h2 = bytes_at (p - 1) 1 h1" using h2(4) by (intro bytes_at_cong) simp
    then have "bytes_at (p - Suc ?k) (?k + 1) h2 = digits n"
      unfolding p(2) bytes_at_append p(1) h2(3) using c(2) False by (simp add: digits_rec)
    moreover have "cells h2 y = cells h y" if "y < p - Suc ?k \<or> p \<le> y" for y
    proof -
      have "y < p - 1 - ?k \<or> p - 1 \<le> y" "y < p - 1 \<or> p - 1 + length [?c] \<le> y" using that 1(4) len by auto
      with h2(4) c(3) [of y] show ?thesis by metis
    qed
    ultimately show ?thesis
      using False h1(1) h2(1,2) len by (simp add: utos_back.simps [of n])
  qed
qed

lemma utos_out_ok:
  assumes "alloc_inv A h regs" "(q, m) \<in> set regs" "length (utos n) \<le> m"
  shows "\<exists>h'. utos_out q n h = Inr (q + length (utos n), h') \<and> alloc_inv A h' regs \<and>
    bytes_at q (length (utos n)) h' = utos n \<and> (\<forall>y. y < q \<or> q + length (utos n) \<le> y \<longrightarrow> cells h' y = cells h y)"
proof (cases "n = 0")
  case True
  with assms region_write [OF assms(1,2), of q "''0''"] obtain h' where w: "write_bytes q ''0'' h = Inr h'" "alloc_inv A h' regs"
    by (auto simp: utos_digits)
  with True write_bytes_cells [OF w(1)] show ?thesis by (simp add: utos_out_def utos_digits)
next
  case False
  with assms utos_back_ok [OF assms(1,2), of n "q + length (digits n)"] show ?thesis
    by (auto simp: utos_out_def utos_digits utos_len_digits)
qed

lemma make_string_ref_uint_ok:
  assumes "allocation nw" "alloc_inv A h regs" "n < 2 ^ 64"
  shows "make_string_ref_uint nw n A h = Inl Bad_alloc \<or>
    (\<exists>q m A' h'. make_string_ref_uint nw n A h = Inr ((q, length (utos n)), A', h') \<and> alloc_inv A' h' ((q, m) # regs) \<and>
      length (utos n) < m \<and> bytes_at q (length (utos n) + 1) h' = utos n @ [CHR 0x00] \<and>
      (\<forall>(r, k) \<in> set regs. bytes_at r k h' = bytes_at r k h))"
proof -
  let ?n = "length (utos n)"
  have "(2 :: nat) ^ 64 < 10 ^ 20" by simp
  with assms(3) have "length (digits n) \<le> 20" by (intro digits_bound) simp
  then have n: "?n \<le> 20" by (simp add: utos_digits)
  have digits: "NGHTTP2_MAX_UINT64_DIGITS = 20" by (simp add: NGHTTP2_MAX_UINT64_DIGITS_def)
  have "21 + 64 < (2 :: nat) ^ 64" by simp
  from allocation.alloc_ok [OF assms(1,2) this] show ?thesis
  proof (elim disjE exE conjE)
    fix q m A' h'
    assume r: "alloc nw 21 A h = Inr (q, A', h')" "21 \<le> m" "alloc_inv A' h' ((q, m) # regs)"
      "\<forall>y. y < q - 8 \<or> q \<le> y \<longrightarrow> cells h' y = cells h y"
    have "?n \<le> m" using n r(2) by simp
    from utos_out_ok [OF r(3) list.set_intros(1) this] obtain h1 where
      h1: "utos_out q n h' = Inr (q + ?n, h1)" "alloc_inv A' h1 ((q, m) # regs)" "bytes_at q ?n h1 = utos n"
        "\<forall>y. y < q \<or> q + ?n \<le> y \<longrightarrow> cells h1 y = cells h' y" by blast
    have "q \<le> q + ?n" "q + ?n + length [CHR 0x00] \<le> q + m" using n r(2) by simp_all
    from region_write [OF h1(2) list.set_intros(1) this] obtain h2 where
      h2: "write_bytes (q + ?n) [CHR 0x00] h1 = Inr h2" "alloc_inv A' h2 ((q, m) # regs)" by blast
    note c = write_bytes_cells [OF h2(1)]
    have "bytes_at q (?n + 1) h2 = utos n @ [CHR 0x00]"
      unfolding bytes_at_append using c(2) c(4) [of q ?n] h1(3) by simp
    moreover have frame: "\<forall>y. y < q \<or> q + ?n + 1 \<le> y \<longrightarrow> cells h2 y = cells h' y" using h1(4) c(3) by fastforce
    have "bytes_at r k h2 = bytes_at r k h" if "(r, k) \<in> set regs" for r k
      using regions_apart [OF r(3) that] n r(2,4) frame by (intro bytes_at_cong) auto
    ultimately show ?thesis
      using r(1,2) h1(1) h2 n
      by - (rule disjI2, rule exI [of _ q], rule exI [of _ m], rule exI [of _ A'], rule exI [of _ h2],
          auto simp: make_string_ref_uint_def make_byte_ref_def digits)
  qed (simp add: make_string_ref_uint_def make_byte_ref_def digits)
qed

section \<open>Properties\<close>

text \<open>
  A status, whatever its value, becomes its decimal digits: either a literal of the program or a string in fresh memory of the
  allocator, zero-terminated, inside the 21 bytes requested for it (20 digits are enough for 64 bits); no access is out of bounds and no other
  region changes. Only running out of memory is an error.
\<close>

theorem stringify_status_in_memory:
  assumes "allocation nw" "alloc_inv A h regs" "status_code < 2 ^ 64"
  shows "case stringify_status_ref nw status_code A h of
      Inl e \<Rightarrow> e = Bad_alloc
    | Inr (r, A', h') \<Rightarrow>
        status_text r h' = utos status_code \<and> (\<forall>(q, k) \<in> set regs. bytes_at q k h' = bytes_at q k h) \<and>
        (\<forall>q len. r = Allocated (q, len) \<longrightarrow> cells h' (q + len) = CHR 0x00 \<and>
           (\<exists>m. len < m \<and> alloc_inv A' h' ((q, m) # regs)))"
proof (cases "map_of status_literals status_code")
  case None
  from make_string_ref_uint_ok [OF assms] show ?thesis
  proof (elim disjE exE conjE)
    fix q m A' h'
    assume r: "make_string_ref_uint nw status_code A h = Inr ((q, length (utos status_code)), A', h')" "alloc_inv A' h' ((q, m) # regs)"
      "length (utos status_code) < m" "bytes_at q (length (utos status_code) + 1) h' = utos status_code @ [CHR 0x00]"
      "\<forall>(r, k) \<in> set regs. bytes_at r k h' = bytes_at r k h"
    from r(4) have "bytes_at q (length (utos status_code)) h' = utos status_code" "cells h' (q + length (utos status_code)) = CHR 0x00"
      by (simp_all add: bytes_at_append) (simp_all add: bytes_at_def)
    with r None show ?thesis by (auto simp: stringify_status_ref_def status_text_def)
  qed (simp add: stringify_status_ref_def None)
next
  case (Some s)
  with stringify_status_utos [of status_code] show ?thesis by (simp add: stringify_status_ref_def stringify_status_def status_text_def)
qed

theorem stringify_status_in_memory_witness:
  "\<exists>p A h. alloc_inv A h [(p, 20)] \<and>
     (case stringify_status_ref bump_new 299 A h of Inl e \<Rightarrow> e = Bad_alloc | Inr (r, A', h') \<Rightarrow> status_text r h' = utos 299)"
proof -
  obtain p A h where inv: "alloc_inv A h [(p, 20)]" using demo_alloc by blast
  have "299 < (2 :: nat) ^ 64" by simp
  from stringify_status_in_memory [OF bump.allocation_axioms inv this] inv show ?thesis
    by (intro exI [of _ p] exI [of _ A] exI [of _ h]) (auto split: sum.splits)
qed

end
