(* ===== verification/String_Ref.thy ===== *)
theory String_Ref
  imports Util "HOL-Library.List_Lexorder"
begin

unbundle bit_operations_syntax

text \<open>
  \<open>lib/template.h\<close>: comparison, concatenation and hashing of \<open>StringRef\<close>, by the bytes they refer to, and
  the size literals.
\<close>

section \<open>Literals\<close>

definition lit_k :: "64 word \<Rightarrow> 64 word" where "lit_k k = k * 1024"

definition lit_m :: "64 word \<Rightarrow> 64 word" where "lit_m m = m * 1024 * 1024"

definition lit_g :: "64 word \<Rightarrow> 64 word" where "lit_g g = g * 1024 * 1024 * 1024"

section \<open>References to strings\<close>

text \<open>A null pointer gives the empty string; a C string ends before its first zero byte.\<close>

definition from_maybe_nullptr :: "string option \<Rightarrow> string" where
  "from_maybe_nullptr s = (case s of None \<Rightarrow> [] | Some s \<Rightarrow> takeWhile (\<lambda>c. c \<noteq> CHR 0x00) s)"

definition string_ref_eq :: "string \<Rightarrow> string \<Rightarrow> bool" where
  "string_ref_eq lhs rhs \<longleftrightarrow> length lhs = length rhs \<and> list_all2 (=) lhs rhs"

definition string_ref_neq :: "string \<Rightarrow> string \<Rightarrow> bool" where
  "string_ref_neq lhs rhs \<longleftrightarrow> \<not> string_ref_eq lhs rhs"

text \<open>\<open>std::lexicographical_compare\<close> with the built-in \<open><\<close> of (signed) \<open>char\<close>.\<close>

fun string_ref_less :: "string \<Rightarrow> string \<Rightarrow> bool" where
  "string_ref_less [] [] = False"
| "string_ref_less [] (d # ds) = True"
| "string_ref_less (c # cs) [] = False"
| "string_ref_less (c # cs) (d # ds) =
     (if schar c < schar d then True else if schar d < schar c then False else string_ref_less cs ds)"

definition string_ref_append :: "string \<Rightarrow> string \<Rightarrow> string" where
  "string_ref_append lhs rhs = lhs @ rhs"

definition hash_step :: "u32 \<Rightarrow> char \<Rightarrow> u32" where
  "hash_step h c =
     (let h = h XOR of_char c
      in h + (push_bit 1 h + push_bit 4 h + push_bit 7 h + push_bit 8 h + push_bit 24 h))"

definition string_ref_hash :: "string \<Rightarrow> u32" where
  "string_ref_hash s = foldl hash_step 2166136261 s"

section \<open>Equality and order\<close>

lemma string_ref_eq_iff: "string_ref_eq a b \<longleftrightarrow> a = b"
  by (auto simp: string_ref_eq_def list.rel_eq)

lemma schar_inj: "schar c = schar d \<longleftrightarrow> c = d"
proof
  assume "schar c = schar d"
  then have "(of_char c :: int) = of_char d"
    using of_char_int_range [of c] of_char_int_range [of d] by (auto simp: schar_def Let_def split: if_splits)
  then show "c = d" by (metis of_char_eq_iff)
qed simp

lemma string_ref_less_irrefl: "\<not> string_ref_less a a"
  by (induction a) auto

lemma string_ref_less_trans: "string_ref_less a b \<Longrightarrow> string_ref_less b c \<Longrightarrow> string_ref_less a c"
proof (induction a b arbitrary: c rule: string_ref_less.induct)
  case (2 d ds)
  then show ?case by (cases c) auto
next
  case (4 x xs y ys)
  then show ?case by (cases c) (auto split: if_splits)
qed auto

lemma string_ref_less_total: "string_ref_less a b \<or> a = b \<or> string_ref_less b a"
  by (induction a b rule: string_ref_less.induct) (auto simp: schar_inj [symmetric])

interpretation sref: linorder "\<lambda>a b. a = b \<or> string_ref_less a b" string_ref_less
  by unfold_locales (use string_ref_less_irrefl string_ref_less_trans string_ref_less_total in blast)+

section \<open>Properties\<close>

text \<open>
  The shift-and-add hash of a string is the 32-bit FNV-1a hash: each byte is combined by exclusive or and
  the result multiplied by the FNV prime modulo \<open>2 ^ 32\<close>.
\<close>

theorem string_ref_hash_fnv1a:
  "string_ref_hash s = foldl (\<lambda>h c. (h XOR of_char c) * 16777619) 2166136261 s"
proof -
  have "hash_step h c = (h XOR of_char c) * 16777619" for h c
    by (simp add: hash_step_def Let_def push_bit_eq_mult algebra_simps)
  then have "hash_step = (\<lambda>h c. (h XOR of_char c) * 16777619)" by (intro ext)
  then show ?thesis by (simp add: string_ref_hash_def)
qed

end
