(* ===== verification/String_View.thy ===== *)
theory String_View
  imports Allocator String_Ref
begin

text \<open>
  \<open>StringRef\<close> of \<open>lib/template.h\<close> as the class is: a base address and a length over a memory that it does not own. The
  constructors, the accessors and the operators read the memory byte by byte and a read outside of its areas is an error value. The
  refinement relates them to the operators on byte strings of \<open>String_Ref\<close>. The areas are the storage of the strings referred
  to, the literals of the program included. Also the scope guard \<open>Defer\<close>.
\<close>

section \<open>Reading memory\<close>

definition read_byte :: "addr \<Rightarrow> memory \<Rightarrow> mem_error + char" where
  "read_byte a h = (if in_area a 1 h then Inr (cells h a) else Inl Bad_access)"

definition area_end :: "memory \<Rightarrow> nat" where
  "area_end h = foldr (\<lambda>(b, m) e. max (b + m) e) (areas h) 0"

lemma area_end_bound: "in_area a 1 h \<Longrightarrow> a < area_end h"
proof -
  have "(b, m) \<in> set L \<Longrightarrow> b + m \<le> foldr (\<lambda>(b, m) e. max (b + m) e) L 0" for b m :: nat and L
    by (induction L) auto
  then show "in_area a 1 h \<Longrightarrow> a < area_end h" by (fastforce simp: in_area_iff area_end_def)
qed

function strlen :: "addr \<Rightarrow> memory \<Rightarrow> mem_error + nat" where
  "strlen s h =
     (if \<not> in_area s 1 h then Inl Bad_access
      else if cells h s = CHR 0x00 then Inr 0
      else bind_m (strlen (s + 1) h) (\<lambda>n. Inr (n + 1)))"
  by auto
termination
  by (relation "measure (\<lambda>(s, h). area_end h - s)") (use area_end_bound in fastforce)+

declare strlen.simps [simp del]

section \<open>Constructors\<close>

text \<open>\<open>lit\<close> is where the compiler puts the literal \<open>""\<close>. A \<open>std::string\<close> is given by its \<open>c_str()\<close> and \<open>size()\<close>.\<close>

definition StringRef :: "addr \<Rightarrow> string_ref" where
  "StringRef lit = (lit, 0)"

definition StringRef_string :: "addr \<times> nat \<Rightarrow> string_ref" where
  "StringRef_string s = (fst s, snd s)"

definition StringRef_cstr :: "addr \<Rightarrow> memory \<Rightarrow> mem_error + string_ref" where
  "StringRef_cstr s h = bind_m (strlen s h) (\<lambda>n. Inr (s, n))"

definition StringRef_n :: "addr \<Rightarrow> nat \<Rightarrow> string_ref" where
  "StringRef_n s n = (s, n)"

text \<open>\<open>std::distance\<close> is signed and becomes a \<open>size_t\<close>.\<close>

definition StringRef_range :: "addr \<Rightarrow> addr \<Rightarrow> string_ref" where
  "StringRef_range first past = (first, nat ((int past - int first) mod 2 ^ 64))"

definition str_size :: "nat \<Rightarrow> nat" where
  "str_size N = N - 1"

text \<open>A literal is an array of \<open>N\<close> characters, the terminating zero included.\<close>

definition from_lit :: "addr \<Rightarrow> nat \<Rightarrow> string_ref" where
  "from_lit s N = StringRef_n s (N - 1)"

definition from_maybe_nullptr_ref :: "addr \<Rightarrow> addr option \<Rightarrow> memory \<Rightarrow> mem_error + string_ref" where
  "from_maybe_nullptr_ref lit s h = (case s of None \<Rightarrow> Inr (StringRef lit) | Some s \<Rightarrow> StringRef_cstr s h)"

section \<open>Accessors\<close>

definition sr_begin :: "string_ref \<Rightarrow> addr" where "sr_begin r = fst r"

definition sr_end :: "string_ref \<Rightarrow> addr" where "sr_end r = fst r + snd r"

definition sr_size :: "string_ref \<Rightarrow> nat" where "sr_size r = snd r"

definition sr_empty :: "string_ref \<Rightarrow> bool" where "sr_empty r \<longleftrightarrow> snd r = 0"

text \<open>No check of the position against the length.\<close>

definition sr_at :: "string_ref \<Rightarrow> nat \<Rightarrow> memory \<Rightarrow> mem_error + char" where
  "sr_at r pos h = read_byte (fst r + pos) h"

definition sr_str :: "string_ref \<Rightarrow> memory \<Rightarrow> mem_error + string" where
  "sr_str r h = read_bytes (fst r) (snd r) h"

section \<open>Operators\<close>

text \<open>\<open>std::equal\<close> on \<open>n\<close> bytes, and \<open>std::lexicographical_compare\<close>.\<close>

fun equal_range :: "nat \<Rightarrow> addr \<Rightarrow> addr \<Rightarrow> memory \<Rightarrow> mem_error + bool" where
  "equal_range 0 a b h = Inr True"
| "equal_range (Suc n) a b h =
     bind_m (read_byte a h) (\<lambda>c.
     bind_m (read_byte b h) (\<lambda>d. if c = d then equal_range n (a + 1) (b + 1) h else Inr False))"

fun less_range :: "nat \<Rightarrow> addr \<Rightarrow> nat \<Rightarrow> addr \<Rightarrow> memory \<Rightarrow> mem_error + bool" where
  "less_range m a 0 b h = Inr False"
| "less_range 0 a (Suc n) b h = Inr True"
| "less_range (Suc m) a (Suc n) b h =
     bind_m (read_byte a h) (\<lambda>c.
     bind_m (read_byte b h) (\<lambda>d.
       if schar c < schar d then Inr True
       else if schar d < schar c then Inr False
       else less_range m (a + 1) n (b + 1) h))"

definition sr_eq :: "string_ref \<Rightarrow> string_ref \<Rightarrow> memory \<Rightarrow> mem_error + bool" where
  "sr_eq lhs rhs h =
     (if sr_size lhs = sr_size rhs then equal_range (sr_size lhs) (sr_begin lhs) (sr_begin rhs) h else Inr False)"

definition sr_eq_cstr :: "string_ref \<Rightarrow> addr \<Rightarrow> memory \<Rightarrow> mem_error + bool" where
  "sr_eq_cstr lhs rhs h =
     bind_m (strlen rhs h) (\<lambda>n. if sr_size lhs = n then equal_range (sr_size lhs) (sr_begin lhs) rhs h else Inr False)"

definition sr_less :: "string_ref \<Rightarrow> string_ref \<Rightarrow> memory \<Rightarrow> mem_error + bool" where
  "sr_less lhs rhs h =
     less_range (sr_end lhs - sr_begin lhs) (sr_begin lhs) (sr_end rhs - sr_begin rhs) (sr_begin rhs) h"

text \<open>\<open>operator<<\<close> writes to a stream, given by what was written to it; \<open>operator+=\<close> appends to a \<open>std::string\<close>.\<close>

definition sr_output :: "string \<Rightarrow> string_ref \<Rightarrow> memory \<Rightarrow> mem_error + string" where
  "sr_output out r h = bind_m (read_bytes (sr_begin r) (sr_size r) h) (\<lambda>s. Inr (out @ s))"

definition sr_append :: "string \<Rightarrow> string_ref \<Rightarrow> memory \<Rightarrow> mem_error + string" where
  "sr_append lhs r h = bind_m (read_bytes (sr_begin r) (sr_size r) h) (\<lambda>s. Inr (lhs @ s))"

fun hash_range :: "nat \<Rightarrow> addr \<Rightarrow> u32 \<Rightarrow> memory \<Rightarrow> mem_error + u32" where
  "hash_range 0 a v h = Inr v"
| "hash_range (Suc n) a v h = bind_m (read_byte a h) (\<lambda>c. hash_range n (a + 1) (hash_step v c) h)"

definition sr_hash :: "string_ref \<Rightarrow> memory \<Rightarrow> mem_error + u32" where
  "sr_hash r h = hash_range (sr_end r - sr_begin r) (sr_begin r) 2166136261 h"

section \<open>The bytes referred to\<close>

definition contents :: "string_ref \<Rightarrow> memory \<Rightarrow> string" where
  "contents r h = bytes_at (fst r) (snd r) h"

definition readable :: "string_ref \<Rightarrow> memory \<Rightarrow> bool" where
  "readable r h \<longleftrightarrow> in_area (fst r) (snd r) h"

lemma bytes_at_Suc: "bytes_at a (Suc n) h = cells h a # bytes_at (Suc a) n h"
  using bytes_at_append [of a 1 n h] by (simp add: bytes_at_def)

lemma bytes_at_0 [simp]: "bytes_at a 0 h = []"
  by (simp add: bytes_at_def)

lemma in_area_part: "in_area a n h \<Longrightarrow> a \<le> b \<Longrightarrow> b + m \<le> a + n \<Longrightarrow> in_area b m h"
  unfolding in_area_iff by (elim bexE, rule bexI) auto

lemma read_byte_Suc:
  assumes "in_area a (Suc n) h"
  shows "read_byte a h = Inr (cells h a)" "in_area (Suc a) n h"
  using assms in_area_part [OF assms, of a 1] in_area_part [OF assms, of "Suc a" n] by (simp_all add: read_byte_def)

lemma equal_range_bytes:
  "in_area a n h \<Longrightarrow> in_area b n h \<Longrightarrow> equal_range n a b h = Inr (bytes_at a n h = bytes_at b n h)"
  by (induction n a b h rule: equal_range.induct) (simp_all add: read_byte_Suc bytes_at_Suc)

lemma less_range_bytes:
  "in_area a m h \<Longrightarrow> in_area b n h \<Longrightarrow> less_range m a n b h = Inr (string_ref_less (bytes_at a m h) (bytes_at b n h))"
proof (induction m a n b h rule: less_range.induct)
  case (1 m a b h)
  then show ?case by (cases m) (simp_all add: bytes_at_Suc)
qed (simp_all add: read_byte_Suc bytes_at_Suc)

lemma hash_range_bytes: "in_area a n h \<Longrightarrow> hash_range n a v h = Inr (foldl hash_step v (bytes_at a n h))"
  by (induction n a v h rule: hash_range.induct) (simp_all add: read_byte_Suc bytes_at_Suc)

lemma strlen_bytes:
  "in_area s (Suc n) h \<Longrightarrow> cells h (s + n) = CHR 0x00 \<Longrightarrow> CHR 0x00 \<notin> set (bytes_at s n h) \<Longrightarrow> strlen s h = Inr n"
proof (induction n arbitrary: s)
  case 0
  then show ?case by (simp add: strlen.simps)
next
  case (Suc n)
  have "strlen (Suc s) h = Inr n"
    using Suc.prems read_byte_Suc(2) [OF Suc.prems(1)] by (intro Suc.IH) (simp_all add: bytes_at_Suc)
  moreover have "in_area s 1 h" by (rule in_area_part [OF Suc.prems(1)]) simp_all
  ultimately show ?case using Suc.prems(3) by (subst strlen.simps) (auto simp: bytes_at_Suc)
qed

section \<open>The scope guard\<close>

text \<open>
  \<open>Defer\<close> binds a function and its arguments and calls it when it is destroyed. \<open>None\<close> is an empty \<open>std::function\<close>, whose call
  throws out of the destructor, which ends the program (the result \<open>None\<close>). What a move leaves in its source is not specified by the language, so it
  is a parameter.
\<close>

type_synonym 'w deferred = "('w \<Rightarrow> 'w) option"

definition Defer_new :: "('t \<Rightarrow> 'w \<Rightarrow> 'w) \<Rightarrow> 't \<Rightarrow> 'w deferred" where
  "Defer_new f t = Some (f t)"

definition Defer_move :: "'w deferred \<Rightarrow> 'w deferred \<Rightarrow> 'w deferred \<times> 'w deferred" where
  "Defer_move left d = (d, left)"

definition Defer_delete :: "'w deferred \<Rightarrow> 'w \<Rightarrow> 'w option" where
  "Defer_delete d w = map_option (\<lambda>f. f w) d"

text \<open>A guard in a block: the body runs, then the deferred call.\<close>

definition with_deferred :: "'w deferred \<Rightarrow> ('w \<Rightarrow> 'w) \<Rightarrow> 'w \<Rightarrow> 'w option" where
  "with_deferred d body w = Defer_delete d (body w)"

lemma deferred_once: "with_deferred (Defer_new f t) body w = Some (f t (body w))"
  by (simp add: with_deferred_def Defer_new_def Defer_delete_def)

lemma moved_guard_ends_program:
  "Defer_move None (Defer_new f t) = (d, src) \<Longrightarrow> Defer_delete src w = None \<and> Defer_delete d w = Some (f t w)"
  by (auto simp: Defer_move_def Defer_new_def Defer_delete_def)

section \<open>Properties\<close>

text \<open>
  C27: the operators of \<open>StringRef\<close> refine those of byte strings: for references inside of the storage they read no byte outside of it and
  return what the operator on the bytes returns; only the order and the bytes matter, not the addresses.
\<close>

theorem string_view_refines:
  assumes "readable r h" "readable s h"
  shows "sr_eq r s h = Inr (string_ref_eq (contents r h) (contents s h)) \<and>
    sr_less r s h = Inr (string_ref_less (contents r h) (contents s h)) \<and>
    sr_hash r h = Inr (string_ref_hash (contents r h)) \<and>
    sr_append lhs r h = Inr (string_ref_append lhs (contents r h)) \<and> sr_output lhs r h = Inr (lhs @ contents r h) \<and>
    sr_str r h = Inr (contents r h) \<and> sr_size r = length (contents r h) \<and> sr_empty r = (contents r h = []) \<and>
    (\<forall>pos < sr_size r. sr_at r pos h = Inr (contents r h ! pos))"
proof -
  obtain a m b n where rs: "r = (a, m)" "s = (b, n)" by (cases r, cases s)
  have i: "in_area a m h" "in_area b n h" using assms by (simp_all add: rs readable_def)
  have at: "sr_at r pos h = Inr (contents r h ! pos)" if "pos < m" for pos
    using that in_area_part [OF i(1), of "a + pos" 1] by (simp add: rs sr_at_def read_byte_def contents_def bytes_at_def)
  have "m \<noteq> n \<Longrightarrow> bytes_at a m h \<noteq> bytes_at b n h" by (metis length_bytes_at)
  with i at show ?thesis
    by (auto simp: rs contents_def sr_eq_def sr_less_def sr_hash_def sr_append_def sr_output_def sr_str_def sr_size_def sr_empty_def
        sr_begin_def sr_end_def read_bytes_def string_ref_eq_iff equal_range_bytes less_range_bytes hash_range_bytes
        string_ref_hash_def string_ref_append_def simp flip: length_0_conv)
qed

definition view_memory :: memory where
  "view_memory = \<lparr>cells = (\<lambda>x. (''ab'' @ [CHR 0x00] @ ''ac'' @ [CHR 0x00]) ! x), areas = [(0, 3), (3, 3)]\<rparr>"

theorem string_view_refines_witness:
  "sr_eq (from_lit 0 3) (from_lit 3 3) view_memory = Inr False \<and> sr_less (from_lit 0 3) (from_lit 3 3) view_memory = Inr True"
proof -
  have "readable (from_lit 0 3) view_memory" "readable (from_lit 3 3) view_memory"
    by (simp_all add: readable_def from_lit_def StringRef_n_def view_memory_def in_area_def)
  from string_view_refines [OF this] show ?thesis
    by (simp add: contents_def from_lit_def StringRef_n_def view_memory_def bytes_at_def string_ref_eq_iff schar_def upt_rec)
qed

text \<open>
  The constructors refer to what they are given: a zero-terminated string up to its first zero byte, a literal without its
  terminating zero, a range of addresses all of it; comparing with a C string compares with its bytes.
\<close>

theorem string_view_constructors:
  assumes "in_area p (Suc (length s)) h" "bytes_at p (Suc (length s)) h = s @ [CHR 0x00]" "length s < 2 ^ 64"
  shows "contents (from_lit p (Suc (length s))) h = s \<and> contents (StringRef_range p (p + length s)) h = s \<and>
    contents (StringRef_string (p, length s)) h = s \<and>
    (CHR 0x00 \<notin> set s \<longrightarrow> from_maybe_nullptr_ref lit (Some p) h = Inr (p, length s) \<and>
      (\<forall>r. readable r h \<longrightarrow> sr_eq_cstr r p h = Inr (contents r h = s)))"
proof -
  have b: "bytes_at p (length s) h = s" "cells h (p + length s) = CHR 0x00"
    using assms(2) bytes_at_append [of p "length s" 1 h] by (auto simp: bytes_at_def)
  have part: "in_area p (length s) h" by (rule in_area_part [OF assms(1)]) simp_all
  have len: "strlen p h = Inr (length s)" if "CHR 0x00 \<notin> set s"
    using that b assms(1) by (intro strlen_bytes) simp_all
  have "sr_eq_cstr r p h = Inr (contents r h = s)" if "CHR 0x00 \<notin> set s" "readable r h" for r
  proof (cases "snd r = length s")
    case True
    with that b part len show ?thesis
      by (simp add: sr_eq_cstr_def sr_size_def sr_begin_def readable_def contents_def equal_range_bytes)
  next
    case False
    then have "contents r h \<noteq> s" by (metis contents_def length_bytes_at)
    with False len that(1) show ?thesis by (simp add: sr_eq_cstr_def sr_size_def)
  qed
  with b len assms(3) show ?thesis
    by (simp add: contents_def from_lit_def StringRef_n_def StringRef_range_def StringRef_string_def from_maybe_nullptr_ref_def StringRef_cstr_def)
qed

theorem string_view_constructors_witness:
  "from_maybe_nullptr_ref 9 (Some 3) view_memory = Inr (3, 2) \<and> contents (from_lit 3 3) view_memory = ''ac''"
proof -
  have "in_area 3 (Suc (length ''ac'')) view_memory" "bytes_at 3 (Suc (length ''ac'')) view_memory = ''ac'' @ [CHR 0x00]"
    by (simp_all add: view_memory_def in_area_def bytes_at_def upt_rec)
  from string_view_constructors [OF this, of 9] show ?thesis by (simp add: numeral_3_eq_3)
qed

end
