(* ===== verification/Dtos.thy ===== *)
theory Dtos
  imports Util "HOL-Library.Signed_Division"
begin

text \<open>
  \<open>dtos\<close> of \<open>lib/util.cc\<close> with \<open>utos\<close> of \<open>lib/util.h\<close> at the signed type \<open>dtos\<close> calls it with. The C division
  and remainder round towards zero. Values of \<open>long long\<close> are the integers of their range; no operation leaves it.
\<close>

section \<open>Operations\<close>

text \<open>\<open>utos\<close> for a signed type: the length, and the digits from the right; \<open>n % 10\<close> has the sign of \<open>n\<close>.\<close>

function utos_signed_len :: "int \<Rightarrow> nat" where
  "utos_signed_len t = (if t = 0 then 0 else Suc (utos_signed_len (t sdiv 10)))"
  by auto
termination
  by (relation "measure (\<lambda>t. nat \<bar>t\<bar>)") (auto simp: signed_divide_int_def sgn_if)

function utos_signed_fill :: "int \<Rightarrow> nat \<Rightarrow> string \<Rightarrow> string" where
  "utos_signed_fill n nlen res =
     (if n = 0 then res
      else utos_signed_fill (n sdiv 10) (nlen - 1) (res[nlen - 1 := char_of (n smod 10 + 48)]))"
  by auto
termination
  by (relation "measure (\<lambda>(n, _). nat \<bar>n\<bar>)") (auto simp: signed_divide_int_def sgn_if)

declare utos_signed_len.simps [simp del] utos_signed_fill.simps [simp del]

definition utos_signed :: "int \<Rightarrow> string" where
  "utos_signed n =
     (if n = 0 then ''0''
      else utos_signed_fill n (utos_signed_len n) (replicate (utos_signed_len n) (CHR 0x00)))"

text \<open>\<open>hundred n\<close> is \<open>llround(100. * n)\<close>, the product rounded to the nearest integer by the C library.\<close>

definition dtos :: "('d \<Rightarrow> int) \<Rightarrow> 'd \<Rightarrow> string" where
  "dtos hundred n =
     (let m = hundred n;
          f = utos_signed (m smod 100)
      in utos_signed (m sdiv 100) @ ''.'' @ (if length f = 1 then ''0'' else []) @ f)"

section \<open>Numbers that are not negative\<close>

lemma trunc_nat [simp]: "int n sdiv numeral k = int (n div numeral k)" "int n smod numeral k = int (n mod numeral k)"
  by (cases "n = 0"; simp add: signed_divide_int_def signed_modulo_int_def zdiv_int zmod_int)+

lemma utos_signed_len_nat: "utos_signed_len (int n) = utos_len n"
  by (induction n rule: utos_len.induct)
    (subst utos_signed_len.simps, subst utos_len.simps, simp)

lemma utos_signed_fill_nat: "utos_signed_fill (int n) k res = utos_fill n k res"
proof (induction n k res rule: utos_fill.induct)
  case (1 n k res)
  have "(char_of (int (n mod 10) + 48) :: char) = char_of (n mod 10 + 48)"
    using char_of_nat [where ?'a = int, of "n mod 10 + 48"] by (simp only: of_nat_add of_nat_numeral)
  with 1 show ?case by (subst utos_signed_fill.simps, subst utos_fill.simps) simp
qed

lemma utos_signed_nat: "utos_signed (int n) = utos n"
  by (simp add: utos_signed_def utos_def utos_signed_len_nat utos_signed_fill_nat)

lemma utos_short: "n < 100 \<Longrightarrow> length (utos n) = (if n < 10 then 1 else 2)"
  by (auto simp: utos_digits digits_rec)

section \<open>Properties\<close>

text \<open>
  A number that is not negative is printed as its hundredths: the digits before the point are those of the integer part and exactly two
  digits follow it.
\<close>

theorem dtos_hundredths:
  assumes "0 \<le> hundred n"
  shows "\<exists>f. dtos hundred n = utos (nat (hundred n) div 100) @ ''.'' @ f \<and> length f = 2 \<and> (\<forall>c \<in> set f. is_digit c) \<and>
    nat (hundred n) = 100 * dec_value (utos (nat (hundred n) div 100)) + dec_value f"
proof -
  obtain m where m: "hundred n = int m" using assms nonneg_int_cases by blast
  let ?f = "utos (m mod 100)"
  have z: "dec_value (CHR ''0'' # s) = dec_value s" for s by (simp add: dec_value_def)
  let ?g = "(if length ?f = 1 then ''0'' else []) @ ?f"
  have "dtos hundred n = utos (m div 100) @ ''.'' @ ?g"
    by (simp add: dtos_def m utos_signed_nat Let_def)
  moreover have "length ?g = 2" using utos_short [of "m mod 100"] by auto
  moreover have "\<forall>c \<in> set ?g. is_digit c" using utos_digit [of _ "m mod 100"] by (auto simp: is_digit_def)
  moreover have "m = 100 * dec_value (utos (m div 100)) + dec_value ?g" by (simp add: dec_value_utos z)
  ultimately show ?thesis unfolding m nat_int by blast
qed

theorem dtos_hundredths_witness:
  "\<exists>f. dtos (\<lambda>n. n) 1205 = utos 12 @ ''.'' @ f \<and> length f = 2 \<and> dec_value f = 5"
  using dtos_hundredths [of "\<lambda>n. n" 1205] by (auto simp: dec_value_utos)

text \<open>A negative number loses its sign and its digits: \<open>-1.50\<close> is printed as \<open>/.+0\<close>.\<close>

theorem dtos_negative: "dtos (\<lambda>n. n) (- 150) = ''/.+0''"
  by (simp add: char_of_def dtos_def utos_signed_def utos_signed_len.simps utos_signed_fill.simps signed_divide_int_def signed_modulo_int_def)

end
