(* ===== verification/Spec2Isabelle.thy ===== *)
theory Spec2Isabelle
  imports Server_Facade Server_Output Stream_Close Client_Connect Client_Output Exchange Body_Exchange Tls_Context Number_Ref String_View Dtos
begin

text \<open>
  Verification of \<^bold>\<open>nghttp2-asio\<close>, the C++ library that puts HTTP/2 servers and clients on top of
  the nghttp2 C library and asio. The sources are under \<open>src/lib\<close> (and the vendored URL parser under
  \<open>src/third-party/url-parser\<close>).

  \<^bold>\<open>The program and its parts.\<close> A server (\<open>asio_server*.cc\<close>) binds acceptors, accepts connections over TCP or TLS, and
  gives each connection (\<open>asio_server_connection.h\<close>) a handler (\<open>asio_server_http2_handler.cc\<close>) that owns the nghttp2
  session and the table of streams. Bytes read from the socket go into the session; its callbacks fill requests, and
  a finished request is routed by the multiplexer (\<open>asio_server_serve_mux.cc\<close>) to a handler of the application, which
  answers through a response object. Bytes to send are collected from the session into a 64 KiB buffer and written. A client
  (\<open>asio_client_session*.cc\<close>) resolves and connects, negotiates HTTP/2, submits requests for URLs, and
  runs the application's callbacks from those of its session. Both rest on helpers: character classes, percent
  coding and number parsing (\<open>util.*\<close>), path normalisation and header tokens (\<open>http2.*\<close>), dates (\<open>timegm.c\<close>,
  \<open>util.cc\<close>), URL parsing, a block allocator (\<open>allocator.h\<close>) and string references (\<open>template.h\<close>).

  \<^bold>\<open>Theories.\<close>
  \<^item> \<open>Prelude\<close>: types of machine integers and characters, shared lemmas on lists, characters and words.
  \<^item> \<open>Util\<close>, \<open>Alpn\<close>, \<open>Dtos\<close>: \<open>util.cc\<close>, \<open>util.h\<close>. \<open>Tls_Context\<close>: \<open>asio_server_tls_context.cc\<close>, \<open>asio_client_tls_context.cc\<close>, \<open>tls.h\<close>.
  \<^item> \<open>Http2_Tokens\<close>, \<open>Path_Join\<close>: \<open>http2.cc\<close>, \<open>http2.h\<close>. \<open>Http_Date\<close>: \<open>timegm.c\<close> and \<open>http_date\<close>.
  \<^item> \<open>Url_Parser\<close>: \<open>url_parser.c\<close>, both state machines with their 16-bit offsets. \<open>String_Ref\<close>: the operators of
    \<open>template.h\<close> on byte strings; \<open>String_View\<close>: \<open>StringRef\<close> as base and length over the memory of \<open>Allocator\<close>, refining them, and \<open>Defer\<close>.
  \<^item> \<open>Allocator\<close>: \<open>allocator.h\<close> over an explicit byte memory. \<open>Number_Ref\<close>: numbers and statuses written into it.
  \<^item> \<open>Common\<close>: \<open>asio_common.*\<close>, \<open>asio_http2.h\<close> (header maps, URI references, error codes, body generators).
  \<^item> \<open>Ordered_Map\<close>: \<open>std::map\<close> as a sorted association list, behind the locale \<open>ordered_map\<close>.
  \<^item> \<open>Nghttp2\<close>: the interface to the nghttp2 library, and the two loops both sides share.
  \<^item> \<open>Server_Data\<close>, \<open>Serve_Mux\<close>, \<open>Server_Handler\<close>, \<open>Server_Response\<close>, \<open>Server_Connection\<close>, \<open>Io_Pool\<close>, \<open>Server_Listen\<close>,
    \<open>Server_Facade\<close>: the server from its objects up to the accept loop, \<open>http2_impl\<close> and the facade \<open>http2\<close>.
  \<^item> \<open>Server_Runs\<close>: what holds of every connection of a server along its runs. \<open>Server_Output\<close>: the runs of one connection as
    lists of events, and the byte pipe they implement.
  \<^item> \<open>Client_Data\<close>, \<open>Client_Session\<close>, \<open>Client_Safety\<close>, \<open>Client_Requests\<close>, \<open>Client_Connect\<close>: the client from its objects
    up to the construction and connection of a session. \<open>Client_Log\<close>, \<open>Client_Output\<close>: its runs as lists of events with a
    ghost log at the library, the erasure of the log, and the byte pipe they implement.
  \<^item> \<open>Header_Blocks\<close>: what both sides make of a header block the library delivers. \<open>Stream_Close\<close>: the end of a stream on
    both sides. \<open>Exchange\<close>: requests and responses from one end to the other, with the libraries in between as an assumption;
    \<open>Body_Exchange\<close>: the body of a response.

  \<^bold>\<open>How state and operations correspond.\<close> Every class is a record with the class's fields, every method a
  function on it that returns the updated record, and every early return, failed assertion or exception a branch: the
  type \<open>fault + 'a\<close> has the undefined or aborting outcomes (\<open>Guard_assert\<close>, \<open>Duplicate_stream\<close>, \<open>Dangling_stream\<close>,
  \<open>Buffer_overrun\<close>, \<open>Reentered\<close>, \<open>Path_fault\<close>), so that their absence is a theorem. Stream objects are referred to by stream
  id instead of pointer; access to a stream that is gone is the fault \<open>Dangling_stream\<close>. The nghttp2 library is a parameter:
  its session is a type variable, its functions the fields of the record \<open>nghttp2\<close>; a function that calls back is a
  tree of callbacks, each with the continuation on the answer, so that any order and number of callbacks is
  covered. The application is a parameter too: its callbacks return programs over the public calls, getters included. An
  asynchronous operation of asio is a flag that it is outstanding, its completion an event; the step relations
  \<open>conn_step\<close>, \<open>server_step\<close>, \<open>client_step\<close> and \<open>connect_step\<close> have one rule per completion, timer and application call.

  \<^bold>\<open>Interfaces.\<close> \<open>ordered_map\<close> and \<open>multimap\<close> (what the stream tables and header maps rely on), \<open>callback_object\<close>
  and \<open>callback_guard\<close> (what an object must guarantee so that every run of the library keeps its invariant;
  interpreted for the server's handler and for the client's session), \<open>client_ops\<close> (the operations of the client that any
  caller may use, interpreted for sessions that keep the invariant, that do not read, that log their output), \<open>client_callbacks\<close>
  (what such operations keep inside of a callback, every callback of the library keeps), \<open>byte_log\<close> (a library that records what it
  sends, interpreted for any library with a log added), \<open>erased_flush\<close> (operations commute with erasing the log), \<open>connection_property\<close> (what
  a property of one connection must satisfy to hold of every connection of a server; interpreted for the invariant, for the armed
  deadline and for the timeouts) and \<open>allocation\<close> (what the allocator relies on of \<open>operator new\<close>).

  \<^bold>\<open>What is shown.\<close>
  \<^item> Safety and invariants: handler, connection, client session and the server as a whole keep their
    invariants along every run, the faults of the guard, the buffers and of reentrance do not happen; stopped
    sessions stay inert; connecting ends in an established HTTP/2 session, an error or the connect timeout; acceptors keep accepting;
    every running connection has an armed deadline that stops it when its peer stalls.
  \<^item> Both ends: a request submitted for a URL reaches the handler that the server's routing table selects, with the client's
    method, URI and fields; a response reaches the request's callback with the server's status and fields; a pushed request
    reaches the push callback as the server keeps it; the body given to a response reaches the client's data callback byte for byte.
  \<^item> No loss: over a whole run a server connection, and a client session from its connection on, implement a first-in first-out
    byte pipe from the library to the socket.
  \<^item> Refinement: a response follows its life cycle (\<open>INITIAL\<close>, \<open>HEADER_DONE\<close>, \<open>BODY_STARTED\<close>) and is submitted at most once;
    \<open>StringRef\<close> reads no byte outside of its storage and computes the operators on byte strings.
  \<^item> Types: the routing table is well formed after any sequence of registrations.
  \<^item> Functional results: request assembly, response fields, request fields for a URL, settings made through the facade, routing to
    the longest pattern, path cleaning, ALPN selection and its agreement with the check after the handshake, binding, reallocation.
  \<^item> Equivalence and round trips: token lookup against the table of names, path normalisation against a
    segment stack, URL composition and parsing, percent coding, dates, generators.
  \<^item> Bounds and termination: number parsing at the limits of 64 bits, URL offsets at 16 bits, header sizes, \<open>path_join\<close>'s buffer.
  \<^item> Errors the code has are stated as theorems as well: an off-site redirect, a handler lost to a
    redirect entry, a final response dropped after an interim one, the close of a stream lost during its submission, a reset
    of the wrong stream when a push promise is too large. Closed and unknown streams are inert on both sides.

  \<^bold>\<open>Bounds and fuel.\<close> All loops are total functions with termination proofs; only the retry of an
  interrupted \<open>read\<close> runs on the list of answers, and \<open>gen_drain\<close>, the caller's loop over a generator, takes fuel, for which
  the theorem states how much is enough. Sizes are 64 bits wide where they wrap in the allocator, ports and offsets 16
  bits, flags and hashes 32 bits. Times are numbers of seconds.

  \<^bold>\<open>Not modelled.\<close> Floating point (\<open>dtos\<close> takes the rounded product as given), \<open>make_array\<close> and
  the reverse iterators of \<open>template.h\<close> (language plumbing, not called), getters of io services and
  endpoints, failing \<open>set_option\<close> calls on accepted sockets, threads of one process
  racing for one connection (each connection belongs to one io service), and the platform headers.
\<close>

section \<open>Properties\<close>

text \<open>
  C10: along every run of a server that began to serve, with a library whose chunks fit into the 64 KiB write
  buffer, every connection it accepted satisfies the invariant of a connection, from the moment it is accepted, over TLS and
  in clear text, whatever the other connections and the application do: its stream table and header accounting are
  consistent, the callback guard is released between events and its writes stay within the buffer.
\<close>

theorem server_connections_safe:
  fixes sv :: "('s, 'u, 'ep) server"
  assumes "server_new n tls_timeout rd_timeout = Inr sv" "begin_serving N address prt backlog sv = Inr (ec, sv1)"
    "chunks_fit E" "server_reachable E null_session tls sv1 sv2"
  shows "\<forall>c \<in> set (conns sv2). conn_inv (sc_conn c)"
  using serving_fresh [OF assms(1,2)] by (intro conn_inv.server_reachable_P [OF assms(4,3)]) simp_all

theorem server_connections_safe_witness:
  "\<exists>sv2 :: (nat, unit, nat) server. length (conns sv2) = 1 \<and> (\<forall>c \<in> set (conns sv2). reading (sc_conn c) \<and> conn_inv (sc_conn c))"
proof -
  have fit: "chunks_fit demo_env" by (auto simp: chunks_fit_def handler_send_def demo_env_def counting_lib_def)
  obtain sv2 where r: "length (conns sv2) = 1" "\<forall>c \<in> set (conns sv2). reading (sc_conn c) \<and> \<not> stopped (sc_conn c)"
    and s: "begin_serving demo_network ''localhost'' ''3000'' (-1) demo_server = Inr (ec_clear, demo_serving)"
      "server_reachable demo_env 0 False demo_serving sv2" by (rule demo_accepts)
  from server_connections_safe [OF demo_server_new s(1) fit s(2)] r show ?thesis by blast
qed



text \<open>
  C3: a request means the same on both ends, and the right handler gets it: for every composed URL, method and header
  fields (names without a special meaning, 64 KiB in all) the client submits, the call that receives the delivered header block
  runs exactly the handler that the multiplexer selects for the request, on a request with the client's method, the
  URI reference the client keeps (scheme, authority with port, decoded and raw path, query), under every name the
  client's values in their order with their sensitivity, and the peer of the connection; a body that ended
  with the block is reported to the handler's data callback.
\<close>

theorem request_reaches_application:
  assumes "url_parts_ok sch h prt p q" "\<not> ipv6_numeric_addr (inet_pton E) h"
    "http_parser_parse_url (url_of sch h prt p q) False http_parser_url_init = Some u"
    "\<forall>(k, v) \<in> set hm. plain_name k" "sum_list (map (\<lambda>(k, v). length k + length (hvalue v)) hm) \<le> 65536"
    "delivers deliver (request_nva meth u (request_uri E u (url_of sch h prt p q)) hm)"
    "makes n (header_block fr (map deliver (request_nva meth u (request_uri E u (url_of sch h prt p q)) hm)))
       (mem_recv (lib ES) bytes (session sh))" "0 \<le> n"
    "server_inv sh" "\<not> inside_callback sh" "hd_type fr = HEADERS" "headers_cat fr = HCAT_REQUEST"
    "find_stream (hd_stream_id fr) sh = None"
  shows "\<exists>req f x g. rq_method req = meth \<and> rq_uri req = request_uri E u (url_of sch h prt p q) \<and>
    (\<forall>k. hm_range k (rq_header req) = hm_range k hm) \<and> remote_ep req = remote_endpoint sh \<and>
    handler req (mux ES) = Inr f \<and>
    on_read ES bytes sh =
      bind_f (run_user ES (f req (hd_stream_id fr))
          (put_stream (hd_stream_id fr) (stream_new\<lparr>strm_request := req\<rparr>) (sh\<lparr>session := x, inside_callback := True\<rparr>))) (\<lambda>h2.
      bind_f (if end_stream fr then call_on_data ES (hd_stream_id fr) [] h2 else Inr h2) (\<lambda>h3.
        Inr (0, h3\<lparr>session := g (session h3), inside_callback := False\<rparr>)))"
proof -
  define req where "req = (recv_headers (map deliver (request_nva meth u (request_uri E u (url_of sch h prt p q)) hm))
    request_impl_new)\<lparr>remote_ep := remote_endpoint sh\<rparr>"
  obtain f where f: "handler req (mux ES) = Inr f" using handler_total by blast
  from server_block [OF assms(7-13) req_def f] delivered_request [OF assms(1-6)] f show ?thesis
    by (intro exI [of _ req] exI [of _ f]) (simp add: req_def Let_def)
qed

definition demo_request :: "http_parser_url \<Rightarrow> nghttp2_nv list" where
  "demo_request u = request_nva ''GET'' u (request_uri demo_client_env u ''http://h.com/a?q'') []"

definition demo_frame :: "headers_category \<Rightarrow> nghttp2_frame" where
  "demo_frame cat = \<lparr>hd_type = HEADERS, hd_stream_id = 1, hd_flags = 1, headers_cat = cat, promised_stream_id = 0\<rparr>"

theorem request_reaches_application_witness:
  "\<exists>u req f. rq_method req = ''GET'' \<and> rq_uri req = request_uri demo_client_env u ''http://h.com/a?q'' \<and> handler req [] = Inr f \<and>
    (\<exists>x g. on_read (demo_env\<lparr>lib := block_lib (header_block (demo_frame HCAT_REQUEST) (map demo_deliver (demo_request u)))\<rparr>) ''x''
        (http2_handler_new demo_env [] 0 ()) =
      bind_f (run_user (demo_env\<lparr>lib := block_lib (header_block (demo_frame HCAT_REQUEST) (map demo_deliver (demo_request u)))\<rparr>) (f req 1)
        (put_stream 1 (stream_new\<lparr>strm_request := req\<rparr>) ((http2_handler_new demo_env [] 0 ())\<lparr>session := x, inside_callback := True\<rparr>))) (\<lambda>h2.
      bind_f (call_on_data (demo_env\<lparr>lib := block_lib (header_block (demo_frame HCAT_REQUEST) (map demo_deliver (demo_request u)))\<rparr>) 1 [] h2) (\<lambda>h3.
        Inr (0, h3\<lparr>session := g (session h3), inside_callback := False\<rparr>))))"
proof -
  note ok = demo_url_parts
  have E: "\<not> ipv6_numeric_addr (inet_pton demo_client_env) ''h.com''" by (simp add: demo_client_env_def ipv6_numeric_addr_def)
  from request_of_url [OF ok E] obtain u where
    u: "http_parser_parse_url (url_of ''http'' ''h.com'' None ''/a'' (Some ''q'')) False http_parser_url_init = Some u" by blast
  have eq: "url_of ''http'' ''h.com'' None ''/a'' (Some ''q'') = ''http://h.com/a?q''" by (simp add: url_of_def)
  have e: "\<forall>(k, v) \<in> set ([] :: header_map). plain_name k" "sum_list (map (\<lambda>(k, v). length k + length (hvalue v)) ([] :: header_map)) \<le> 65536"
    by simp_all
  let ?fr = "demo_frame HCAT_REQUEST"
  let ?ES = "demo_env\<lparr>lib := block_lib (header_block ?fr (map demo_deliver (demo_request u)))\<rparr>"
  let ?sh = "http2_handler_new demo_env [] 0 ()"
  have sh: "\<not> inside_callback ?sh" "find_stream 1 ?sh = None" by (simp_all add: http2_handler_new_def find_stream_def)
  have m: "makes (int (length ''x'')) (header_block ?fr (map demo_deliver
      (request_nva ''GET'' u (request_uri demo_client_env u (url_of ''http'' ''h.com'' None ''/a'' (Some ''q''))) [])))
      (mem_recv (lib ?ES) ''x'' (session ?sh))"
    unfolding eq using block_lib_makes [of "''x''"] by (simp add: demo_request_def)
  have fr: "hd_type ?fr = HEADERS" "headers_cat ?fr = HCAT_REQUEST" "hd_stream_id ?fr = 1" "end_stream ?fr" "mux ?ES = []"
    by (simp_all add: demo_frame_def end_stream_def NGHTTP2_FLAG_END_STREAM_def demo_env_def)
  from request_reaches_application [OF ok E u e demo_delivers m _ server_inv_new sh(1) fr(1,2), unfolded fr(3,5) eqTrueI [OF fr(4)] if_True, OF _ sh(2), unfolded eq]
  show ?thesis by - (rule exI [of _ u], auto)
qed


lemma demo_client_inv: "client_inv (demo_session\<lparr>c_streams := [(1, c_stream_new)]\<rparr>)"
  using demo_client_facts(1) c_stream_new_ok
  by (auto simp: client_inv_def c_pending_bytes_def table_ok_def om.all_entries_def demo_session_def session_impl_new_def
      om_find_def split: if_splits)

definition demo_response_env :: "(nat, unit) client_env" where
  "demo_response_env = demo_client_env\<lparr>c_lib :=
     block_lib (header_block (demo_frame HCAT_RESPONSE) (map demo_deliver (response_nva response_impl_new (http_date 0))))\<rparr>"



definition demo_push :: "nghttp2_frame" where
  "demo_push = \<lparr>hd_type = PUSH_PROMISE, hd_stream_id = 1, hd_flags = 0, headers_cat = HCAT_REQUEST, promised_stream_id = 2\<rparr>"


end
